(* ===== verification/Prelude.thy ===== *)
theory Prelude
  imports Main "HOL-Library.Word"
begin

text \<open>
  Shared vocabulary of the development: the faults a C++ operation can end in, the result
  type that carries them, \<open>size_t\<close> and \<open>int64_t\<close> arithmetic with its wrap-around or
  overflow written out, the standard algorithms the sources call on vectors, and the
  generic transition system with its invariant rule.
\<close>

named_theorems arith_w \<open>machine arithmetic that stays in range\<close>
named_theorems result_simps \<open>evaluation of results that may carry a fault\<close>

section \<open>Faults and results\<close>

text \<open>
  \<open>AssertFailed\<close> is a failing \<open>assert\<close> (the model is the build with assertions: where an
  operation returns normally, no assertion fired and the build without assertions takes the
  same path). \<open>Aborted\<close> is the \<open>abort()\<close> of \<open>FATAL\<close> and \<open>SYSFATAL\<close>. \<open>LengthError\<close>,
  \<open>BadFunctionCall\<close>, \<open>InvalidArgument\<close> and \<open>OutOfRange\<close> are the exceptions of the standard
  library that the sources can raise and never catch. The others are undefined behaviour.
\<close>

datatype fault =
    AssertFailed
  | Aborted
  | LengthError
  | BadFunctionCall
  | InvalidArgument
  | OutOfRange
  | OutOfBounds
  | NullDeref
  | UseAfterFree
  | SignedOverflow

type_synonym 'a result = "fault + 'a"

definition rbind :: "'a result \<Rightarrow> ('a \<Rightarrow> 'b result) \<Rightarrow> 'b result" where
  "rbind r f = (case r of Inl e \<Rightarrow> Inl e | Inr x \<Rightarrow> f x)"

definition ensure :: "bool \<Rightarrow> fault \<Rightarrow> unit result" where
  "ensure p e = (if p then Inr () else Inl e)"

text \<open>Run a body on each element in turn, stopping at the first fault.\<close>

fun rfold :: "('a \<Rightarrow> 's \<Rightarrow> 's result) \<Rightarrow> 'a list \<Rightarrow> 's \<Rightarrow> 's result" where
  "rfold f [] s = Inr s"
| "rfold f (x # xs) s = rbind (f x s) (rfold f xs)"

text \<open>A result that is no fault and satisfies a property (total correctness).\<close>

definition returns :: "'a result \<Rightarrow> ('a \<Rightarrow> bool) \<Rightarrow> bool" where
  "returns r P = (case r of Inl e \<Rightarrow> False | Inr x \<Rightarrow> P x)"

text \<open>A result that satisfies a property or is one of the faults that are allowed for.\<close>

definition result_in :: "fault set \<Rightarrow> 'a result \<Rightarrow> ('a \<Rightarrow> bool) \<Rightarrow> bool" where
  "result_in E r P = (case r of Inl e \<Rightarrow> e \<in> E | Inr x \<Rightarrow> P x)"

lemma rbind_Inr [simp, result_simps]: "rbind (Inr x) f = f x"
  by (simp add: rbind_def)

lemma rbind_Inl [simp, result_simps]: "rbind (Inl e) f = Inl e"
  by (simp add: rbind_def)

lemma rbind_eq_Inr [result_simps]: "rbind r f = Inr y \<longleftrightarrow> (\<exists>x. r = Inr x \<and> f x = Inr y)"
  by (cases r) auto

lemma rbind_eq_Inl [result_simps]:
  "rbind r f = Inl e \<longleftrightarrow> r = Inl e \<or> (\<exists>x. r = Inr x \<and> f x = Inl e)"
  by (cases r) auto

lemma rbind_assoc: "rbind (rbind r f) g = rbind r (\<lambda>x. rbind (f x) g)"
  by (cases r) auto

lemma rbind_cong [fundef_cong]:
  "r = r' \<Longrightarrow> (\<And>x. r' = Inr x \<Longrightarrow> f x = g x) \<Longrightarrow> rbind r f = rbind r' g"
  by (cases r') auto

lemma ensure_True [simp, result_simps]: "p \<Longrightarrow> ensure p e = Inr ()"
  by (simp add: ensure_def)

lemma ensure_False [simp, result_simps]: "\<not> p \<Longrightarrow> ensure p e = Inl e"
  by (simp add: ensure_def)

lemma ensure_eq_Inr [simp, result_simps]: "ensure p e = Inr u \<longleftrightarrow> p"
  by (simp add: ensure_def)

lemma ensure_eq_Inl [simp, result_simps]: "ensure p e = Inl e' \<longleftrightarrow> \<not> p \<and> e' = e"
  by (auto simp: ensure_def)

lemma returns_Inr [simp, result_simps]: "returns (Inr x) P \<longleftrightarrow> P x"
  by (simp add: returns_def)

lemma returns_Inl [simp, result_simps]: "\<not> returns (Inl e) P"
  by (simp add: returns_def)

lemma returns_iff: "returns r P \<longleftrightarrow> (\<exists>x. r = Inr x \<and> P x)"
  by (cases r) auto

lemma returnsD: "returns r P \<Longrightarrow> r = Inr x \<Longrightarrow> P x"
  by simp

lemma returns_mono: "returns r P \<Longrightarrow> (\<And>x. P x \<Longrightarrow> Q x) \<Longrightarrow> returns r Q"
  by (cases r) auto

lemma returns_rbind: "returns (rbind r f) P \<longleftrightarrow> returns r (\<lambda>x. returns (f x) P)"
  by (cases r) auto

lemma returns_rbindI:
  "returns r Q \<Longrightarrow> (\<And>x. r = Inr x \<Longrightarrow> Q x \<Longrightarrow> returns (f x) P) \<Longrightarrow> returns (rbind r f) P"
  by (cases r) auto

lemma result_in_Inr [simp, result_simps]: "result_in E (Inr x) P \<longleftrightarrow> P x"
  by (simp add: result_in_def)

lemma result_in_Inl [simp, result_simps]: "result_in E (Inl e) P \<longleftrightarrow> e \<in> E"
  by (simp add: result_in_def)

lemma result_in_mono:
  "result_in E r P \<Longrightarrow> E \<subseteq> F \<Longrightarrow> (\<And>x. r = Inr x \<Longrightarrow> P x \<Longrightarrow> Q x) \<Longrightarrow> result_in F r Q"
  by (cases r) auto

lemma result_in_rbind:
  "result_in E r Q \<Longrightarrow> (\<And>x. r = Inr x \<Longrightarrow> Q x \<Longrightarrow> result_in E (f x) P) \<Longrightarrow> result_in E (rbind r f) P"
  by (cases r) auto

lemma rfold_append: "rfold f (xs @ ys) s = rbind (rfold f xs s) (rfold f ys)"
  by (induction xs arbitrary: s) (auto simp: rbind_assoc intro!: rbind_cong)

text \<open>The loop rule of \<open>rfold\<close>: a body that never faults and keeps an invariant.\<close>

lemma rfold_returns:
  assumes "I s" and "\<And>x s. x \<in> set xs \<Longrightarrow> I s \<Longrightarrow> returns (f x s) I"
  shows "returns (rfold f xs s) I"
  using assms
proof (induction xs arbitrary: s)
  case (Cons x xs)
  then show ?case
    by (auto simp: returns_iff) (metis rbind_Inr returns_iff)
qed simp

section \<open>Machine integers\<close>

text \<open>
  \<open>size_t\<close> is an unsigned 64-bit integer, modelled as a \<open>nat\<close> below \<open>SIZE_T\<close> with the
  wrap-around of \<open>+\<close> and \<open>-\<close> written out; \<open>max_size\<close> is \<open>std::vector<char>::max_size()\<close>,
  the greatest \<open>ptrdiff_t\<close>. \<open>std::chrono\<close> durations and time points count nanoseconds in
  an \<open>int64_t\<close>; signed overflow is undefined, so the checked operation returns a fault.
\<close>

definition SIZE_T :: nat where
  "SIZE_T = 2 ^ 64"

definition max_size :: nat where
  "max_size = 2 ^ 63 - 1"

definition size_add :: "nat \<Rightarrow> nat \<Rightarrow> nat" where
  "size_add a b = (a + b) mod SIZE_T"

definition size_sub :: "nat \<Rightarrow> nat \<Rightarrow> nat" where
  "size_sub a b = (a + (SIZE_T - b)) mod SIZE_T"

definition int64_add :: "int \<Rightarrow> int \<Rightarrow> int result" where
  "int64_add a b =
     (if - (2 ^ 63) \<le> a + b \<and> a + b < 2 ^ 63 then Inr (a + b) else Inl SignedOverflow)"

definition int64_sub :: "int \<Rightarrow> int \<Rightarrow> int result" where
  "int64_sub a b =
     (if - (2 ^ 63) \<le> a - b \<and> a - b < 2 ^ 63 then Inr (a - b) else Inl SignedOverflow)"

lemma size_add_small [arith_w]: "a + b < SIZE_T \<Longrightarrow> size_add a b = a + b"
  by (simp add: size_add_def)

lemma size_sub_small [arith_w]:
  assumes "b \<le> a" "a < SIZE_T"
  shows "size_sub a b = a - b"
proof -
  have "a + (SIZE_T - b) = (a - b) + SIZE_T" using assms by simp
  then have "size_sub a b = ((a - b) + SIZE_T) mod SIZE_T" by (simp only: size_sub_def)
  also have "\<dots> = (a - b) mod SIZE_T" by (rule mod_add_self2)
  finally show ?thesis using assms by simp
qed

lemma max_size_less [arith_w]: "max_size < SIZE_T" "max_size + max_size < SIZE_T"
  by (simp_all add: max_size_def SIZE_T_def)

lemma le_max_size_less [arith_w]: "n \<le> max_size \<Longrightarrow> n < SIZE_T"
  using max_size_less(1) by simp

section \<open>Algorithms of the standard library\<close>

text \<open>
  \<open>blit\<close> is \<open>std::copy\<close> (or a system call) writing a separate array into a vector at an
  offset; \<open>copy_within\<close> is \<open>std::copy\<close> inside one vector, element by element from the
  left, as the standard requires when the ranges overlap; \<open>search_at\<close> and \<open>memchr_at\<close>
  are \<open>std::search\<close> (offset of the first match, the length where there is none) and
  \<open>memchr\<close> (\<open>None\<close> for the null pointer).
\<close>

definition blit :: "'a list \<Rightarrow> nat \<Rightarrow> 'a list \<Rightarrow> 'a list" where
  "blit src off xs = take off xs @ src @ drop (off + length src) xs"

fun copy_within :: "nat \<Rightarrow> nat \<Rightarrow> nat \<Rightarrow> 'a list \<Rightarrow> 'a list" where
  "copy_within src dst 0 xs = xs"
| "copy_within src dst (Suc n) xs = copy_within (Suc src) (Suc dst) n (xs[dst := xs ! src])"

fun search_at :: "'a list \<Rightarrow> 'a list \<Rightarrow> nat" where
  "search_at pat [] = 0"
| "search_at pat (x # xs) =
     (if take (length pat) (x # xs) = pat then 0 else Suc (search_at pat xs))"

fun memchr_at :: "'a \<Rightarrow> 'a list \<Rightarrow> nat option" where
  "memchr_at c [] = None"
| "memchr_at c (x # xs) = (if x = c then Some 0 else map_option Suc (memchr_at c xs))"

lemma length_blit [simp]: "off + length src \<le> length xs \<Longrightarrow> length (blit src off xs) = length xs"
  by (simp add: blit_def)

lemma take_blit [simp]: "off \<le> length xs \<Longrightarrow> n \<le> off \<Longrightarrow> take n (blit src off xs) = take n xs"
  by (simp add: blit_def min_def)

lemma drop_blit: "off \<le> length xs \<Longrightarrow> drop off (blit src off xs) = src @ drop (off + length src) xs"
  by (simp add: blit_def)

text \<open>Writing just behind a window extends the window; writing just before it, too.\<close>

lemma window_blit_end:
  assumes "r \<le> w" "w + length src \<le> length xs"
  shows "take (w + length src - r) (drop r (blit src w xs)) = take (w - r) (drop r xs) @ src"
  using assms by (simp add: blit_def drop_take add.commute)

lemma window_blit_front:
  assumes "length src \<le> r" "r \<le> w" "w \<le> length xs"
  shows "take (w - (r - length src)) (drop (r - length src) (blit src (r - length src) xs))
    = src @ take (w - r) (drop r xs)"
  using assms by (simp add: blit_def)

lemma length_copy_within [simp]: "length (copy_within src dst n xs) = length xs"
  by (induction src dst n xs rule: copy_within.induct) auto

text \<open>Copying to the left is right even when the ranges overlap.\<close>

lemma copy_within_left:
  assumes "dst \<le> src" "src + n \<le> length xs"
  shows "copy_within src dst n xs = blit (take n (drop src xs)) dst xs"
  using assms
proof (induction src dst n xs rule: copy_within.induct)
  case (2 src dst n xs)
  let ?ys = "xs[dst := xs ! src]"
  have "copy_within (Suc src) (Suc dst) n ?ys = blit (take n (drop (Suc src) ?ys)) (Suc dst) ?ys"
    using 2 by simp
  moreover have "drop (Suc src) ?ys = drop (Suc src) xs"
    using 2(2) by (simp add: drop_update_swap drop_update_cancel)
  moreover have "take (Suc n) (drop src xs) = xs ! src # take n (drop (Suc src) xs)"
    using 2(3) by (simp add: Cons_nth_drop_Suc[symmetric])
  moreover have "take (Suc dst) ?ys = take dst xs @ [xs ! src]"
    using 2(2,3) by (simp add: take_Suc_conv_app_nth)
  moreover have "drop (Suc dst + m) ?ys = drop (Suc dst + m) xs" for m
    by (simp add: drop_update_cancel)
  ultimately show ?case using 2(3) by (simp add: blit_def)
qed (simp add: blit_def)

lemma search_at_le: "search_at pat xs \<le> length xs"
  by (induction pat xs rule: search_at.induct) auto

lemma search_at_found:
  "pat \<noteq> [] \<Longrightarrow> search_at pat xs < length xs \<Longrightarrow>
    take (length pat) (drop (search_at pat xs) xs) = pat"
  by (induction pat xs rule: search_at.induct) (auto split: if_splits)

lemma search_at_first:
  "i < search_at pat xs \<Longrightarrow> take (length pat) (drop i xs) \<noteq> pat"
proof (induction pat xs arbitrary: i rule: search_at.induct)
  case (2 pat x xs)
  then show ?case by (cases i) (auto split: if_splits)
qed simp

lemma memchr_at_Some:
  "memchr_at c xs = Some i \<longleftrightarrow> i < length xs \<and> xs ! i = c \<and> c \<notin> set (take i xs)"
proof (induction xs arbitrary: i)
  case (Cons x xs)
  then show ?case by (cases i) auto
qed simp

lemma memchr_at_None: "memchr_at c xs = None \<longleftrightarrow> c \<notin> set xs"
  by (induction xs) auto

section \<open>Transition systems\<close>

text \<open>
  The concurrent parts of the library are step relations. \<open>reach\<close> collects the states a
  system reaches from its initial ones; a property that holds initially and that every step
  keeps holds in all of them. The components interpret the locale on their own relations.
\<close>

inductive reach :: "('s \<Rightarrow> bool) \<Rightarrow> ('s \<Rightarrow> 's \<Rightarrow> bool) \<Rightarrow> 's \<Rightarrow> bool"
  for start :: "'s \<Rightarrow> bool" and step :: "'s \<Rightarrow> 's \<Rightarrow> bool"
where
  reach_start: "start s \<Longrightarrow> reach start step s"
| reach_step: "reach start step s \<Longrightarrow> step s t \<Longrightarrow> reach start step t"

locale inductive_invariant =
  fixes start :: "'s \<Rightarrow> bool"
    and step :: "'s \<Rightarrow> 's \<Rightarrow> bool"
    and I :: "'s \<Rightarrow> bool"
  assumes invariant_start: "start s \<Longrightarrow> I s"
    and invariant_step: "I s \<Longrightarrow> step s t \<Longrightarrow> I t"
begin

lemma invariant_reach: "reach start step s \<Longrightarrow> I s"
  by (induction rule: reach.induct) (auto intro: invariant_start invariant_step)

lemma invariant_rtranclp: "I s \<Longrightarrow> step\<^sup>*\<^sup>* s t \<Longrightarrow> I t"
  by (rotate_tac, induction rule: rtranclp_induct) (auto intro: invariant_step)

end

lemma reach_rtranclp: "reach start step s \<Longrightarrow> step\<^sup>*\<^sup>* s t \<Longrightarrow> reach start step t"
  by (rotate_tac, induction rule: rtranclp_induct) (auto intro: reach_step)

end
