(* ===== verification/Byte_Order.thy ===== *)
theory Byte_Order
  imports Prelude
begin

unbundle bit_operations_syntax

text \<open>
  Bytes in memory. \<open>le_bytes n w\<close> is the object representation of an \<open>n\<close>-byte integer on
  the little-endian hosts the library is built for, \<open>le_word\<close> reads it back (\<open>memcpy\<close>
  into an integer), and \<open>bswap\<close> is what \<open>htobe16/32/64\<close>, \<open>be16/32/64toh\<close>, \<open>htons\<close>,
  \<open>htonl\<close> and \<open>ntohs\<close> do there: the value with its bytes reversed.
\<close>

type_synonym byte = "8 word"

definition le_bytes :: "nat \<Rightarrow> 'a::len word \<Rightarrow> byte list" where
  "le_bytes n w = map (\<lambda>i. ucast (drop_bit (8 * i) w)) [0..<n]"

fun le_word :: "byte list \<Rightarrow> 'a::len word" where
  "le_word [] = 0"
| "le_word (b # bs) = ucast b OR push_bit 8 (le_word bs)"

definition bswap :: "nat \<Rightarrow> 'a::len word \<Rightarrow> 'a word" where
  "bswap n w = le_word (rev (le_bytes n w))"

lemma length_le_bytes [simp]: "length (le_bytes n w) = n"
  by (simp add: le_bytes_def)

lemma bit_le_bytes:
  "i < n \<Longrightarrow> bit (le_bytes n w ! i) j \<longleftrightarrow> j < 8 \<and> bit w (8 * i + j)"
  by (auto simp: le_bytes_def bit_simps)

lemma bit_le_word:
  "bit (le_word bs :: 'a::len word) k \<longleftrightarrow>
    k < LENGTH('a) \<and> k div 8 < length bs \<and> bit (bs ! (k div 8)) (k mod 8)"
proof (induction bs arbitrary: k)
  case (Cons b bs)
  show ?case
  proof (cases "k < 8")
    case True
    then show ?thesis by (auto simp: bit_simps)
  next
    case False
    then obtain m where k: "k = 8 + m" by (auto simp: not_less le_iff_add)
    have "\<not> bit b k" using False bit_imp_le_length[of b k] by auto
    moreover have "k div 8 = Suc (m div 8)" "k mod 8 = m mod 8" by (simp_all add: k)
    ultimately show ?thesis using Cons.IH[of m] by (auto simp: k bit_simps)
  qed
qed simp

lemma le_word_le_bytes:
  assumes "8 * n = LENGTH('a)"
  shows "le_word (le_bytes n w) = (w :: 'a::len word)"
proof (rule bit_word_eqI)
  fix k assume "k < LENGTH('a)"
  moreover from this assms have "k div 8 < n" by simp
  ultimately show "bit (le_word (le_bytes n w) :: 'a word) k = bit w k"
    by (simp add: bit_le_word bit_le_bytes)
qed

lemma le_bytes_le_word:
  assumes "8 * length bs = LENGTH('a)"
  shows "le_bytes (length bs) (le_word bs :: 'a::len word) = bs"
proof (rule nth_equalityI)
  fix i assume "i < length (le_bytes (length bs) (le_word bs :: 'a word))"
  then have i: "i < length bs" by simp
  show "le_bytes (length bs) (le_word bs :: 'a word) ! i = bs ! i"
  proof (rule bit_word_eqI)
    fix j assume "j < LENGTH(8)"
    then have "j < 8" by simp
    moreover from this i have "8 * i + j < LENGTH('a)" using assms by linarith
    ultimately show "bit (le_bytes (length bs) (le_word bs :: 'a word) ! i) j = bit (bs ! i) j"
      using i by (simp add: bit_le_bytes bit_le_word)
  qed
qed simp

text \<open>The bytes of the swapped value are the bytes of the value, most significant first.\<close>

lemma le_bytes_bswap:
  assumes "8 * n = LENGTH('a)"
  shows "le_bytes n (bswap n w :: 'a::len word) = rev (le_bytes n w)"
  using le_bytes_le_word[of "rev (le_bytes n w)", where 'a = 'a] assms by (simp add: bswap_def)

lemma bswap_bswap:
  assumes "8 * n = LENGTH('a)"
  shows "bswap n (bswap n w) = (w :: 'a::len word)"
proof -
  have "bswap n (bswap n w) = le_word (rev (le_bytes n (bswap n w)))" by (rule bswap_def)
  also have "\<dots> = le_word (le_bytes n w)" by (simp add: le_bytes_bswap assms)
  finally show ?thesis by (simp add: le_word_le_bytes assms)
qed

lemma bswap_le_word:
  assumes "8 * length bs = LENGTH('a)"
  shows "bswap (length bs) (le_word bs :: 'a::len word) = le_word (rev bs)"
  by (simp add: bswap_def le_bytes_le_word assms)

end
