(* ===== verification/Byte_Queue.thy ===== *)
theory Byte_Queue
  imports Byte_Order
begin

text \<open>
  The contract of the network buffers as their clients see it: a queue of bytes that grows
  at one end and shrinks at the other. \<open>invar\<close> is the provider's invariant, \<open>content\<close> the
  bytes held, \<open>room\<close> the sizes that certainly fit. The client lemmas are proved here once;
  \<open>Buffer\<close> provides the operations.
\<close>

datatype queue_op = Enqueue "byte list" | Dequeue nat

text \<open>All bytes entered, and the number of bytes removed, by a sequence of operations.\<close>

fun entered :: "queue_op list \<Rightarrow> byte list" where
  "entered [] = []"
| "entered (Enqueue xs # ops) = xs @ entered ops"
| "entered (Dequeue n # ops) = entered ops"

fun removed :: "queue_op list \<Rightarrow> nat" where
  "removed [] = 0"
| "removed (Enqueue xs # ops) = removed ops"
| "removed (Dequeue n # ops) = n + removed ops"

definition queue_step ::
  "(byte list \<Rightarrow> 'q \<Rightarrow> 'q result) \<Rightarrow> (nat \<Rightarrow> 'q \<Rightarrow> 'q result) \<Rightarrow> queue_op \<Rightarrow> 'q \<Rightarrow> 'q result"
where
  "queue_step enq deq op = (case op of Enqueue xs \<Rightarrow> enq xs | Dequeue n \<Rightarrow> deq n)"

locale byte_queue =
  fixes invar :: "'q \<Rightarrow> bool"
    and content :: "'q \<Rightarrow> byte list"
    and enqueue :: "byte list \<Rightarrow> 'q \<Rightarrow> 'q result"
    and dequeue :: "nat \<Rightarrow> 'q \<Rightarrow> 'q result"
    and room :: "'q \<Rightarrow> nat \<Rightarrow> bool"
  assumes enqueue_room:
      "invar q \<Longrightarrow> room q (length xs) \<Longrightarrow>
        returns (enqueue xs q) (\<lambda>q'. invar q' \<and> content q' = content q @ xs)"
    and enqueue_Inr:
      "invar q \<Longrightarrow> length xs \<le> max_size \<Longrightarrow> enqueue xs q = Inr q' \<Longrightarrow>
        invar q' \<and> content q' = content q @ xs"
    and enqueue_Inl:
      "invar q \<Longrightarrow> length xs \<le> max_size \<Longrightarrow> enqueue xs q = Inl e \<Longrightarrow> e = LengthError"
    and dequeue_ok:
      "invar q \<Longrightarrow> n \<le> length (content q) \<Longrightarrow>
        returns (dequeue n q) (\<lambda>q'. invar q' \<and> content q' = drop n (content q))"
    and dequeue_too_much:
      "invar q \<Longrightarrow> length (content q) < n \<Longrightarrow> dequeue n q = Inl AssertFailed"
begin

lemma dequeue_Inr:
  assumes "invar q" "dequeue n q = Inr q'"
  shows "n \<le> length (content q) \<and> invar q' \<and> content q' = drop n (content q)"
proof -
  have "n \<le> length (content q)" using assms dequeue_too_much[of q n] by force
  then show ?thesis using assms dequeue_ok[of q n] by simp
qed

text \<open>First in, first out: whatever the sequence of operations, what is left is what was
  there followed by all that was entered, less the prefix that was removed.\<close>

lemma run_fifo:
  assumes "invar q"
    and "\<And>xs. Enqueue xs \<in> set ops \<Longrightarrow> length xs \<le> max_size"
    and "rfold (queue_step enqueue dequeue) ops q = Inr q'"
  shows "invar q' \<and> content q' = drop (removed ops) (content q @ entered ops)
    \<and> removed ops \<le> length (content q @ entered ops)"
  using assms
proof (induction ops arbitrary: q)
  case (Cons op ops)
  from Cons.prems(3) obtain p where
    p: "queue_step enqueue dequeue op q = Inr p" "rfold (queue_step enqueue dequeue) ops p = Inr q'"
    by (auto simp: rbind_eq_Inr)
  show ?case
  proof (cases op)
    case (Enqueue xs)
    then have "invar p \<and> content p = content q @ xs"
      using p(1) Cons.prems(1,2) by (intro enqueue_Inr) (auto simp: queue_step_def)
    then show ?thesis using Cons.IH[OF _ _ p(2)] Cons.prems(2) Enqueue by simp
  next
    case (Dequeue n)
    then have "n \<le> length (content q) \<and> invar p \<and> content p = drop n (content q)"
      using p(1) Cons.prems(1) by (intro dequeue_Inr) (auto simp: queue_step_def)
    then show ?thesis using Cons.IH[OF _ _ p(2)] Cons.prems(2) Dequeue
      by (auto simp: add.commute)
  qed
qed simp

text \<open>A sequence of operations ends in a fault only where an entry does not fit, or where
  some prefix of it removes more than was held and entered.\<close>

lemma run_faults:
  assumes "invar q"
    and "\<And>xs. Enqueue xs \<in> set ops \<Longrightarrow> length xs \<le> max_size"
    and "rfold (queue_step enqueue dequeue) ops q = Inl e"
  shows "e = LengthError \<or>
    e = AssertFailed \<and> (\<exists>k. length (content q @ entered (take k ops)) < removed (take k ops))"
  using assms
proof (induction ops arbitrary: q)
  case (Cons op ops)
  have step: "e = LengthError \<or> e = AssertFailed \<and>
      (\<exists>k. length (content p @ entered (take k ops)) < removed (take k ops))"
    if "queue_step enqueue dequeue op q = Inr p" "invar p" for p
    using Cons.IH[of p] Cons.prems(2,3) that by simp
  show ?case
  proof (cases op)
    case (Enqueue xs)
    note xs = Cons.prems(2)[of xs]
    show ?thesis
    proof (cases "enqueue xs q")
      case (Inl f)
      then show ?thesis
        using Cons.prems(1,3) Enqueue enqueue_Inl[of q xs] xs by (simp add: queue_step_def)
    next
      case (Inr p)
      then have p: "invar p" "content p = content q @ xs"
        using Cons.prems(1) Enqueue enqueue_Inr[of q xs p] xs by simp_all
      have "\<exists>k. length (content q @ entered (take k (op # ops))) < removed (take k (op # ops))"
        if "length (content p @ entered (take k ops)) < removed (take k ops)" for k
        using that p(2) Enqueue by (intro exI[of _ "Suc k"]) simp
      moreover have "queue_step enqueue dequeue op q = Inr p"
        using Enqueue Inr by (simp add: queue_step_def)
      ultimately show ?thesis using step p(1) by blast
    qed
  next
    case (Dequeue n)
    show ?thesis
    proof (cases "n \<le> length (content q)")
      case True
      then obtain p where p: "dequeue n q = Inr p" "invar p" "content p = drop n (content q)"
        using dequeue_ok[OF Cons.prems(1)] by (auto simp: returns_iff)
      have "\<exists>k. length (content q @ entered (take k (op # ops))) < removed (take k (op # ops))"
        if "length (content p @ entered (take k ops)) < removed (take k ops)" for k
        using that p(3) Dequeue True by (intro exI[of _ "Suc k"]) simp
      moreover have "queue_step enqueue dequeue op q = Inr p"
        using Dequeue p(1) by (simp add: queue_step_def)
      ultimately show ?thesis using step p(2) by blast
    next
      case False
      then have "\<exists>k. length (content q @ entered (take k (op # ops))) < removed (take k (op # ops))"
        using Dequeue by (intro exI[of _ 1]) simp
      then show ?thesis
        using False Cons.prems(1,3) Dequeue dequeue_too_much[of q n] by (auto simp: queue_step_def)
    qed
  qed
qed simp

end

end
