(* ===== verification/Buffer.thy ===== *)
theory Buffer
  imports Byte_Queue
begin

text \<open>
  The class \<open>Buffer\<close> (\<open>Buffer.hpp\<close>, \<open>Buffer.cc\<close>): a vector of bytes with a reader and a
  writer index, eight cheap bytes in front of the data, and growth on demand. A pointer into
  the vector is an offset, the null pointer \<open>None\<close>. Indices are \<open>size_t\<close>, so sums and
  differences wrap. The operations come first, then the representation invariant, the
  abstraction to a byte queue and the lemmas the connections use.
\<close>

section \<open>The class\<close>

record Buffer =
  buffer :: "byte list"
  readerIndex :: nat
  writerIndex :: nat

definition kCheapPrepend :: nat where "kCheapPrepend = 8"
definition kInitialSize :: nat where "kInitialSize = 1024"
definition kCRLF :: "byte list" where "kCRLF = [13, 10]"

text \<open>Vector accesses, with the bounds the language leaves to the programmer.\<close>

definition vec_write :: "byte list \<Rightarrow> nat \<Rightarrow> byte list \<Rightarrow> byte list result" where
  "vec_write src off xs =
     (if off + length src \<le> length xs then Inr (blit src off xs) else Inl OutOfBounds)"

definition vec_read :: "nat \<Rightarrow> nat \<Rightarrow> byte list \<Rightarrow> byte list result" where
  "vec_read off n xs =
     (if off + n \<le> length xs then Inr (take n (drop off xs)) else Inl OutOfBounds)"

definition vec_resize :: "nat \<Rightarrow> byte list \<Rightarrow> byte list result" where
  "vec_resize n xs =
     (if n \<le> max_size then Inr (take n xs @ replicate (n - length xs) 0) else Inl LengthError)"

definition readableBytes :: "Buffer \<Rightarrow> nat" where
  "readableBytes b = size_sub (writerIndex b) (readerIndex b)"

definition writableBytes :: "Buffer \<Rightarrow> nat" where
  "writableBytes b = size_sub (length (buffer b)) (writerIndex b)"

definition prependableBytes :: "Buffer \<Rightarrow> nat" where
  "prependableBytes b = readerIndex b"

definition Buffer_new :: "nat \<Rightarrow> Buffer result" where
  "Buffer_new initialSize =
     rbind (vec_resize (size_add kCheapPrepend initialSize) []) (\<lambda>v.
     let b = \<lparr>buffer = v, readerIndex = kCheapPrepend, writerIndex = kCheapPrepend\<rparr> in
     rbind (ensure (readableBytes b = 0) AssertFailed) (\<lambda>_.
     rbind (ensure (writableBytes b = initialSize) AssertFailed) (\<lambda>_.
     rbind (ensure (prependableBytes b = kCheapPrepend) AssertFailed) (\<lambda>_. Inr b))))"

definition Buffer_swap :: "Buffer \<times> Buffer \<Rightarrow> Buffer \<times> Buffer" where
  "Buffer_swap = (\<lambda>(this, rhs).
     (this\<lparr>buffer := buffer rhs, readerIndex := readerIndex rhs, writerIndex := writerIndex rhs\<rparr>,
      rhs\<lparr>buffer := buffer this, readerIndex := readerIndex this, writerIndex := writerIndex this\<rparr>))"

definition peek :: "Buffer \<Rightarrow> nat" where
  "peek b = readerIndex b"

definition beginWrite :: "Buffer \<Rightarrow> nat" where
  "beginWrite b = writerIndex b"

text \<open>The bytes between two pointers into the buffer.\<close>

definition span :: "Buffer \<Rightarrow> nat \<Rightarrow> nat \<Rightarrow> byte list" where
  "span b from until = take (until - from) (drop from (buffer b))"

definition findCRLF :: "Buffer \<Rightarrow> nat option" where
  "findCRLF b =
     (let crlf = peek b + search_at kCRLF (span b (peek b) (beginWrite b))
      in if crlf = beginWrite b then None else Some crlf)"

definition findCRLF_from :: "nat \<Rightarrow> Buffer \<Rightarrow> nat option result" where
  "findCRLF_from start b =
     rbind (ensure (peek b \<le> start) AssertFailed) (\<lambda>_.
     rbind (ensure (start \<le> beginWrite b) AssertFailed) (\<lambda>_.
     let crlf = start + search_at kCRLF (span b start (beginWrite b))
     in Inr (if crlf = beginWrite b then None else Some crlf)))"

definition findEOL :: "Buffer \<Rightarrow> nat option" where
  "findEOL b =
     map_option (\<lambda>i. peek b + i) (memchr_at 10 (take (readableBytes b) (drop (peek b) (buffer b))))"

definition findEOL_from :: "nat \<Rightarrow> Buffer \<Rightarrow> nat option result" where
  "findEOL_from start b =
     rbind (ensure (peek b \<le> start) AssertFailed) (\<lambda>_.
     rbind (ensure (start \<le> beginWrite b) AssertFailed) (\<lambda>_.
     Inr (map_option (\<lambda>i. start + i) (memchr_at 10 (span b start (beginWrite b))))))"

definition retrieveAll :: "Buffer \<Rightarrow> Buffer" where
  "retrieveAll b = b\<lparr>readerIndex := kCheapPrepend, writerIndex := kCheapPrepend\<rparr>"

definition retrieve :: "nat \<Rightarrow> Buffer \<Rightarrow> Buffer result" where
  "retrieve len b =
     rbind (ensure (len \<le> readableBytes b) AssertFailed) (\<lambda>_.
     if len < readableBytes b
     then Inr (b\<lparr>readerIndex := size_add (readerIndex b) len\<rparr>)
     else Inr (retrieveAll b))"

definition retrieveUntil :: "nat \<Rightarrow> Buffer \<Rightarrow> Buffer result" where
  "retrieveUntil until b =
     rbind (ensure (peek b \<le> until) AssertFailed) (\<lambda>_.
     rbind (ensure (until \<le> beginWrite b) AssertFailed) (\<lambda>_.
     retrieve (until - peek b) b))"

definition retrieveInt64 :: "Buffer \<Rightarrow> Buffer result" where "retrieveInt64 = retrieve 8"
definition retrieveInt32 :: "Buffer \<Rightarrow> Buffer result" where "retrieveInt32 = retrieve 4"
definition retrieveInt16 :: "Buffer \<Rightarrow> Buffer result" where "retrieveInt16 = retrieve 2"
definition retrieveInt8 :: "Buffer \<Rightarrow> Buffer result" where "retrieveInt8 = retrieve 1"

definition retrieveAsString :: "nat \<Rightarrow> Buffer \<Rightarrow> (byte list \<times> Buffer) result" where
  "retrieveAsString len b =
     rbind (ensure (len \<le> readableBytes b) AssertFailed) (\<lambda>_.
     rbind (vec_read (peek b) len (buffer b)) (\<lambda>s.
     rbind (retrieve len b) (\<lambda>b'. Inr (s, b'))))"

definition retrieveAllAsString :: "Buffer \<Rightarrow> (byte list \<times> Buffer) result" where
  "retrieveAllAsString b = retrieveAsString (readableBytes b) b"

definition hasWritten :: "nat \<Rightarrow> Buffer \<Rightarrow> Buffer result" where
  "hasWritten len b =
     rbind (ensure (len \<le> writableBytes b) AssertFailed) (\<lambda>_.
     Inr (b\<lparr>writerIndex := size_add (writerIndex b) len\<rparr>))"

definition makeSpace :: "nat \<Rightarrow> Buffer \<Rightarrow> Buffer result" where
  "makeSpace len b =
     (if size_add (writableBytes b) (prependableBytes b) < size_add len kCheapPrepend
      then rbind (vec_resize (size_add (writerIndex b) len) (buffer b)) (\<lambda>v.
           Inr (b\<lparr>buffer := v\<rparr>))
      else
        rbind (ensure (kCheapPrepend < readerIndex b) AssertFailed) (\<lambda>_.
        let readable = readableBytes b;
            v = copy_within (readerIndex b) kCheapPrepend (writerIndex b - readerIndex b) (buffer b);
            b' = b\<lparr>buffer := v, readerIndex := kCheapPrepend,
                    writerIndex := size_add kCheapPrepend readable\<rparr>
        in rbind (ensure (readable = readableBytes b') AssertFailed) (\<lambda>_. Inr b')))"

definition ensureWritableBytes :: "nat \<Rightarrow> Buffer \<Rightarrow> Buffer result" where
  "ensureWritableBytes len b =
     rbind (if writableBytes b < len then makeSpace len b else Inr b) (\<lambda>b'.
     rbind (ensure (len \<le> writableBytes b') AssertFailed) (\<lambda>_. Inr b'))"

definition Buffer_append :: "byte list \<Rightarrow> Buffer \<Rightarrow> Buffer result" where
  "Buffer_append data b =
     rbind (ensureWritableBytes (length data) b) (\<lambda>b1.
     rbind (vec_write data (beginWrite b1) (buffer b1)) (\<lambda>v.
     hasWritten (length data) (b1\<lparr>buffer := v\<rparr>)))"

definition prepend :: "byte list \<Rightarrow> Buffer \<Rightarrow> Buffer result" where
  "prepend data b =
     rbind (ensure (length data \<le> prependableBytes b) AssertFailed) (\<lambda>_.
     let r = size_sub (readerIndex b) (length data) in
     rbind (vec_write data r (buffer b)) (\<lambda>v.
     Inr (b\<lparr>buffer := v, readerIndex := r\<rparr>)))"

text \<open>Integers travel in network byte order; \<open>sizeof\<close> is written out per width.\<close>

definition appendInt64 :: "64 word \<Rightarrow> Buffer \<Rightarrow> Buffer result" where
  "appendInt64 x = Buffer_append (le_bytes 8 (bswap 8 x))"
definition appendInt32 :: "32 word \<Rightarrow> Buffer \<Rightarrow> Buffer result" where
  "appendInt32 x = Buffer_append (le_bytes 4 (bswap 4 x))"
definition appendInt16 :: "16 word \<Rightarrow> Buffer \<Rightarrow> Buffer result" where
  "appendInt16 x = Buffer_append (le_bytes 2 (bswap 2 x))"
definition appendInt8 :: "8 word \<Rightarrow> Buffer \<Rightarrow> Buffer result" where
  "appendInt8 x = Buffer_append (le_bytes 1 x)"

definition prependInt64 :: "64 word \<Rightarrow> Buffer \<Rightarrow> Buffer result" where
  "prependInt64 x = prepend (le_bytes 8 (bswap 8 x))"
definition prependInt32 :: "32 word \<Rightarrow> Buffer \<Rightarrow> Buffer result" where
  "prependInt32 x = prepend (le_bytes 4 (bswap 4 x))"
definition prependInt16 :: "16 word \<Rightarrow> Buffer \<Rightarrow> Buffer result" where
  "prependInt16 x = prepend (le_bytes 2 (bswap 2 x))"
definition prependInt8 :: "8 word \<Rightarrow> Buffer \<Rightarrow> Buffer result" where
  "prependInt8 x = prepend (le_bytes 1 x)"

definition peekInt64 :: "Buffer \<Rightarrow> (64 word) result" where
  "peekInt64 b =
     rbind (ensure (8 \<le> readableBytes b) AssertFailed) (\<lambda>_.
     rbind (vec_read (peek b) 8 (buffer b)) (\<lambda>bs. Inr (bswap 8 (le_word bs))))"
definition peekInt32 :: "Buffer \<Rightarrow> (32 word) result" where
  "peekInt32 b =
     rbind (ensure (4 \<le> readableBytes b) AssertFailed) (\<lambda>_.
     rbind (vec_read (peek b) 4 (buffer b)) (\<lambda>bs. Inr (bswap 4 (le_word bs))))"
definition peekInt16 :: "Buffer \<Rightarrow> (16 word) result" where
  "peekInt16 b =
     rbind (ensure (2 \<le> readableBytes b) AssertFailed) (\<lambda>_.
     rbind (vec_read (peek b) 2 (buffer b)) (\<lambda>bs. Inr (bswap 2 (le_word bs))))"
definition peekInt8 :: "Buffer \<Rightarrow> (8 word) result" where
  "peekInt8 b =
     rbind (ensure (1 \<le> readableBytes b) AssertFailed) (\<lambda>_.
     rbind (vec_read (peek b) 1 (buffer b)) (\<lambda>bs. Inr (le_word bs)))"

definition readInt64 :: "Buffer \<Rightarrow> (64 word \<times> Buffer) result" where
  "readInt64 b = rbind (peekInt64 b) (\<lambda>x. rbind (retrieveInt64 b) (\<lambda>b'. Inr (x, b')))"
definition readInt32 :: "Buffer \<Rightarrow> (32 word \<times> Buffer) result" where
  "readInt32 b = rbind (peekInt32 b) (\<lambda>x. rbind (retrieveInt32 b) (\<lambda>b'. Inr (x, b')))"
definition readInt16 :: "Buffer \<Rightarrow> (16 word \<times> Buffer) result" where
  "readInt16 b = rbind (peekInt16 b) (\<lambda>x. rbind (retrieveInt16 b) (\<lambda>b'. Inr (x, b')))"
definition readInt8 :: "Buffer \<Rightarrow> (8 word \<times> Buffer) result" where
  "readInt8 b = rbind (peekInt8 b) (\<lambda>x. rbind (retrieveInt8 b) (\<lambda>b'. Inr (x, b')))"

text \<open>
  \<open>readFd\<close> scatters one \<open>readv\<close> over the free tail of the vector and, where that tail is
  shorter than it, a 65536-byte array on the stack. \<open>rv\<close> is what \<open>readv\<close> did: it failed
  with an errno, or it delivered bytes, first into the tail, then into the array. Bytes
  beyond both areas would be a write past the array. The result is the return value, the
  saved errno where it is written, and the buffer.
\<close>

definition extrabuf_size :: nat where "extrabuf_size = 65536"

definition readFd_capacity :: "Buffer \<Rightarrow> nat" where
  "readFd_capacity b =
     (let writable = writableBytes b
      in if writable < extrabuf_size then writable + extrabuf_size else writable)"

definition readFd :: "int + byte list \<Rightarrow> Buffer \<Rightarrow> (int \<times> int option \<times> Buffer) result" where
  "readFd rv b =
     (let writable = writableBytes b in
      case rv of
        Inl err \<Rightarrow> Inr (-1, Some err, b)
      | Inr data \<Rightarrow>
          rbind (ensure (length data \<le> readFd_capacity b) OutOfBounds) (\<lambda>_.
          if length data \<le> writable
          then rbind (vec_write data (writerIndex b) (buffer b)) (\<lambda>v.
               Inr (int (length data), None,
                    b\<lparr>buffer := v, writerIndex := size_add (writerIndex b) (length data)\<rparr>))
          else rbind (vec_write (take writable data) (writerIndex b) (buffer b)) (\<lambda>v.
               rbind (Buffer_append (drop writable data)
                        (b\<lparr>buffer := v, writerIndex := length v\<rparr>)) (\<lambda>b'.
               Inr (int (length data), None, b')))))"

section \<open>Invariant and abstraction\<close>

definition buffer_inv :: "Buffer \<Rightarrow> bool" where
  "buffer_inv b \<longleftrightarrow>
     readerIndex b \<le> writerIndex b \<and> writerIndex b \<le> length (buffer b) \<and>
     kCheapPrepend \<le> length (buffer b) \<and> length (buffer b) \<le> max_size"

definition content :: "Buffer \<Rightarrow> byte list" where
  "content b = take (writerIndex b - readerIndex b) (drop (readerIndex b) (buffer b))"

text \<open>An append certainly fits when the vector may still grow to hold it.\<close>

definition has_room :: "Buffer \<Rightarrow> nat \<Rightarrow> bool" where
  "has_room b n \<longleftrightarrow> writerIndex b + n \<le> max_size"


section \<open>Sizes under the invariant\<close>

named_theorems buffer_simps \<open>sizes of a buffer that satisfies its invariant\<close>

lemma buffer_invD:
  assumes "buffer_inv b"
  shows "readerIndex b \<le> writerIndex b" "writerIndex b \<le> length (buffer b)"
    "8 \<le> length (buffer b)" "length (buffer b) \<le> max_size" "writerIndex b \<le> max_size"
    "readerIndex b \<le> max_size"
  using assms by (auto simp: buffer_inv_def kCheapPrepend_def)

lemma readableBytes_eq [buffer_simps]:
  "buffer_inv b \<Longrightarrow> readableBytes b = writerIndex b - readerIndex b"
  using buffer_invD[of b] by (simp add: readableBytes_def size_sub_small le_max_size_less)

lemma writableBytes_eq [buffer_simps]:
  "buffer_inv b \<Longrightarrow> writableBytes b = length (buffer b) - writerIndex b"
  using buffer_invD[of b] by (simp add: writableBytes_def size_sub_small le_max_size_less)

lemma length_content [buffer_simps]:
  "buffer_inv b \<Longrightarrow> length (content b) = writerIndex b - readerIndex b"
  using buffer_invD[of b] by (simp add: content_def)

lemma readableBytes_content: "buffer_inv b \<Longrightarrow> readableBytes b = length (content b)"
  by (simp add: buffer_simps)

lemma buffer_size_split:
  assumes "buffer_inv b"
  shows "length (buffer b) = prependableBytes b + readableBytes b + writableBytes b"
  using buffer_invD[OF assms] assms by (simp add: buffer_simps prependableBytes_def)

lemma content_window:
  "buffer_inv b \<Longrightarrow> n \<le> length (content b) \<Longrightarrow>
    vec_read (peek b) n (buffer b) = Inr (take n (content b))"
  using buffer_invD[of b] length_content[of b]
  by (simp add: vec_read_def peek_def) (simp add: content_def)

lemma span_content: "span b (peek b) (beginWrite b) = content b"
  by (simp add: span_def content_def peek_def beginWrite_def)

section \<open>Growth\<close>

lemma makeSpace_eq:
  assumes inv: "buffer_inv b" and small: "writableBytes b < len" and len: "len \<le> max_size"
  shows "makeSpace len b =
    (if writableBytes b + prependableBytes b < len + kCheapPrepend
     then (if has_room b len
           then Inr (b\<lparr>buffer := buffer b @ replicate (writerIndex b + len - length (buffer b)) 0\<rparr>)
           else Inl LengthError)
     else Inr (b\<lparr>buffer := blit (content b) kCheapPrepend (buffer b),
                 readerIndex := kCheapPrepend, writerIndex := kCheapPrepend + length (content b)\<rparr>))"
proof -
  note d = buffer_invD[OF inv]
  have sum: "size_add (writableBytes b) (prependableBytes b) = writableBytes b + prependableBytes b"
    using d by (intro size_add_small)
      (simp add: buffer_simps inv prependableBytes_def arith_w le_max_size_less)
  have lenk: "size_add len kCheapPrepend = len + kCheapPrepend"
    using len by (intro size_add_small) (simp add: kCheapPrepend_def SIZE_T_def max_size_def)
  have wr: "size_add (writerIndex b) len = writerIndex b + len"
    using d len by (intro size_add_small) (simp add: SIZE_T_def max_size_def)
  show ?thesis
  proof (cases "writableBytes b + prependableBytes b < len + kCheapPrepend")
    case True
    moreover have "take (writerIndex b + len) (buffer b) = buffer b"
      using small d by (simp add: buffer_simps inv)
    ultimately show ?thesis
      by (simp add: makeSpace_def sum lenk wr vec_resize_def has_room_def)
  next
    case False
    then have r: "kCheapPrepend < readerIndex b"
      using small by (simp add: prependableBytes_def)
    have copied: "copy_within (readerIndex b) kCheapPrepend (writerIndex b - readerIndex b) (buffer b)
        = blit (content b) kCheapPrepend (buffer b)"
      using r d by (subst copy_within_left) (simp_all add: content_def)
    have w': "size_add kCheapPrepend (writerIndex b - readerIndex b)
        = kCheapPrepend + (writerIndex b - readerIndex b)"
      using r d by (intro size_add_small) (simp add: arith_w le_max_size_less)
    have "readableBytes (b\<lparr>buffer := v, readerIndex := kCheapPrepend,
        writerIndex := kCheapPrepend + (writerIndex b - readerIndex b)\<rparr>)
        = writerIndex b - readerIndex b" for v
      using r d by (simp add: readableBytes_def arith_w size_sub_small le_max_size_less)
    then show ?thesis
      using False r
      by (simp add: makeSpace_def sum lenk copied w' readableBytes_eq length_content inv Let_def)
  qed
qed

lemma makeSpace_ok:
  assumes inv: "buffer_inv b" and small: "writableBytes b < len" and len: "len \<le> max_size"
    and b': "makeSpace len b = Inr b'"
  shows "buffer_inv b'" "content b' = content b" "len \<le> writableBytes b'"
proof -
  note d = buffer_invD[OF inv]
  note eq = makeSpace_eq[OF inv small len] b'
  have "buffer_inv b' \<and> content b' = content b \<and> len \<le> writableBytes b'"
  proof (cases "writableBytes b + prependableBytes b < len + kCheapPrepend")
    case True
    then have room: "has_room b len"
      and b'_eq: "b' = b\<lparr>buffer := buffer b @ replicate (writerIndex b + len - length (buffer b)) 0\<rparr>"
      using eq by (auto split: if_splits)
    have sz: "length (buffer b') = writerIndex b + len"
      using small d by (simp add: b'_eq buffer_simps inv)
    moreover have "buffer_inv b'"
      using room d sz by (auto simp: b'_eq buffer_inv_def has_room_def kCheapPrepend_def)
    moreover have "content b' = content b" using d by (simp add: b'_eq content_def)
    ultimately show ?thesis by (simp add: buffer_simps b'_eq)
  next
    case False
    then have r: "kCheapPrepend < readerIndex b"
      and b'_eq: "b' = b\<lparr>buffer := blit (content b) kCheapPrepend (buffer b),
        readerIndex := kCheapPrepend, writerIndex := kCheapPrepend + length (content b)\<rparr>"
      using eq small by (auto simp: prependableBytes_def)
    have fits: "kCheapPrepend + length (content b) \<le> length (buffer b)"
      using r d by (simp add: buffer_simps inv)
    then have "buffer_inv b'" using d
      by (auto simp: b'_eq buffer_inv_def kCheapPrepend_def)
    moreover have "content b' = content b"
      using fits by (simp add: b'_eq content_def[of "b\<lparr>buffer := v, readerIndex := r, writerIndex := w\<rparr>" for v r w] blit_def)
    moreover have "len \<le> writableBytes b'"
      using False r d fits \<open>buffer_inv b'\<close>
      by (simp add: b'_eq buffer_simps inv prependableBytes_def)
    ultimately show ?thesis by simp
  qed
  then show "buffer_inv b'" "content b' = content b" "len \<le> writableBytes b'" by simp_all
qed

lemma ensureWritableBytes_Inr:
  assumes "buffer_inv b" "len \<le> max_size" "ensureWritableBytes len b = Inr b'"
  shows "buffer_inv b'" "content b' = content b" "len \<le> writableBytes b'"
  using assms makeSpace_ok[OF assms(1) _ assms(2)]
  by (auto simp: ensureWritableBytes_def rbind_eq_Inr split: if_splits)

lemma ensureWritableBytes_Inl:
  assumes "buffer_inv b" "len \<le> max_size" "ensureWritableBytes len b = Inl e"
  shows "e = LengthError \<and> \<not> has_room b len"
proof (cases "writableBytes b < len")
  case True
  show ?thesis
  proof (cases "makeSpace len b")
    case (Inl f)
    then show ?thesis
      using makeSpace_eq[OF assms(1) True assms(2)] assms(3) True
      by (simp add: ensureWritableBytes_def split: if_splits)
  next
    case (Inr b')
    then show ?thesis
      using makeSpace_ok(3)[OF assms(1) True assms(2) Inr] assms(3) True
      by (simp add: ensureWritableBytes_def)
  qed
next
  case False
  then show ?thesis using assms(3) by (simp add: ensureWritableBytes_def)
qed

section \<open>The operations on the content\<close>

lemma vec_write_end:
  assumes "buffer_inv b" "length data \<le> writableBytes b"
  defines "b' \<equiv> b\<lparr>buffer := blit data (writerIndex b) (buffer b),
    writerIndex := writerIndex b + length data\<rparr>"
  shows "vec_write data (writerIndex b) (buffer b) = Inr (buffer b')"
    and "buffer_inv b'" and "content b' = content b @ data"
    and "size_add (writerIndex b) (length data) = writerIndex b'"
proof -
  note d = buffer_invD[OF assms(1)]
  have fits: "writerIndex b + length data \<le> length (buffer b)"
    using assms(2) d by (simp add: buffer_simps assms(1))
  show "vec_write data (writerIndex b) (buffer b) = Inr (buffer b')"
    using fits by (simp add: vec_write_def b'_def)
  show "buffer_inv b'" using d fits by (simp add: b'_def buffer_inv_def kCheapPrepend_def)
  show "content b' = content b @ data"
    using window_blit_end[OF d(1) fits] by (simp add: b'_def content_def)
  show "size_add (writerIndex b) (length data) = writerIndex b'"
    using fits d by (simp add: b'_def size_add_small le_max_size_less)
qed

lemma hasWritten_ok:
  assumes "buffer_inv b" "len \<le> writableBytes b"
  shows "hasWritten len b = Inr (b\<lparr>writerIndex := writerIndex b + len\<rparr>)"
proof -
  have "size_add (writerIndex b) len = writerIndex b + len"
    using assms buffer_invD[OF assms(1)]
    by (simp add: size_add_small le_max_size_less buffer_simps)
  then show ?thesis using assms(2) by (simp add: hasWritten_def)
qed

lemma Buffer_append_Inr:
  assumes inv: "buffer_inv b" and len: "length data \<le> max_size"
    and b': "Buffer_append data b = Inr b'"
  shows "buffer_inv b' \<and> content b' = content b @ data"
proof -
  obtain b1 where b1: "ensureWritableBytes (length data) b = Inr b1"
    using b' by (auto simp: Buffer_append_def rbind_eq_Inr)
  note e = ensureWritableBytes_Inr[OF inv len b1]
  note w = vec_write_end[OF e(1,3)]
  have "writableBytes (b1\<lparr>buffer := blit data (writerIndex b1) (buffer b1)\<rparr>) = writableBytes b1"
    using w(1) by (simp add: writableBytes_def vec_write_def split: if_splits)
  then have "b' = b1\<lparr>buffer := blit data (writerIndex b1) (buffer b1),
      writerIndex := writerIndex b1 + length data\<rparr>"
    using b' b1 w(1,4) e(3) by (simp add: Buffer_append_def beginWrite_def hasWritten_def)
  then show ?thesis using w(2,3) e(2) by simp
qed

lemma Buffer_append_Inl:
  assumes inv: "buffer_inv b" and len: "length data \<le> max_size"
    and err: "Buffer_append data b = Inl e"
  shows "e = LengthError \<and> \<not> has_room b (length data)"
proof (cases "ensureWritableBytes (length data) b")
  case (Inl f)
  then show ?thesis
    using ensureWritableBytes_Inl[OF inv len Inl] err by (simp add: Buffer_append_def)
next
  case (Inr b1)
  note e = ensureWritableBytes_Inr[OF inv len Inr]
  note w = vec_write_end[OF e(1,3)]
  have "writableBytes (b1\<lparr>buffer := blit data (writerIndex b1) (buffer b1)\<rparr>) = writableBytes b1"
    using w(1) by (simp add: writableBytes_def vec_write_def split: if_splits)
  then show ?thesis
    using err Inr w(1) e(3) by (simp add: Buffer_append_def beginWrite_def hasWritten_def)
qed

lemma Buffer_append_ok:
  assumes "buffer_inv b" "has_room b (length data)"
  shows "returns (Buffer_append data b) (\<lambda>b'. buffer_inv b' \<and> content b' = content b @ data)"
proof -
  have len: "length data \<le> max_size" using assms(2) by (simp add: has_room_def)
  show ?thesis
    using Buffer_append_Inr[OF assms(1) len] Buffer_append_Inl[OF assms(1) len] assms(2)
    by (cases "Buffer_append data b") auto
qed

lemma retrieveAll_ok:
  "buffer_inv b \<Longrightarrow> buffer_inv (retrieveAll b) \<and> content (retrieveAll b) = []"
  by (simp add: retrieveAll_def buffer_inv_def content_def)

lemma retrieve_ok:
  assumes inv: "buffer_inv b" and len: "len \<le> length (content b)"
  shows "returns (retrieve len b) (\<lambda>b'. buffer_inv b' \<and> content b' = drop len (content b))"
proof (cases "len < length (content b)")
  case True
  have add: "size_add (readerIndex b) len = readerIndex b + len"
    using len buffer_invD[OF inv]
    by (simp add: size_add_small le_max_size_less buffer_simps inv)
  have "content (b\<lparr>readerIndex := readerIndex b + len\<rparr>) = drop len (content b)"
    by (simp add: content_def drop_take add.commute)
  moreover have "buffer_inv (b\<lparr>readerIndex := readerIndex b + len\<rparr>)"
    using len buffer_invD[OF inv] by (simp add: buffer_inv_def kCheapPrepend_def length_content inv)
  ultimately show ?thesis
    using True by (simp add: retrieve_def readableBytes_content inv add)
next
  case False
  then show ?thesis
    using len retrieveAll_ok[OF inv] by (simp add: retrieve_def readableBytes_content inv)
qed

lemma retrieve_too_much:
  "buffer_inv b \<Longrightarrow> length (content b) < len \<Longrightarrow> retrieve len b = Inl AssertFailed"
  by (simp add: retrieve_def readableBytes_content)

text \<open>\<open>Buffer\<close> provides the byte queue.\<close>

interpretation buf: byte_queue buffer_inv content Buffer_append retrieve has_room
proof unfold_locales
  fix q :: Buffer and xs :: "byte list"
  assume "buffer_inv q" "has_room q (length xs)"
  then show "returns (Buffer_append xs q) (\<lambda>q'. buffer_inv q' \<and> content q' = content q @ xs)"
    by (rule Buffer_append_ok)
qed (use Buffer_append_Inr Buffer_append_Inl retrieve_ok retrieve_too_much in blast)+

lemma retrieveAsString_ok:
  assumes "buffer_inv b" "len \<le> length (content b)"
  shows "returns (retrieveAsString len b)
    (\<lambda>(s, b'). s = take len (content b) \<and> buffer_inv b' \<and> content b' = drop len (content b))"
  using assms buf.dequeue_ok[OF assms]
  by (auto simp: retrieveAsString_def readableBytes_content content_window returns_iff)

lemma retrieveAllAsString_ok:
  assumes "buffer_inv b"
  shows "returns (retrieveAllAsString b)
    (\<lambda>(s, b'). s = content b \<and> buffer_inv b' \<and> content b' = [])"
  using retrieveAsString_ok[OF assms, of "length (content b)"]
  by (simp add: retrieveAllAsString_def readableBytes_content assms)

lemma prepend_ok:
  assumes inv: "buffer_inv b" and len: "length data \<le> prependableBytes b"
  shows "returns (prepend data b) (\<lambda>b'. buffer_inv b' \<and> content b' = data @ content b)"
proof -
  note d = buffer_invD[OF inv]
  have len': "length data \<le> readerIndex b" using len by (simp add: prependableBytes_def)
  have r: "size_sub (readerIndex b) (length data) = readerIndex b - length data"
    using len' d by (simp add: size_sub_small le_max_size_less)
  have "vec_write data (readerIndex b - length data) (buffer b)
      = Inr (blit data (readerIndex b - length data) (buffer b))"
    using len' d by (simp add: vec_write_def)
  moreover have "content (b\<lparr>buffer := blit data (readerIndex b - length data) (buffer b),
      readerIndex := readerIndex b - length data\<rparr>) = data @ content b"
    using window_blit_front[OF len' d(1,2)] by (simp add: content_def)
  ultimately show ?thesis
    using len len' d by (simp add: prepend_def r buffer_inv_def kCheapPrepend_def Let_def)
qed

lemma Buffer_new_ok:
  assumes "kCheapPrepend + n \<le> max_size"
  shows "returns (Buffer_new n)
    (\<lambda>b. buffer_inv b \<and> content b = [] \<and> writableBytes b = n \<and> prependableBytes b = kCheapPrepend)"
proof -
  have k: "size_add kCheapPrepend n = kCheapPrepend + n"
    using assms by (simp add: size_add_small le_max_size_less)
  have inv: "buffer_inv \<lparr>buffer = replicate (kCheapPrepend + n) 0,
      readerIndex = kCheapPrepend, writerIndex = kCheapPrepend\<rparr>"
    using assms by (simp add: buffer_inv_def)
  then show ?thesis
    using assms by (simp add: Buffer_new_def k vec_resize_def buffer_simps prependableBytes_def
        content_def Let_def)
qed

section \<open>Integers in network byte order\<close>

text \<open>
  One lemma per direction, generic in the width: reading the first \<open>n\<close> bytes as a
  big-endian integer undoes writing it, wherever the bytes were put.
\<close>

lemma read_be_word:
  assumes inv: "buffer_inv b" and c: "content b = le_bytes n (bswap n x) @ rest"
    and n: "8 * n = LENGTH('a)"
  shows "rbind (ensure (n \<le> readableBytes b) AssertFailed) (\<lambda>_.
      rbind (vec_read (peek b) n (buffer b)) (\<lambda>bs. Inr (bswap n (le_word bs)))) = Inr (x :: 'a::len word)"
    and "returns (retrieve n b) (\<lambda>b'. buffer_inv b' \<and> content b' = rest)"
proof -
  have len: "n \<le> length (content b)" by (simp add: c)
  have "bswap n (le_word (le_bytes n (bswap n x)) :: 'a word) = x"
    by (simp add: le_word_le_bytes bswap_bswap n)
  then show "rbind (ensure (n \<le> readableBytes b) AssertFailed) (\<lambda>_.
      rbind (vec_read (peek b) n (buffer b)) (\<lambda>bs. Inr (bswap n (le_word bs)))) = Inr x"
    using len by (simp add: readableBytes_content inv content_window) (simp add: c)
  show "returns (retrieve n b) (\<lambda>b'. buffer_inv b' \<and> content b' = rest)"
    using buf.dequeue_ok[OF inv len] by (simp add: c)
qed

lemma readInt64_be:
  assumes "buffer_inv b" "content b = le_bytes 8 (bswap 8 x) @ rest"
  shows "returns (readInt64 b) (\<lambda>(y, b'). y = x \<and> buffer_inv b' \<and> content b' = rest)"
  using read_be_word[OF assms]
  by (auto simp: readInt64_def peekInt64_def retrieveInt64_def returns_iff)

lemma readInt32_be:
  assumes "buffer_inv b" "content b = le_bytes 4 (bswap 4 x) @ rest"
  shows "returns (readInt32 b) (\<lambda>(y, b'). y = x \<and> buffer_inv b' \<and> content b' = rest)"
  using read_be_word[OF assms]
  by (auto simp: readInt32_def peekInt32_def retrieveInt32_def returns_iff)

lemma readInt16_be:
  assumes "buffer_inv b" "content b = le_bytes 2 (bswap 2 x) @ rest"
  shows "returns (readInt16 b) (\<lambda>(y, b'). y = x \<and> buffer_inv b' \<and> content b' = rest)"
  using read_be_word[OF assms]
  by (auto simp: readInt16_def peekInt16_def retrieveInt16_def returns_iff)

lemma readInt8_be:
  assumes "buffer_inv b" "content b = le_bytes 1 x @ rest"
  shows "returns (readInt8 b) (\<lambda>(y, b'). y = x \<and> buffer_inv b' \<and> content b' = rest)"
proof -
  have "le_word (le_bytes 1 x) = x" by (rule le_word_le_bytes) simp
  then show ?thesis
    using assms buf.dequeue_ok[OF assms(1), of 1]
    by (auto simp: readInt8_def peekInt8_def retrieveInt8_def returns_iff readableBytes_content
        content_window)
qed

section \<open>Reading from a descriptor\<close>

lemma readFd_capacity_eq:
  "buffer_inv b \<Longrightarrow> readFd_capacity b =
    (if writableBytes b < extrabuf_size then writableBytes b + extrabuf_size else writableBytes b)"
  by (simp add: readFd_capacity_def Let_def)

lemma readFd_data:
  assumes inv: "buffer_inv b" and cap: "length data \<le> readFd_capacity b"
    and room: "has_room b (length data)"
  shows "returns (readFd (Inr data) b)
    (\<lambda>(n, err, b'). n = int (length data) \<and> err = None \<and> buffer_inv b' \<and> content b' = content b @ data)"
proof (cases "length data \<le> writableBytes b")
  case True
  note w = vec_write_end[OF inv True]
  show ?thesis using True w cap by (simp add: readFd_def)
next
  case False
  let ?w = "writableBytes b"
  have tl: "length (take ?w data) = ?w" using False by simp
  note w = vec_write_end[OF inv, of "take ?w data", unfolded tl, OF order_refl]
  let ?b1 = "b\<lparr>buffer := blit (take ?w data) (writerIndex b) (buffer b), writerIndex := writerIndex b + ?w\<rparr>"
  have full: "writerIndex b + ?w = length (buffer ?b1)"
    using w(1) buffer_invD[OF inv] by (simp add: buffer_simps inv vec_write_def split: if_splits)
  have "has_room ?b1 (length (drop ?w data))"
    using room False by (simp add: has_room_def)
  then have "returns (Buffer_append (drop ?w data) ?b1)
      (\<lambda>b'. buffer_inv b' \<and> content b' = content ?b1 @ drop ?w data)"
    using w(2) by (rule buf.enqueue_room[rotated])
  moreover have "content ?b1 @ drop ?w data = content b @ data" using w(3) by simp
  ultimately show ?thesis
    using False w(1) cap full by (auto simp: readFd_def returns_iff)
qed

text \<open>Without a bound on the room, the only fault is that the vector cannot grow.\<close>

lemma readFd_result:
  assumes inv: "buffer_inv b" and cap: "length data \<le> readFd_capacity b"
  shows "result_in {LengthError} (readFd (Inr data) b)
    (\<lambda>(n, err, b'). n = int (length data) \<and> err = None \<and> buffer_inv b' \<and> content b' = content b @ data)"
proof (cases "length data \<le> writableBytes b")
  case True
  note w = vec_write_end[OF inv True]
  show ?thesis using True w cap by (simp add: readFd_def)
next
  case False
  let ?w = "writableBytes b"
  have tl: "length (take ?w data) = ?w" using False by simp
  note w = vec_write_end[OF inv, of "take ?w data", unfolded tl, OF order_refl]
  let ?b1 = "b\<lparr>buffer := blit (take ?w data) (writerIndex b) (buffer b), writerIndex := writerIndex b + ?w\<rparr>"
  have full: "writerIndex b + ?w = length (buffer ?b1)"
    using w(1) buffer_invD[OF inv] by (simp add: buffer_simps inv vec_write_def split: if_splits)
  have len: "length (drop ?w data) \<le> max_size"
    using cap False by (simp add: readFd_capacity_def extrabuf_size_def max_size_def Let_def split: if_splits)
  have "result_in {LengthError} (Buffer_append (drop ?w data) ?b1)
      (\<lambda>b'. buffer_inv b' \<and> content b' = content ?b1 @ drop ?w data)"
    using buf.enqueue_Inr[OF w(2) len] buf.enqueue_Inl[OF w(2) len]
    by (cases "Buffer_append (drop ?w data) ?b1") auto
  moreover have "content ?b1 @ drop ?w data = content b @ data" using w(3) by simp
  ultimately show ?thesis
    using False w(1) cap full by (cases "Buffer_append (drop ?w data) ?b1") (auto simp: readFd_def)
qed

section \<open>Size of the vector\<close>

lemma ensureWritableBytes_size:
  assumes inv: "buffer_inv b" and len: "len \<le> max_size" and b': "ensureWritableBytes len b = Inr b'"
  shows "length (buffer b') \<le> max (length (buffer b)) (length (content b) + 2 * len + kCheapPrepend)"
proof (cases "writableBytes b < len")
  case True
  then have mk: "makeSpace len b = Inr b'"
    using b' by (auto simp: ensureWritableBytes_def rbind_eq_Inr)
  note d = buffer_invD[OF inv]
  show ?thesis
  proof (cases "writableBytes b + prependableBytes b < len + kCheapPrepend")
    case grow: True
    then have "b' = b\<lparr>buffer := buffer b @ replicate (writerIndex b + len - length (buffer b)) 0\<rparr>"
      using mk makeSpace_eq[OF inv True len] by (auto split: if_splits)
    then have "length (buffer b') = writerIndex b + len"
      using True d by (simp add: buffer_simps inv)
    then show ?thesis
      using grow d by (simp add: length_content inv prependableBytes_def)
  next
    case False
    then have "length (buffer b') = length (blit (content b) kCheapPrepend (buffer b))"
      using mk makeSpace_eq[OF inv True len] by auto
    moreover have "kCheapPrepend + length (content b) \<le> length (buffer b)"
      using False True d by (simp add: buffer_simps inv prependableBytes_def)
    ultimately show ?thesis by simp
  qed
next
  case False
  then show ?thesis using b' by (simp add: ensureWritableBytes_def)
qed

lemma Buffer_append_size:
  assumes inv: "buffer_inv b" and len: "length data \<le> max_size" and b': "Buffer_append data b = Inr b'"
  shows "length (buffer b') \<le> max (length (buffer b)) (length (content b) + 2 * length data + kCheapPrepend)"
proof -
  obtain b1 where b1: "ensureWritableBytes (length data) b = Inr b1"
    using b' by (auto simp: Buffer_append_def rbind_eq_Inr)
  have "length (buffer b') = length (buffer b1)"
    using b' b1 by (auto simp: Buffer_append_def rbind_eq_Inr vec_write_def hasWritten_def split: if_splits)
  then show ?thesis using ensureWritableBytes_size[OF inv len b1] by simp
qed

section \<open>Properties\<close>

text \<open>
  C1. Whatever sequence of appends and retrieves a client runs, if no operation faults the
  buffer holds exactly the bytes it held before followed by everything appended, less the
  prefix retrieved: no byte is lost, duplicated or reordered by the in-place compaction and
  the growth of the vector.
\<close>

theorem buffer_fifo:
  assumes "buffer_inv b"
    and "\<forall>xs. Enqueue xs \<in> set ops \<longrightarrow> length xs \<le> max_size"
    and "rfold (queue_step Buffer_append retrieve) ops b = Inr b'"
  shows "buffer_inv b' \<and> content b' = drop (removed ops) (content b @ entered ops)"
  using buf.run_fifo[OF assms(1) _ assms(3)] assms(2) by blast

definition sample_buffer :: Buffer where
  "sample_buffer = \<lparr>buffer = [0, 0, 0, 0, 0, 0, 0, 0, 0, 0, 0, 0], readerIndex = 8, writerIndex = 8\<rparr>"

lemma sample_buffer_inv: "buffer_inv sample_buffer"
  by (simp add: sample_buffer_def buffer_inv_def kCheapPrepend_def max_size_def)

theorem buffer_fifo_witness:
  "\<exists>b'. rfold (queue_step Buffer_append retrieve)
      [Enqueue [1, 2, 3], Dequeue 2, Enqueue [4, 5, 6]] sample_buffer = Inr b'
    \<and> content b' = [3, 4, 5, 6]"
proof -
  obtain b' where b': "rfold (queue_step Buffer_append retrieve)
      [Enqueue [1, 2, 3], Dequeue 2, Enqueue [4, 5, 6]] sample_buffer = Inr b'"
    by (cases "rfold (queue_step Buffer_append retrieve)
      [Enqueue [1, 2, 3], Dequeue 2, Enqueue [4, 5, 6]] sample_buffer")
      (simp_all add: sample_buffer_def queue_step_def Buffer_append_def ensureWritableBytes_def
        writableBytes_def size_sub_def SIZE_T_def vec_write_def beginWrite_def blit_def
        hasWritten_def size_add_def retrieve_def readableBytes_def makeSpace_def
        prependableBytes_def kCheapPrepend_def vec_resize_def max_size_def Let_def)
  have "content b' = [3, 4, 5, 6]"
    using buffer_fifo[OF sample_buffer_inv _ b'] by (auto simp: content_def sample_buffer_def max_size_def)
  then show ?thesis using b' by blast
qed

text \<open>
  \<open>append\<close> on a well-formed buffer either returns a well-formed buffer with the data at
  the end of the content and a vector no larger than before or than content, twice the data
  and the cheap prepend area together, or it ends in the \<open>std::length_error\<close> of a vector
  that may not grow further. None of the assertions of \<open>append\<close>, \<open>ensureWritableBytes\<close>,
  \<open>makeSpace\<close> and \<open>hasWritten\<close> can fail, and no write leaves the vector.
\<close>

theorem append_total:
  assumes "buffer_inv b" and "length data \<le> max_size"
  shows "(\<exists>b'. Buffer_append data b = Inr b' \<and> buffer_inv b' \<and> content b' = content b @ data \<and>
            length (buffer b') \<le> max (length (buffer b)) (length (content b) + 2 * length data + kCheapPrepend))
       \<or> (Buffer_append data b = Inl LengthError \<and> max_size < writerIndex b + length data)"
  using Buffer_append_Inr[OF assms] Buffer_append_Inl[OF assms] Buffer_append_size[OF assms]
  by (cases "Buffer_append data b") (auto simp: has_room_def)

theorem append_total_witness:
  "(\<exists>b'. Buffer_append [7, 8, 9, 10, 11] sample_buffer = Inr b' \<and> buffer_inv b' \<and>
      content b' = [7, 8, 9, 10, 11] \<and> length (buffer b') \<le> 18)"
  using append_total[OF sample_buffer_inv, of "[7, 8, 9, 10, 11]"]
  by (auto simp: sample_buffer_def content_def max_size_def kCheapPrepend_def)



text \<open>
  C24. \<open>readFd\<close> puts what \<open>readv\<close> delivered behind the content, whether it fits into the tail
  of the vector or spills into the array on the stack, returns the number of bytes and
  leaves errno alone; a failing \<open>readv\<close> returns -1 with the errno and changes nothing; and
  where the stack array is used one call reads at most 128 KiB - 1 bytes, as the comment in
  the code says.
\<close>

theorem readFd_correct:
  assumes "buffer_inv b"
  shows "readFd (Inl err) b = Inr (-1, Some err, b)
    \<and> (length data \<le> readFd_capacity b \<and> writerIndex b + length data \<le> max_size \<longrightarrow>
         returns (readFd (Inr data) b) (\<lambda>(n, e, b'). n = int (length data) \<and> e = None \<and>
           buffer_inv b' \<and> content b' = content b @ data))
    \<and> (writableBytes b < extrabuf_size \<longrightarrow> readFd_capacity b \<le> 128 * 1024 - 1)
    \<and> (extrabuf_size \<le> writableBytes b \<longrightarrow> readFd_capacity b = writableBytes b)"
  using assms readFd_data[of b data]
  by (simp add: readFd_def[of "Inl err"] has_room_def readFd_capacity_eq extrabuf_size_def)

theorem readFd_correct_witness:
  "returns (readFd (Inr [1, 2, 3, 4, 5, 6]) sample_buffer)
     (\<lambda>(n, e, b'). n = 6 \<and> e = None \<and> buffer_inv b' \<and> content b' = [1, 2, 3, 4, 5, 6])"
proof -
  have c: "content sample_buffer = []" by (simp add: sample_buffer_def content_def)
  have w: "writableBytes sample_buffer = 4"
    by (simp add: writableBytes_eq sample_buffer_inv) (simp add: sample_buffer_def)
  have "length [1, 2, 3, 4, 5, 6 :: byte] \<le> readFd_capacity sample_buffer"
    "writerIndex sample_buffer + length [1, 2, 3, 4, 5, 6 :: byte] \<le> max_size"
    by (simp_all add: w readFd_capacity_def extrabuf_size_def) (simp add: sample_buffer_def max_size_def)
  then show ?thesis
    using readFd_correct[OF sample_buffer_inv, of 0 "[1, 2, 3, 4, 5, 6]"] by (simp add: c)
qed

text \<open>
  C27. Line framing: where \<open>findCRLF\<close> returns a pointer, the content up to it is a line
  without CR LF in it, CR LF follows, and \<open>retrieveUntil\<close> to it leaves exactly what
  follows the line; where it returns the null pointer, no CR LF is in the content.
\<close>

theorem findCRLF_line:
  assumes "buffer_inv b"
  shows "case findCRLF b of
      Some p \<Rightarrow> (\<exists>line rest. content b = line @ kCRLF @ rest \<and> p = peek b + length line \<and>
        (\<forall>i < length line. take 2 (drop i (content b)) \<noteq> kCRLF) \<and>
        returns (retrieveUntil p b) (\<lambda>b'. buffer_inv b' \<and> content b' = kCRLF @ rest))
    | None \<Rightarrow> (\<forall>i. take 2 (drop i (content b)) \<noteq> kCRLF)"
proof -
  let ?i = "search_at kCRLF (content b)"
  note d = buffer_invD[OF assms]
  have find: "findCRLF b = (if ?i = length (content b) then None else Some (peek b + ?i))"
    using length_content[OF assms] d
    unfolding findCRLF_def span_content Let_def by (auto simp: peek_def beginWrite_def)
  have kl: "length kCRLF = 2" "kCRLF \<noteq> []" by (simp_all add: kCRLF_def)
  have "\<exists>line rest. content b = line @ kCRLF @ rest \<and> p = peek b + length line \<and>
      (\<forall>i < length line. take 2 (drop i (content b)) \<noteq> kCRLF) \<and>
      returns (retrieveUntil p b) (\<lambda>b'. buffer_inv b' \<and> content b' = kCRLF @ rest)"
    if "findCRLF b = Some p" for p
  proof (intro exI conjI allI impI)
    have lt: "?i < length (content b)" and p: "p = peek b + ?i"
      using that find search_at_le[of kCRLF "content b"] by (auto split: if_splits)
    have "take 2 (drop ?i (content b)) = kCRLF"
      using search_at_found[OF kl(2) lt] kl(1) by simp
    then have tail: "drop ?i (content b) = kCRLF @ drop (?i + 2) (content b)"
      by (metis append_take_drop_id drop_drop add.commute)
    then show "content b = take ?i (content b) @ kCRLF @ drop (?i + 2) (content b)"
      by (metis append_take_drop_id)
    show "p = peek b + length (take ?i (content b))" using lt p by simp
    show "take 2 (drop i (content b)) \<noteq> kCRLF" if "i < length (take ?i (content b))" for i
      using that search_at_first[of i kCRLF "content b"] kl(1) by simp
    have "p \<le> beginWrite b"
      using lt p length_content[OF assms] d by (simp add: peek_def beginWrite_def)
    then show "returns (retrieveUntil p b)
        (\<lambda>b'. buffer_inv b' \<and> content b' = kCRLF @ drop (?i + 2) (content b))"
      using buf.dequeue_ok[OF assms, of ?i] lt tail p by (simp add: retrieveUntil_def)
  qed
  moreover have "\<forall>i. take 2 (drop i (content b)) \<noteq> kCRLF" if "findCRLF b = None"
  proof
    fix i
    have "?i = length (content b)" using that find by (auto split: if_splits)
    then show "take 2 (drop i (content b)) \<noteq> kCRLF"
      using search_at_first[of i kCRLF "content b"] kl by (cases "i < length (content b)") auto
  qed
  ultimately show ?thesis by (simp split: option.split)
qed

definition sample_line :: Buffer where
  "sample_line = \<lparr>buffer = [0, 0, 0, 0, 0, 0, 0, 0, 71, 13, 13, 10, 72], readerIndex = 8, writerIndex = 13\<rparr>"

theorem findCRLF_line_witness:
  "\<exists>line rest. content sample_line = line @ kCRLF @ rest \<and> 10 = peek sample_line + length line \<and>
     (\<forall>i < length line. take 2 (drop i (content sample_line)) \<noteq> kCRLF) \<and>
     returns (retrieveUntil 10 sample_line) (\<lambda>b'. buffer_inv b' \<and> content b' = kCRLF @ rest)"
proof -
  have inv: "buffer_inv sample_line"
    by (simp add: sample_line_def buffer_inv_def kCheapPrepend_def max_size_def)
  have "findCRLF sample_line = Some 10"
    by (simp add: sample_line_def findCRLF_def span_def peek_def beginWrite_def kCRLF_def)
  then show ?thesis using findCRLF_line[OF inv] by simp
qed



end
