(* ===== verification/Buffer_Safety.thy ===== *)
theory Buffer_Safety
  imports Buffer
begin

text \<open>
  Memory safety of \<open>Buffer\<close>: every operation of its interface, in any order and with any
  arguments, keeps the indices within the vector and never touches memory outside it. A call
  that would is stopped by an assertion of the class.
\<close>

section \<open>The interface\<close>

text \<open>
  The operations that change or read the buffer. \<open>ReadFd\<close> carries what \<open>readv\<close> does for a given
  capacity.
\<close>

datatype buffer_op =
    Append "byte list" | Prepend "byte list" | EnsureWritable nat | HasWritten nat
  | Retrieve nat | RetrieveUntil nat | RetrieveAll | RetrieveAsString nat | RetrieveAllAsString
  | AppendInt64 "64 word" | AppendInt32 "32 word" | AppendInt16 "16 word" | AppendInt8 "8 word"
  | PrependInt64 "64 word" | PrependInt32 "32 word" | PrependInt16 "16 word" | PrependInt8 "8 word"
  | ReadInt64 | ReadInt32 | ReadInt16 | ReadInt8
  | FindCRLF nat | FindEOL nat | ReadFd "nat \<Rightarrow> int + byte list"

fun run_buffer_op :: "buffer_op \<Rightarrow> Buffer \<Rightarrow> Buffer result" where
  "run_buffer_op (Append data) b = Buffer_append data b"
| "run_buffer_op (Prepend data) b = prepend data b"
| "run_buffer_op (EnsureWritable n) b = ensureWritableBytes n b"
| "run_buffer_op (HasWritten n) b = hasWritten n b"
| "run_buffer_op (Retrieve n) b = retrieve n b"
| "run_buffer_op (RetrieveUntil i) b = retrieveUntil i b"
| "run_buffer_op RetrieveAll b = Inr (retrieveAll b)"
| "run_buffer_op (RetrieveAsString n) b = rbind (retrieveAsString n b) (\<lambda>(_, b'). Inr b')"
| "run_buffer_op RetrieveAllAsString b = rbind (retrieveAllAsString b) (\<lambda>(_, b'). Inr b')"
| "run_buffer_op (AppendInt64 x) b = appendInt64 x b"
| "run_buffer_op (AppendInt32 x) b = appendInt32 x b"
| "run_buffer_op (AppendInt16 x) b = appendInt16 x b"
| "run_buffer_op (AppendInt8 x) b = appendInt8 x b"
| "run_buffer_op (PrependInt64 x) b = prependInt64 x b"
| "run_buffer_op (PrependInt32 x) b = prependInt32 x b"
| "run_buffer_op (PrependInt16 x) b = prependInt16 x b"
| "run_buffer_op (PrependInt8 x) b = prependInt8 x b"
| "run_buffer_op ReadInt64 b = rbind (readInt64 b) (\<lambda>(_, b'). Inr b')"
| "run_buffer_op ReadInt32 b = rbind (readInt32 b) (\<lambda>(_, b'). Inr b')"
| "run_buffer_op ReadInt16 b = rbind (readInt16 b) (\<lambda>(_, b'). Inr b')"
| "run_buffer_op ReadInt8 b = rbind (readInt8 b) (\<lambda>(_, b'). Inr b')"
| "run_buffer_op (FindCRLF i) b = rbind (findCRLF_from i b) (\<lambda>_. Inr b)"
| "run_buffer_op (FindEOL i) b = rbind (findEOL_from i b) (\<lambda>_. Inr b)"
| "run_buffer_op (ReadFd rv) b = rbind (readFd (rv (readFd_capacity b)) b) (\<lambda>(_, _, b'). Inr b')"

text \<open>
  What is asked of the arguments: no object is larger than PTRDIFF\_MAX, no request to
  \<open>ensureWritableBytes\<close> either, and \<open>readv\<close> delivers no more than it was asked for.
\<close>

fun op_sized :: "buffer_op \<Rightarrow> bool" where
  "op_sized (Append data) = (length data \<le> max_size)"
| "op_sized (EnsureWritable n) = (n \<le> max_size)"
| "op_sized (ReadFd rv) = (\<forall>n. case rv n of Inl _ \<Rightarrow> True | Inr data \<Rightarrow> length data \<le> n)"
| "op_sized _ = True"

section \<open>Every operation is safe\<close>

abbreviation safely :: "Buffer result \<Rightarrow> bool" where
  "safely r \<equiv> result_in {LengthError, AssertFailed} r buffer_inv"

lemma append_safe: "buffer_inv b \<Longrightarrow> length data \<le> max_size \<Longrightarrow> safely (Buffer_append data b)"
  using Buffer_append_Inr[of b data] Buffer_append_Inl[of b data] by (cases "Buffer_append data b") auto

lemma ensureWritableBytes_safe: "buffer_inv b \<Longrightarrow> n \<le> max_size \<Longrightarrow> safely (ensureWritableBytes n b)"
  using ensureWritableBytes_Inr[of b n] ensureWritableBytes_Inl[of b n] by (cases "ensureWritableBytes n b") auto

lemma prepend_safe: "buffer_inv b \<Longrightarrow> safely (prepend data b)"
  using prepend_ok[of b data] by (cases "length data \<le> prependableBytes b") (auto simp: returns_iff prepend_def)

lemma hasWritten_safe:
  assumes "buffer_inv b"
  shows "safely (hasWritten n b)"
proof (cases "n \<le> writableBytes b")
  case True
  then have "writerIndex b + n \<le> length (buffer b)" using buffer_invD[OF assms] by (simp add: writableBytes_eq assms)
  then show ?thesis using hasWritten_ok[OF assms True] assms by (simp add: buffer_inv_def)
qed (simp add: hasWritten_def)

lemma retrieve_safe: "buffer_inv b \<Longrightarrow> safely (retrieve n b)"
  using retrieve_ok[of b n] retrieve_too_much[of b n] by (cases "n \<le> length (content b)") (auto simp: returns_iff)

lemma retrieveAsString_safe: "buffer_inv b \<Longrightarrow> safely (rbind (retrieveAsString n b) (\<lambda>(_, b'). Inr b'))"
  using retrieveAsString_ok[of b n]
  by (cases "n \<le> length (content b)") (auto simp: returns_iff retrieveAsString_def readableBytes_content)

text \<open>The four reads: an assertion guards the access, and the bytes read are in the content.\<close>

lemma read_safe:
  assumes "buffer_inv b"
  shows "safely (rbind (rbind (ensure (n \<le> readableBytes b) AssertFailed) (\<lambda>_.
     rbind (vec_read (peek b) n (buffer b)) (\<lambda>bs. Inr (f bs)))) (\<lambda>x. rbind (retrieve n b) (\<lambda>b'. Inr b')))"
  using retrieve_safe[OF assms, of n] content_window[of b n] assms
  by (cases "n \<le> readableBytes b"; cases "retrieve n b") (auto simp: readableBytes_content)

lemma readInt_safe:
  assumes "buffer_inv b"
  shows "safely (rbind (readInt64 b) (\<lambda>(_, b'). Inr b'))" "safely (rbind (readInt32 b) (\<lambda>(_, b'). Inr b'))"
    "safely (rbind (readInt16 b) (\<lambda>(_, b'). Inr b'))" "safely (rbind (readInt8 b) (\<lambda>(_, b'). Inr b'))"
  using read_safe[OF assms, of 8 "\<lambda>bs. bswap 8 (le_word bs) :: 64 word"] read_safe[OF assms, of 4 "\<lambda>bs. bswap 4 (le_word bs) :: 32 word"]
    read_safe[OF assms, of 2 "\<lambda>bs. bswap 2 (le_word bs) :: 16 word"] read_safe[OF assms, of 1 "le_word :: byte list \<Rightarrow> 8 word"]
  by (simp_all add: readInt64_def readInt32_def readInt16_def readInt8_def peekInt64_def peekInt32_def peekInt16_def peekInt8_def
      retrieveInt64_def retrieveInt32_def retrieveInt16_def retrieveInt8_def rbind_assoc)

lemma readFd_safe:
  assumes "buffer_inv b" and "case rv of Inl _ \<Rightarrow> True | Inr data \<Rightarrow> length data \<le> readFd_capacity b"
  shows "safely (rbind (readFd rv b) (\<lambda>(_, _, b'). Inr b'))"
proof (cases rv)
  case (Inl e)
  then show ?thesis using assms(1) by (simp add: readFd_def)
next
  case (Inr data)
  then show ?thesis
    using readFd_result[OF assms(1), of data] assms(2) by (cases "readFd (Inr data) b") auto
qed

lemma run_buffer_op_safe:
  assumes "buffer_inv b" "op_sized op"
  shows "safely (run_buffer_op op b)"
proof (cases op)
  case (ReadFd rv)
  then show ?thesis using readFd_safe[OF assms(1), of "rv (readFd_capacity b)"] assms(2) by simp
qed (use assms in \<open>simp_all add: append_safe prepend_safe ensureWritableBytes_safe hasWritten_safe retrieve_safe
      retrieveAsString_safe readInt_safe retrieveAll_ok retrieveAllAsString_def appendInt64_def appendInt32_def appendInt16_def
      appendInt8_def prependInt64_def prependInt32_def prependInt16_def prependInt8_def max_size_def retrieveUntil_def
      findCRLF_from_def findEOL_from_def ensure_def Let_def\<close>)

section \<open>Every sequence is safe\<close>

lemma run_buffer_ops_safe: "buffer_inv b \<Longrightarrow> list_all op_sized ops \<Longrightarrow> safely (rfold run_buffer_op ops b)"
proof (induction ops arbitrary: b)
  case (Cons op ops)
  have "safely (run_buffer_op op b)" by (rule run_buffer_op_safe) (use Cons.prems in auto)
  then show ?case unfolding rfold.simps by (rule result_in_rbind) (use Cons in auto)
qed simp



end
