(* ===== verification/Decimal.thy ===== *)
theory Decimal
  imports Prelude
begin

text \<open>
  Decimal numbers as text, as the standard library prints and reads them: \<open>std::to_string\<close>, the digits
  \<open>std::stoll\<close> and a reader of time stamps take, fields padded to a width (\<open>std::setw\<close>). Port numbers, the
  numbers of the AddOne programs and the log lines use them.
\<close>

section \<open>Printing and reading\<close>

definition digit_char :: "nat \<Rightarrow> char" where
  "digit_char d = char_of (48 + d)"

text \<open>\<open>std::to_string\<close> on an unsigned value, and on a signed one.\<close>

fun to_string :: "nat \<Rightarrow> string" where
  "to_string n = (if n < 10 then [digit_char n] else to_string (n div 10) @ [digit_char (n mod 10)])"

declare to_string.simps [simp del]

definition long_string :: "int \<Rightarrow> string" where
  "long_string n = (if n < 0 then CHR ''-'' # to_string (nat (- n)) else to_string (nat n))"

definition is_digit :: "char \<Rightarrow> bool" where
  "is_digit c \<longleftrightarrow> 48 \<le> (of_char c :: nat) \<and> (of_char c :: nat) \<le> 57"

definition digits_value :: "string \<Rightarrow> nat" where
  "digits_value ds = foldl (\<lambda>v c. 10 * v + (of_char c - 48)) 0 ds"

text \<open>\<open>std::setfill(c) << std::setw(n)\<close>.\<close>

definition padded :: "char \<Rightarrow> nat \<Rightarrow> string \<Rightarrow> string" where
  "padded c n s = replicate (n - length s) c @ s"

section \<open>Lemmas\<close>

lemma digit_char_digit: "d < 10 \<Longrightarrow> is_digit (digit_char d) \<and> of_char (digit_char d) = (48 + d :: nat)"
  by (simp add: is_digit_def digit_char_def)

lemma to_string_digits: "list_all is_digit (to_string n)"
proof (induction n rule: to_string.induct)
  case (1 n)
  then show ?case using digit_char_digit[of n] digit_char_digit[of "n mod 10"] by (subst to_string.simps) auto
qed

lemma digits_value_to_string: "digits_value (to_string n) = n"
proof (induction n rule: to_string.induct)
  case (1 n)
  then show ?case using digit_char_digit[of n] digit_char_digit[of "n mod 10"]
    by (subst to_string.simps) (auto simp: digits_value_def)
qed

lemma to_string_nonempty: "to_string n \<noteq> []"
  by (subst to_string.simps) simp

lemma to_string_inj: "to_string a = to_string b \<Longrightarrow> a = b"
  by (metis digits_value_to_string)

lemma colon_notin_to_string: "CHR '':'' \<notin> set (to_string n)"
  using to_string_digits[of n] by (auto simp: list_all_iff is_digit_def)

lemma length_to_string: "n < 10 ^ Suc k \<Longrightarrow> length (to_string n) \<le> Suc k"
proof (induction k arbitrary: n)
  case (Suc k)
  have "n div 10 < 10 ^ Suc k" using Suc.prems by (simp add: less_mult_imp_div_less mult.commute)
  from Suc.IH[OF this] show ?case by (subst to_string.simps) simp
qed (simp add: to_string.simps)

lemma length_padded: "n < 10 ^ Suc k \<Longrightarrow> length (padded c (Suc k) (to_string n)) = Suc k"
  using length_to_string[of n k] by (simp add: padded_def)

lemma digits_value_zeros: "digits_value (replicate k CHR ''0'' @ s) = digits_value s"
  by (induction k) (simp_all add: digits_value_def)

lemma digits_value_padded: "digits_value (padded CHR ''0'' k (to_string n)) = n"
  by (simp add: padded_def digits_value_zeros digits_value_to_string)

end
