(* ===== verification/InetAddress.thy ===== *)
theory InetAddress
  imports Byte_Order Decimal
begin

text \<open>
  The class \<open>InetAddress\<close> (\<open>InetAddress.hpp\<close>, \<open>InetAddress.cc\<close>): an IPv4 socket address
  kept in network byte order. The C library's \<open>inet_pton\<close> and \<open>inet_ntop\<close> are parameters
  (\<open>pton\<close> is \<open>None\<close> where the call does not return 1, \<open>ntop\<close> is \<open>None\<close> where it returns
  the null pointer).
\<close>

section \<open>Byte order of the network\<close>

definition htons :: "16 word \<Rightarrow> 16 word" where "htons = bswap 2"
definition ntohs :: "16 word \<Rightarrow> 16 word" where "ntohs = bswap 2"
definition htonl :: "32 word \<Rightarrow> 32 word" where "htonl = bswap 4"

section \<open>The class\<close>

record sockaddr_in =
  sin_family :: "16 word"
  sin_port :: "16 word"
  sin_addr :: "32 word"

record InetAddress =
  addr :: sockaddr_in

definition AF_INET :: "16 word" where "AF_INET = 2"
definition INADDR_ANY :: "32 word" where "INADDR_ANY = 0"
definition INADDR_LOOPBACK :: "32 word" where "INADDR_LOOPBACK = 0x7F000001"

definition InetAddress_new :: "16 word \<Rightarrow> bool \<Rightarrow> InetAddress" where
  "InetAddress_new port loopback =
     (let ip = (if loopback then INADDR_LOOPBACK else INADDR_ANY)
      in \<lparr>addr = \<lparr>sin_family = AF_INET, sin_port = htons port, sin_addr = htonl ip\<rparr>\<rparr>)"

definition InetAddress_new_ip ::
  "(string \<Rightarrow> 32 word option) \<Rightarrow> string \<Rightarrow> 16 word \<Rightarrow> InetAddress result"
where
  "InetAddress_new_ip pton ip port =
     (case pton ip of
        None \<Rightarrow> Inl Aborted
      | Some a \<Rightarrow> Inr \<lparr>addr = \<lparr>sin_family = AF_INET, sin_port = htons port, sin_addr = a\<rparr>\<rparr>)"

definition setAddress :: "sockaddr_in \<Rightarrow> InetAddress \<Rightarrow> InetAddress" where
  "setAddress a i = i\<lparr>addr := a\<rparr>"

definition getSockaddr :: "InetAddress \<Rightarrow> sockaddr_in" where
  "getSockaddr i = addr i"

definition getSocklen :: "InetAddress \<Rightarrow> nat" where
  "getSocklen i = 16"

definition toIp :: "(32 word \<Rightarrow> string option) \<Rightarrow> InetAddress \<Rightarrow> string" where
  "toIp ntop i = (case ntop (sin_addr (addr i)) of None \<Rightarrow> [] | Some s \<Rightarrow> s)"

definition toPort :: "InetAddress \<Rightarrow> 16 word" where
  "toPort i = ntohs (sin_port (addr i))"

definition toIpPort :: "(32 word \<Rightarrow> string option) \<Rightarrow> InetAddress \<Rightarrow> string" where
  "toIpPort ntop i = (toIp ntop i @ [CHR '':'']) @ to_string (unat (toPort i))"

section \<open>Lemmas\<close>

lemma ntohs_htons [simp]: "ntohs (htons p) = p"
  unfolding ntohs_def htons_def by (rule bswap_bswap) simp

lemma htons_ntohs [simp]: "htons (ntohs p) = p"
  unfolding ntohs_def htons_def by (rule bswap_bswap) simp

lemma split_first_sep:
  "ys @ c # xs = ys' @ c # xs' \<Longrightarrow> c \<notin> set ys \<Longrightarrow> c \<notin> set ys' \<Longrightarrow> ys = ys' \<and> xs = xs'"
proof (induction ys arbitrary: ys')
  case Nil
  then show ?case by (cases ys') auto
next
  case (Cons y ys)
  then show ?case by (cases ys') auto
qed

lemma split_last_colon:
  assumes "xs @ c # ys = xs' @ c # ys'" "c \<notin> set ys" "c \<notin> set ys'"
  shows "xs = xs' \<and> ys = ys'"
proof -
  have "rev ys @ c # rev xs = rev ys' @ c # rev xs'"
    using arg_cong[OF assms(1), of rev] by simp
  then show ?thesis using split_first_sep[of "rev ys" c "rev xs" "rev ys'" "rev xs'"] assms(2,3) by simp
qed

section \<open>Properties\<close>

text \<open>
  C29. An address remembers its port: \<open>toPort\<close> undoes the byte swap of the constructors, and
  the loopback constructor stores 127.0.0.1 in network order. The printed name determines
  the address: for an \<open>inet_ntop\<close> that renders every address, and different addresses
  differently, two socket addresses with the same \<open>toIpPort\<close> have the same IP and port.
\<close>

theorem address_name_injective:
  assumes total: "\<forall>a. ntop a \<noteq> None" and inj: "\<forall>a b. ntop a = ntop b \<longrightarrow> a = b"
  shows "toPort (InetAddress_new port loopback) = port
    \<and> le_bytes 4 (sin_addr (addr (InetAddress_new port True))) = [127, 0, 0, 1]
    \<and> (toIpPort ntop i = toIpPort ntop j \<longrightarrow>
        sin_addr (addr i) = sin_addr (addr j) \<and> sin_port (addr i) = sin_port (addr j))"
proof -
  have port: "toPort (InetAddress_new port loopback) = port"
    by (simp add: toPort_def InetAddress_new_def Let_def)
  have "le_bytes 4 INADDR_LOOPBACK = [1, 0, 0, 127]"
    by (simp add: le_bytes_def INADDR_LOOPBACK_def upt_rec)
  then have loop: "le_bytes 4 (sin_addr (addr (InetAddress_new port True))) = [127, 0, 0, 1]"
    by (simp add: InetAddress_new_def htonl_def le_bytes_bswap Let_def)
  have "sin_addr (addr i) = sin_addr (addr j) \<and> sin_port (addr i) = sin_port (addr j)"
    if "toIpPort ntop i = toIpPort ntop j"
  proof -
    have eq: "toIp ntop i = toIp ntop j \<and> to_string (unat (toPort i)) = to_string (unat (toPort j))"
      using that colon_notin_to_string by (intro split_last_colon[where c = "CHR '':''"])
        (simp_all add: toIpPort_def)
    then have "ntop (sin_addr (addr i)) = ntop (sin_addr (addr j))"
      using total by (metis toIp_def option.case_eq_if option.expand)
    moreover have "toPort i = toPort j" using eq to_string_inj unsigned_word_eqI by blast
    ultimately show ?thesis using inj by (metis htons_ntohs toPort_def)
  qed
  then show ?thesis using port loop by blast
qed

text \<open>A rendering that satisfies the hypotheses: the decimal value of the address.\<close>

theorem address_name_injective_witness:
  "toPort (InetAddress_new 9877 True) = 9877
    \<and> le_bytes 4 (sin_addr (addr (InetAddress_new 9877 True))) = [127, 0, 0, 1]"
  using address_name_injective[of "\<lambda>a. Some (to_string (unat a))" 9877 True "InetAddress_new 1 True"
      "InetAddress_new 1 True"] to_string_inj unsigned_word_eqI by blast

end
