(* ===== verification/Loop_State.thy ===== *)
theory Loop_State
  imports InetAddress Buffer
begin

unbundle bit_operations_syntax

text \<open>
  The objects of one event loop and what they share: the system calls the library makes
  (parameters of the model), the \<open>std::function\<close> values it creates (\<open>Callbacks.hpp\<close>, with
  the lambdas and binds of the sources as constructors), and the records of \<open>Channel\<close>,
  \<open>EPollPoller\<close>, \<open>Timer\<close>, \<open>TimerQueue\<close> and \<open>EventLoop\<close>. Objects that are reached through
  pointers live in maps from addresses: a lookup that fails is a use after free.
\<close>

section \<open>System calls\<close>

text \<open>
  The operating system is not part of the repository. Each call is a field of the record
  \<open>os\<close>, a function of its arguments and of the kernel's state \<open>'k\<close>, which also stands for
  everything the outside world decides: what peers send, how much a socket takes, what time
  it is. A failing call is \<open>Inl\<close> with its errno, or \<open>False\<close> where only the failure matters.
\<close>

datatype epoll_op = EPOLL_CTL_ADD | EPOLL_CTL_MOD | EPOLL_CTL_DEL

record 'k os =
  sys_epoll_ctl :: "epoll_op \<Rightarrow> int \<Rightarrow> 32 word \<Rightarrow> nat \<Rightarrow> 'k \<Rightarrow> bool \<times> 'k"
  sys_epoll_wait :: "int \<Rightarrow> 'k \<Rightarrow> (int + (32 word \<times> nat) list) \<times> 'k"
  sys_read :: "int \<Rightarrow> nat \<Rightarrow> 'k \<Rightarrow> (int + byte list) \<times> 'k"
  sys_readv :: "int \<Rightarrow> nat \<Rightarrow> 'k \<Rightarrow> (int + byte list) \<times> 'k"
  sys_write :: "int \<Rightarrow> byte list \<Rightarrow> 'k \<Rightarrow> (int + nat) \<times> 'k"
  sys_timerfd_settime :: "int \<Rightarrow> int \<Rightarrow> int \<Rightarrow> 'k \<Rightarrow> bool \<times> 'k"
  sys_clock_now :: "'k \<Rightarrow> int \<times> 'k"
  sys_so_error :: "int \<Rightarrow> 'k \<Rightarrow> (int + int) \<times> 'k"
  sys_shutdown_wr :: "int \<Rightarrow> 'k \<Rightarrow> bool \<times> 'k"
  sys_close :: "int \<Rightarrow> 'k \<Rightarrow> bool \<times> 'k"
  sys_socket :: "'k \<Rightarrow> int \<times> 'k"
  sys_setsockopt :: "int \<Rightarrow> string \<Rightarrow> 'k \<Rightarrow> bool \<times> 'k"
  sys_bind :: "int \<Rightarrow> sockaddr_in \<Rightarrow> 'k \<Rightarrow> bool \<times> 'k"
  sys_listen :: "int \<Rightarrow> 'k \<Rightarrow> bool \<times> 'k"
  sys_accept4 :: "int \<Rightarrow> 'k \<Rightarrow> ((int \<times> sockaddr_in) + (int \<times> sockaddr_in)) \<times> 'k"
  sys_connect :: "int \<Rightarrow> sockaddr_in \<Rightarrow> 'k \<Rightarrow> (int + unit) \<times> 'k"
  sys_getsockname :: "int \<Rightarrow> 'k \<Rightarrow> (int \<times> sockaddr_in + sockaddr_in) \<times> 'k"

definition EPOLLIN :: "32 word" where "EPOLLIN = 0x001"
definition EPOLLPRI :: "32 word" where "EPOLLPRI = 0x002"
definition EPOLLOUT :: "32 word" where "EPOLLOUT = 0x004"
definition EPOLLERR :: "32 word" where "EPOLLERR = 0x008"
definition EPOLLHUP :: "32 word" where "EPOLLHUP = 0x010"
definition EPOLLRDHUP :: "32 word" where "EPOLLRDHUP = 0x2000"

definition EINTR :: int where "EINTR = 4"
definition EAGAIN :: int where "EAGAIN = 11"
definition EMFILE :: int where "EMFILE = 24"
definition EPIPE :: int where "EPIPE = 32"
definition ECONNABORTED :: int where "ECONNABORTED = 103"
definition ECONNRESET :: int where "ECONNRESET = 104"
definition EINPROGRESS :: int where "EINPROGRESS = 115"

section \<open>Function objects\<close>

text \<open>Callbacks that take a connection: the library's own, and the user's by number.\<close>

datatype conn_callback =
    DefaultConnectionCallback
  | DefaultMessageCallback
  | TcpServerSingle_closeConnection_cb
  | TcpClient_closeConnection_cb
  | UserConnCallback nat

text \<open>
  Values of type \<open>std::function<void()>\<close>. A connection is named by the address its
  \<open>shared_ptr\<close> or \<open>this\<close> pointer holds, a timer by its address.
\<close>

datatype closure =
    EventLoop_handleRead_fn
  | TimerQueue_handleRead_fn
  | TimerQueue_insert_fn int nat
  | TimerQueue_cancel_fn nat
  | TcpConnection_handleRead_fn nat
  | TcpConnection_handleWrite_fn nat
  | TcpConnection_handleClose_fn nat
  | TcpConnection_handleError_fn nat
  | TcpConnection_sendInLoop_fn nat "byte list"
  | TcpConnection_shutdownInLoop_fn nat
  | TcpConnection_forceCloseInLoop_fn nat
  | TcpConnection_stopRead_fn nat
  | TcpConnection_startRead_fn nat
  | WriteComplete_fn conn_callback nat
  | HighWaterMark_fn conn_callback nat nat
  | Acceptor_handleRead_fn
  | Connector_handleWrite_fn nat
  | TcpClient_retry_fn
  | TcpServer_startInLoop_fn
  | User_fn nat

section \<open>Objects\<close>

record Channel =
  pooling :: bool
  ch_fd :: int
  ch_tie :: "nat option"
  ch_tied :: bool
  ch_events :: "32 word"
  ch_revents :: "32 word"
  ch_handlingEvents :: bool
  ch_readCallback :: "closure option"
  ch_writeCallback :: "closure option"
  ch_closeCallback :: "closure option"
  ch_errorCallback :: "closure option"

record EPollPoller =
  ep_events_size :: nat
  epollfd :: int

record Timer =
  tm_callback :: "closure option"
  tm_when :: int
  tm_interval :: int
  tm_repeat :: bool
  tm_canceled :: bool

record TimerQueue =
  timerfd :: int
  timerChannel :: nat
  timers :: "(int \<times> nat) list"

record 'k EventLoop =
  tid :: nat
  quit :: bool
  doingPendingTasks :: bool
  poller :: EPollPoller
  activeChannels :: "nat list"
  wakeupfd :: int
  wakeupChannel :: nat
  pendingTasks :: "closure list"
  timerQueue :: TimerQueue
  channels :: "nat \<rightharpoonup> Channel"
  timer_heap :: "nat \<rightharpoonup> Timer"
  kernel :: 'k

section \<open>Access\<close>

text \<open>One system call; access to the object behind a pointer; the thread check.\<close>

definition sys :: "('k \<Rightarrow> 'r \<times> 'k) \<Rightarrow> ('k, 'z) EventLoop_scheme \<Rightarrow> 'r \<times> ('k, 'z) EventLoop_scheme"
where
  "sys call l = (let (r, k) = call (kernel l) in (r, l\<lparr>kernel := k\<rparr>))"

definition deref :: "(nat \<rightharpoonup> 'o) \<Rightarrow> nat \<Rightarrow> 'o result" where
  "deref heap p =
     (if p = 0 then Inl NullDeref
      else case heap p of None \<Rightarrow> Inl UseAfterFree | Some x \<Rightarrow> Inr x)"

definition put_channel :: "nat \<Rightarrow> Channel \<Rightarrow> ('k, 'z) EventLoop_scheme \<Rightarrow> ('k, 'z) EventLoop_scheme" where
  "put_channel c ch l = l\<lparr>channels := (channels l)(c \<mapsto> ch)\<rparr>"

definition isInLoopThread :: "nat \<Rightarrow> ('k, 'z) EventLoop_scheme \<Rightarrow> bool" where
  "isInLoopThread cur l \<longleftrightarrow> tid l = cur"

definition assertInLoopThread :: "nat \<Rightarrow> ('k, 'z) EventLoop_scheme \<Rightarrow> unit result" where
  "assertInLoopThread cur l = ensure (isInLoopThread cur l) AssertFailed"

definition assertNotInLoopThread :: "nat \<Rightarrow> ('k, 'z) EventLoop_scheme \<Rightarrow> unit result" where
  "assertNotInLoopThread cur l = ensure (\<not> isInLoopThread cur l) AssertFailed"

lemma deref_eq_Inr [simp, result_simps]: "deref h p = Inr x \<longleftrightarrow> p \<noteq> 0 \<and> h p = Some x"
  by (auto simp: deref_def split: option.splits)

lemma deref_Some [simp, result_simps]: "h p = Some x \<Longrightarrow> p \<noteq> 0 \<Longrightarrow> deref h p = Inr x"
  by simp

lemma deref_None [simp, result_simps]: "h p = None \<Longrightarrow> p \<noteq> 0 \<Longrightarrow> deref h p = Inl UseAfterFree"
  by (simp add: deref_def)

lemma deref_null [simp, result_simps]: "deref h 0 = Inl NullDeref"
  by (simp add: deref_def)

lemma put_channel_simps [simp]:
  "channels (put_channel c ch l) = (channels l)(c \<mapsto> ch)"
  "tid (put_channel c ch l) = tid l"
  "kernel (put_channel c ch l) = kernel l"
  "timer_heap (put_channel c ch l) = timer_heap l"
  "timerQueue (put_channel c ch l) = timerQueue l"
  "pendingTasks (put_channel c ch l) = pendingTasks l"
  "doingPendingTasks (put_channel c ch l) = doingPendingTasks l"
  "EventLoop.more (put_channel c ch l) = EventLoop.more l"
  by (simp_all add: put_channel_def)

lemma assertInLoopThread_eq [simp, result_simps]:
  "assertInLoopThread cur l = Inr u \<longleftrightarrow> tid l = cur"
  "assertInLoopThread cur l = Inl e \<longleftrightarrow> tid l \<noteq> cur \<and> e = AssertFailed"
  by (auto simp: assertInLoopThread_def isInLoopThread_def)

lemma assertInLoopThread_ok [simp, result_simps]:
  "tid l = cur \<Longrightarrow> assertInLoopThread cur l = Inr ()"
  by simp

lemma isInLoopThread_put_channel [simp]:
  "isInLoopThread cur (put_channel c ch l) = isInLoopThread cur l"
  "assertInLoopThread cur (put_channel c ch l) = assertInLoopThread cur l"
  by (simp_all add: isInLoopThread_def assertInLoopThread_def)

end
