(* ===== verification/Sample_Kernel.thy ===== *)
theory Sample_Kernel
  imports Loop_State
begin

text \<open>
  Documented behaviour of the system calls, as predicates on the parameter \<open>os\<close> that the
  theorems name as hypotheses, and one concrete kernel that satisfies them, on which the
  witnesses run: it keeps the interest list, the bytes each socket has taken, how many more
  it takes, a clock and the expiry each timer was last set to.
\<close>

section \<open>Hypotheses on the kernel\<close>

text \<open>
  epoll\_ctl(2): ADD registers an open descriptor that is not registered, MOD replaces and
  DEL removes the entry of one that is; anything else fails and changes nothing. (Running
  out of memory or of watches is left out.) \<open>is_open\<close> and \<open>interest\<close> read the open
  descriptors and the interest list off the kernel's state.
\<close>

definition epoll_ctl_spec ::
  "'k os \<Rightarrow> ('k \<Rightarrow> int \<Rightarrow> bool) \<Rightarrow> ('k \<Rightarrow> int \<Rightarrow> (32 word \<times> nat) option) \<Rightarrow> bool"
where
  "epoll_ctl_spec os is_open interest \<longleftrightarrow>
     (\<forall>op fd ev p k.
        let (ok, k') = sys_epoll_ctl os op fd ev p k;
            present = (interest k fd \<noteq> None);
            valid = (is_open k fd \<and> (if op = EPOLL_CTL_ADD then \<not> present else present))
        in ok = valid \<and> is_open k' = is_open k \<and>
           interest k' = (if \<not> valid then interest k
                          else (interest k)(fd := if op = EPOLL_CTL_DEL then None else Some (ev, p))))"

text \<open>
  write(2): a call takes a prefix of the data, or fails and takes nothing; \<open>sent k fd\<close> are
  the bytes taken so far. The other calls a connection makes in between take no data.
\<close>

definition write_spec :: "'k os \<Rightarrow> ('k \<Rightarrow> int \<Rightarrow> byte list) \<Rightarrow> bool" where
  "write_spec os sent \<longleftrightarrow>
     (\<forall>fd data k.
        case sys_write os fd data k of
          (Inl err, k') \<Rightarrow> sent k' = sent k
        | (Inr n, k') \<Rightarrow> n \<le> length data \<and> sent k' = (sent k)(fd := sent k fd @ take n data))
     \<and> (\<forall>op fd ev p k. sent (snd (sys_epoll_ctl os op fd ev p k)) = sent k)
     \<and> (\<forall>fd k. sent (snd (sys_shutdown_wr os fd k)) = sent k)"

section \<open>A kernel that satisfies them\<close>

record sample_kernel =
  sk_interest :: "int \<Rightarrow> (32 word \<times> nat) option"
  sk_sent :: "int \<Rightarrow> byte list"
  sk_room :: nat
  sk_time :: int
  sk_armed :: "int \<Rightarrow> int option"
  sk_incoming :: "byte list"
  sk_shut :: "int \<Rightarrow> bool"

definition sample_epoll_ctl ::
  "epoll_op \<Rightarrow> int \<Rightarrow> 32 word \<Rightarrow> nat \<Rightarrow> sample_kernel \<Rightarrow> bool \<times> sample_kernel"
where
  "sample_epoll_ctl op fd ev p k =
     (let present = (sk_interest k fd \<noteq> None);
          valid = (0 \<le> fd \<and> (if op = EPOLL_CTL_ADD then \<not> present else present))
      in (valid, if valid
                 then k\<lparr>sk_interest := (sk_interest k)(fd := if op = EPOLL_CTL_DEL then None else Some (ev, p))\<rparr>
                 else k))"

definition sample_write :: "int \<Rightarrow> byte list \<Rightarrow> sample_kernel \<Rightarrow> (int + nat) \<times> sample_kernel" where
  "sample_write fd data k =
     (if sk_room k = 0 then (Inl EAGAIN, k)
      else let n = min (length data) (sk_room k)
           in (Inr n, k\<lparr>sk_sent := (sk_sent k)(fd := sk_sent k fd @ take n data),
                        sk_room := sk_room k - n\<rparr>))"

definition sample_os :: "sample_kernel os" where
  "sample_os =
     \<lparr>sys_epoll_ctl = sample_epoll_ctl,
      sys_epoll_wait = (\<lambda>n k. (Inl EINTR, k)),
      sys_read = (\<lambda>fd n k. (Inr (replicate n 0), k)),
      sys_readv = (\<lambda>fd n k. (Inr (take n (sk_incoming k)), k\<lparr>sk_incoming := drop n (sk_incoming k)\<rparr>)),
      sys_write = sample_write,
      sys_timerfd_settime = (\<lambda>fd s ns k. (True, k\<lparr>sk_armed := (sk_armed k)(fd \<mapsto> sk_time k + s * 1000000000 + ns)\<rparr>)),
      sys_clock_now = (\<lambda>k. (sk_time k, k)),
      sys_so_error = (\<lambda>fd k. (Inr 0, k)),
      sys_shutdown_wr = (\<lambda>fd k. (True, k\<lparr>sk_shut := (sk_shut k)(fd := True)\<rparr>)),
      sys_close = (\<lambda>fd k. (True, k)),
      sys_socket = (\<lambda>k. (5, k)),
      sys_setsockopt = (\<lambda>fd opt k. (True, k)),
      sys_bind = (\<lambda>fd a k. (True, k)),
      sys_listen = (\<lambda>fd k. (True, k)),
      sys_accept4 = (\<lambda>fd k. (Inl (EMFILE, \<lparr>sin_family = 0, sin_port = 0, sin_addr = 0\<rparr>), k)),
      sys_connect = (\<lambda>fd a k. (Inl EINPROGRESS, k)),
      sys_getsockname = (\<lambda>fd k. (Inr \<lparr>sin_family = 2, sin_port = 0, sin_addr = 0\<rparr>, k))\<rparr>"

definition sample_state :: sample_kernel where
  "sample_state = \<lparr>sk_interest = (\<lambda>_. None), sk_sent = (\<lambda>_. []), sk_room = 4, sk_time = 1000,
     sk_armed = (\<lambda>_. None), sk_incoming = [], sk_shut = (\<lambda>_. False)\<rparr>"

definition sample_open :: "sample_kernel \<Rightarrow> int \<Rightarrow> bool" where
  "sample_open k fd \<longleftrightarrow> 0 \<le> fd"

lemma sample_os_epoll_ctl: "epoll_ctl_spec sample_os sample_open sk_interest"
  by (auto simp: epoll_ctl_spec_def sample_os_def sample_epoll_ctl_def sample_open_def Let_def fun_eq_iff)

lemma sample_os_write: "write_spec sample_os sk_sent"
  by (auto simp: write_spec_def sample_os_def sample_write_def sample_epoll_ctl_def Let_def min_def)

lemma sample_os_simps [simp]:
  "sys_epoll_ctl sample_os = sample_epoll_ctl" "sys_write sample_os = sample_write"
  "sys_clock_now sample_os k = (sk_time k, k)"
  "sys_timerfd_settime sample_os fd s ns k = (True, k\<lparr>sk_armed := (sk_armed k)(fd \<mapsto> sk_time k + s * 1000000000 + ns)\<rparr>)"
  "sys_read sample_os fd n k = (Inr (replicate n 0), k)"
  "sys_readv sample_os fd n k = (Inr (take n (sk_incoming k)), k\<lparr>sk_incoming := drop n (sk_incoming k)\<rparr>)"
  "sys_so_error sample_os fd k = (Inr 0, k)"
  "sys_shutdown_wr sample_os fd k = (True, k\<lparr>sk_shut := (sk_shut k)(fd := True)\<rparr>)"
  "sys_close sample_os fd k = (True, k)"
  by (simp_all add: sample_os_def)

text \<open>A loop of thread 1 over this kernel.\<close>

definition sample_loop :: "sample_kernel EventLoop" where
  "sample_loop = \<lparr>tid = 1, quit = False, doingPendingTasks = False,
     poller = \<lparr>ep_events_size = 128, epollfd = 3\<rparr>, activeChannels = [], wakeupfd = 4,
     wakeupChannel = 2, pendingTasks = [],
     timerQueue = \<lparr>timerfd = 6, timerChannel = 3, timers = []\<rparr>,
     channels = Map.empty, timer_heap = Map.empty, kernel = sample_state\<rparr>"

end
