(* ===== verification/Channel.thy ===== *)
theory Channel
  imports Sample_Kernel
begin

unbundle bit_operations_syntax

text \<open>
  \<open>Channel\<close> (\<open>Channel.cc\<close>), \<open>EPollPoller\<close> (\<open>EPollPoller.cc\<close>) and the two operations of
  \<open>EventLoop\<close> that connect them. A channel is the interest of one object in one descriptor;
  the poller tells the kernel about it and hands back what happened. First the operations,
  then the contract between a channel and the kernel's interest list.
\<close>

section \<open>Channel: construction and observers\<close>

definition Channel_new :: "int \<Rightarrow> Channel" where
  "Channel_new fd = \<lparr>pooling = False, ch_fd = fd, ch_tie = None, ch_tied = False,
     ch_events = 0, ch_revents = 0, ch_handlingEvents = False, ch_readCallback = None,
     ch_writeCallback = None, ch_closeCallback = None, ch_errorCallback = None\<rparr>"

definition Channel_destroy :: "nat \<Rightarrow> ('k, 'z) EventLoop_scheme \<Rightarrow> ('k, 'z) EventLoop_scheme result" where
  "Channel_destroy c l =
     rbind (deref (channels l) c) (\<lambda>ch.
     rbind (ensure (\<not> ch_handlingEvents ch) AssertFailed) (\<lambda>_.
     Inr (l\<lparr>channels := (channels l)(c := None)\<rparr>)))"

definition isNoneEvents :: "Channel \<Rightarrow> bool" where
  "isNoneEvents ch \<longleftrightarrow> ch_events ch = 0"

definition isReading :: "Channel \<Rightarrow> bool" where
  "isReading ch \<longleftrightarrow> ch_events ch AND EPOLLIN \<noteq> 0"

definition isWriting :: "Channel \<Rightarrow> bool" where
  "isWriting ch \<longleftrightarrow> ch_events ch AND EPOLLOUT \<noteq> 0"

text \<open>The plain setters (callbacks, \<open>revents_\<close>, \<open>tie\<close>) store through the pointer.\<close>

definition modify_channel ::
  "nat \<Rightarrow> (Channel \<Rightarrow> Channel) \<Rightarrow> ('k, 'z) EventLoop_scheme \<Rightarrow> ('k, 'z) EventLoop_scheme result"
where
  "modify_channel c f l = rbind (deref (channels l) c) (\<lambda>ch. Inr (put_channel c (f ch) l))"

definition setReadCallback :: "closure \<Rightarrow> Channel \<Rightarrow> Channel" where
  "setReadCallback f ch = ch\<lparr>ch_readCallback := Some f\<rparr>"
definition setWriteCallback :: "closure \<Rightarrow> Channel \<Rightarrow> Channel" where
  "setWriteCallback f ch = ch\<lparr>ch_writeCallback := Some f\<rparr>"
definition setCloseCallback :: "closure \<Rightarrow> Channel \<Rightarrow> Channel" where
  "setCloseCallback f ch = ch\<lparr>ch_closeCallback := Some f\<rparr>"
definition setErrorCallback :: "closure \<Rightarrow> Channel \<Rightarrow> Channel" where
  "setErrorCallback f ch = ch\<lparr>ch_errorCallback := Some f\<rparr>"
definition setRevents :: "32 word \<Rightarrow> Channel \<Rightarrow> Channel" where
  "setRevents ev ch = ch\<lparr>ch_revents := ev\<rparr>"
definition Channel_tie :: "nat \<Rightarrow> Channel \<Rightarrow> Channel" where
  "Channel_tie obj ch = ch\<lparr>ch_tie := Some obj, ch_tied := True\<rparr>"

section \<open>EPollPoller\<close>

definition EPollPoller_new :: "int \<Rightarrow> EPollPoller result" where
  "EPollPoller_new fd =
     rbind (ensure (fd \<noteq> -1) Aborted) (\<lambda>_. Inr \<lparr>ep_events_size = 128, epollfd = fd\<rparr>)"

text \<open>\<open>updateChannel(op, channel)\<close>: a failing \<open>epoll_ctl\<close> is logged and otherwise ignored.\<close>

definition EPollPoller_ctl ::
  "'k os \<Rightarrow> epoll_op \<Rightarrow> nat \<Rightarrow> ('k, 'z) EventLoop_scheme \<Rightarrow> ('k, 'z) EventLoop_scheme result"
where
  "EPollPoller_ctl os op c l =
     rbind (deref (channels l) c) (\<lambda>ch.
     Inr (snd (sys (sys_epoll_ctl os op (ch_fd ch) (ch_events ch) c) l)))"

definition EPollPoller_updateChannel ::
  "'k os \<Rightarrow> nat \<Rightarrow> nat \<Rightarrow> ('k, 'z) EventLoop_scheme \<Rightarrow> ('k, 'z) EventLoop_scheme result"
where
  "EPollPoller_updateChannel os cur c l =
     rbind (assertInLoopThread cur l) (\<lambda>_.
     rbind (deref (channels l) c) (\<lambda>ch.
     if \<not> pooling ch then
       rbind (ensure (\<not> isNoneEvents ch) AssertFailed) (\<lambda>_.
       EPollPoller_ctl os EPOLL_CTL_ADD c (put_channel c (ch\<lparr>pooling := True\<rparr>) l))
     else if \<not> isNoneEvents ch then
       EPollPoller_ctl os EPOLL_CTL_MOD c l
     else
       EPollPoller_ctl os EPOLL_CTL_DEL c (put_channel c (ch\<lparr>pooling := False\<rparr>) l)))"

text \<open>
  \<open>poll\<close>: \<open>epoll_wait\<close> fills at most \<open>maxEvents\<close> slots of \<open>events_\<close>; each event's channel
  gets its \<open>revents_\<close> and joins the active list; a full array doubles. The cast of the
  array's size to \<open>int\<close> is kept. An interrupted or failing call leaves the list empty.
\<close>

definition EPollPoller_push ::
  "32 word \<times> nat \<Rightarrow> ('k, 'z) EventLoop_scheme \<Rightarrow> ('k, 'z) EventLoop_scheme result"
where
  "EPollPoller_push = (\<lambda>(ev, c) l.
     rbind (modify_channel c (setRevents ev) l) (\<lambda>l'.
     Inr (l'\<lparr>activeChannels := activeChannels l' @ [c]\<rparr>)))"

definition EPollPoller_poll ::
  "'k os \<Rightarrow> nat \<Rightarrow> ('k, 'z) EventLoop_scheme \<Rightarrow> ('k, 'z) EventLoop_scheme result"
where
  "EPollPoller_poll os cur l =
     rbind (assertInLoopThread cur l) (\<lambda>_.
     let size = ep_events_size (poller l);
         maxEvents = sint (word_of_nat size :: 32 word)
     in case sys (sys_epoll_wait os maxEvents) l of
          (Inl err, l1) \<Rightarrow> Inr l1
        | (Inr evs, l1) \<Rightarrow>
            if evs = [] then Inr l1
            else rbind (ensure (length evs \<le> size) OutOfBounds) (\<lambda>_.
                 rbind (rfold EPollPoller_push evs l1) (\<lambda>l2.
                 Inr (if int (length evs) = maxEvents
                      then l2\<lparr>poller := (poller l2)\<lparr>ep_events_size := 2 * size\<rparr>\<rparr>
                      else l2))))"

section \<open>EventLoop::updateChannel and removeChannel; Channel::enable and disable\<close>

definition EventLoop_updateChannel ::
  "'k os \<Rightarrow> nat \<Rightarrow> nat \<Rightarrow> ('k, 'z) EventLoop_scheme \<Rightarrow> ('k, 'z) EventLoop_scheme result"
where
  "EventLoop_updateChannel os cur c l =
     rbind (assertInLoopThread cur l) (\<lambda>_. EPollPoller_updateChannel os cur c l)"

definition Channel_update ::
  "'k os \<Rightarrow> nat \<Rightarrow> nat \<Rightarrow> ('k, 'z) EventLoop_scheme \<Rightarrow> ('k, 'z) EventLoop_scheme result"
where
  "Channel_update os cur c l = EventLoop_updateChannel os cur c l"

definition enableRead ::
  "'k os \<Rightarrow> nat \<Rightarrow> nat \<Rightarrow> ('k, 'z) EventLoop_scheme \<Rightarrow> ('k, 'z) EventLoop_scheme result"
where
  "enableRead os cur c l =
     rbind (modify_channel c (\<lambda>ch. ch\<lparr>ch_events := ch_events ch OR (EPOLLIN OR EPOLLPRI)\<rparr>) l)
       (Channel_update os cur c)"

definition enableWrite ::
  "'k os \<Rightarrow> nat \<Rightarrow> nat \<Rightarrow> ('k, 'z) EventLoop_scheme \<Rightarrow> ('k, 'z) EventLoop_scheme result"
where
  "enableWrite os cur c l =
     rbind (modify_channel c (\<lambda>ch. ch\<lparr>ch_events := ch_events ch OR EPOLLOUT\<rparr>) l)
       (Channel_update os cur c)"

definition disableRead ::
  "'k os \<Rightarrow> nat \<Rightarrow> nat \<Rightarrow> ('k, 'z) EventLoop_scheme \<Rightarrow> ('k, 'z) EventLoop_scheme result"
where
  "disableRead os cur c l =
     rbind (modify_channel c (\<lambda>ch. ch\<lparr>ch_events := ch_events ch AND NOT EPOLLIN\<rparr>) l)
       (Channel_update os cur c)"

definition disableWrite ::
  "'k os \<Rightarrow> nat \<Rightarrow> nat \<Rightarrow> ('k, 'z) EventLoop_scheme \<Rightarrow> ('k, 'z) EventLoop_scheme result"
where
  "disableWrite os cur c l =
     rbind (modify_channel c (\<lambda>ch. ch\<lparr>ch_events := ch_events ch AND NOT EPOLLOUT\<rparr>) l)
       (Channel_update os cur c)"

definition disableAll ::
  "'k os \<Rightarrow> nat \<Rightarrow> nat \<Rightarrow> ('k, 'z) EventLoop_scheme \<Rightarrow> ('k, 'z) EventLoop_scheme result"
where
  "disableAll os cur c l =
     rbind (modify_channel c (\<lambda>ch. ch\<lparr>ch_events := 0\<rparr>) l) (Channel_update os cur c)"

definition EventLoop_removeChannel ::
  "'k os \<Rightarrow> nat \<Rightarrow> nat \<Rightarrow> ('k, 'z) EventLoop_scheme \<Rightarrow> ('k, 'z) EventLoop_scheme result"
where
  "EventLoop_removeChannel os cur c l =
     rbind (assertInLoopThread cur l) (\<lambda>_. disableAll os cur c l)"

definition Channel_remove ::
  "'k os \<Rightarrow> nat \<Rightarrow> nat \<Rightarrow> ('k, 'z) EventLoop_scheme \<Rightarrow> ('k, 'z) EventLoop_scheme result"
where
  "Channel_remove os cur c l =
     rbind (deref (channels l) c) (\<lambda>ch.
     rbind (ensure (pooling ch) AssertFailed) (\<lambda>_. EventLoop_removeChannel os cur c l))"

section \<open>Event dispatch\<close>

text \<open>
  \<open>invoke\<close> runs a function object. Each of the four tests reads the channel again, since the
  callback before it may have changed it. \<open>alive\<close> says whether a \<open>weak_ptr\<close> can be locked.
\<close>

definition dispatch_if ::
  "(closure \<Rightarrow> ('k, 'z) EventLoop_scheme \<Rightarrow> ('k, 'z) EventLoop_scheme result) \<Rightarrow> nat \<Rightarrow>
   (32 word \<Rightarrow> bool) \<Rightarrow> (Channel \<Rightarrow> closure option) \<Rightarrow>
   ('k, 'z) EventLoop_scheme \<Rightarrow> ('k, 'z) EventLoop_scheme result"
where
  "dispatch_if invoke c test callback l =
     rbind (deref (channels l) c) (\<lambda>ch.
     if test (ch_revents ch)
     then (case callback ch of None \<Rightarrow> Inr l | Some f \<Rightarrow> invoke f l)
     else Inr l)"

definition handleEventWithGuard ::
  "(closure \<Rightarrow> ('k, 'z) EventLoop_scheme \<Rightarrow> ('k, 'z) EventLoop_scheme result) \<Rightarrow> nat \<Rightarrow>
   ('k, 'z) EventLoop_scheme \<Rightarrow> ('k, 'z) EventLoop_scheme result"
where
  "handleEventWithGuard invoke c l =
     rbind (modify_channel c (\<lambda>ch. ch\<lparr>ch_handlingEvents := True\<rparr>) l) (\<lambda>l.
     rbind (dispatch_if invoke c (\<lambda>r. r AND EPOLLHUP \<noteq> 0 \<and> r AND EPOLLIN = 0) ch_closeCallback l) (\<lambda>l.
     rbind (dispatch_if invoke c (\<lambda>r. r AND EPOLLERR \<noteq> 0) ch_errorCallback l) (\<lambda>l.
     rbind (dispatch_if invoke c (\<lambda>r. r AND (EPOLLIN OR EPOLLPRI OR EPOLLRDHUP) \<noteq> 0) ch_readCallback l) (\<lambda>l.
     rbind (dispatch_if invoke c (\<lambda>r. r AND EPOLLOUT \<noteq> 0) ch_writeCallback l) (\<lambda>l.
     modify_channel c (\<lambda>ch. ch\<lparr>ch_handlingEvents := False\<rparr>) l)))))"

definition handleEvents ::
  "(nat \<Rightarrow> ('k, 'z) EventLoop_scheme \<Rightarrow> bool) \<Rightarrow>
   (closure \<Rightarrow> ('k, 'z) EventLoop_scheme \<Rightarrow> ('k, 'z) EventLoop_scheme result) \<Rightarrow> nat \<Rightarrow> nat \<Rightarrow>
   ('k, 'z) EventLoop_scheme \<Rightarrow> ('k, 'z) EventLoop_scheme result"
where
  "handleEvents alive invoke cur c l =
     rbind (assertInLoopThread cur l) (\<lambda>_.
     rbind (deref (channels l) c) (\<lambda>ch.
     if ch_tied ch
     then (case ch_tie ch of
             None \<Rightarrow> Inr l
           | Some obj \<Rightarrow> if alive obj l then handleEventWithGuard invoke c l else Inr l)
     else handleEventWithGuard invoke c l))"

section \<open>What changing the interest of a channel does\<close>

lemma modify_channel_ok [simp]:
  "channels l c = Some ch \<Longrightarrow> c \<noteq> 0 \<Longrightarrow> modify_channel c f l = Inr (put_channel c (f ch) l)"
  by (simp add: modify_channel_def)

lemma modify_channel_Inr:
  "modify_channel c f l = Inr l' \<longleftrightarrow> (\<exists>ch. c \<noteq> 0 \<and> channels l c = Some ch \<and> l' = put_channel c (f ch) l)"
  by (auto simp: modify_channel_def rbind_eq_Inr)

text \<open>The \<open>epoll_ctl\<close> operation the poller chooses, and the state it leaves.\<close>

definition ctl_op :: "bool \<Rightarrow> 32 word \<Rightarrow> epoll_op" where
  "ctl_op pooled ev =
     (if \<not> pooled then EPOLL_CTL_ADD else if ev \<noteq> 0 then EPOLL_CTL_MOD else EPOLL_CTL_DEL)"

definition with_interest ::
  "'k os \<Rightarrow> nat \<Rightarrow> Channel \<Rightarrow> 32 word \<Rightarrow> ('k, 'z) EventLoop_scheme \<Rightarrow> ('k, 'z) EventLoop_scheme"
where
  "with_interest os c ch ev l =
     (put_channel c (ch\<lparr>ch_events := ev, pooling := (ev \<noteq> 0)\<rparr>) l)
       \<lparr>kernel := snd (sys_epoll_ctl os (ctl_op (pooling ch) ev) (ch_fd ch) ev c (kernel l))\<rparr>"

lemma with_interest_simps [simp]:
  "channels (with_interest os c ch ev l) = (channels l)(c \<mapsto> ch\<lparr>ch_events := ev, pooling := (ev \<noteq> 0)\<rparr>)"
  "tid (with_interest os c ch ev l) = tid l"
  "kernel (with_interest os c ch ev l) =
     snd (sys_epoll_ctl os (ctl_op (pooling ch) ev) (ch_fd ch) ev c (kernel l))"
  "timer_heap (with_interest os c ch ev l) = timer_heap l"
  "timerQueue (with_interest os c ch ev l) = timerQueue l"
  "pendingTasks (with_interest os c ch ev l) = pendingTasks l"
  "doingPendingTasks (with_interest os c ch ev l) = doingPendingTasks l"
  "EventLoop.more (with_interest os c ch ev l) = EventLoop.more l"
  by (simp_all add: with_interest_def)

lemma pooling_True: "pooling ch \<Longrightarrow> ch\<lparr>ch_events := e, pooling := True\<rparr> = ch\<lparr>ch_events := e\<rparr>"
  by (cases ch) simp

text \<open>
  The contract the five operations share: each writes a new mask and updates the poller.
  On a channel that is not registered and whose new mask is empty, the poller's assertion
  fails; in every other case the channel is registered exactly when its mask is not empty.
\<close>

locale interest_op =
  fixes chg :: "'k os \<Rightarrow> nat \<Rightarrow> nat \<Rightarrow> ('k, 'z) EventLoop_scheme \<Rightarrow> ('k, 'z) EventLoop_scheme result"
    and mask :: "32 word \<Rightarrow> 32 word"
  assumes chg_eq: "chg os cur c l =
      rbind (modify_channel c (\<lambda>ch. ch\<lparr>ch_events := mask (ch_events ch)\<rparr>) l) (Channel_update os cur c)"
begin

lemma interest_eq:
  assumes "tid l = cur" "channels l c = Some ch" "c \<noteq> 0"
  shows "chg os cur c l =
    (if pooling ch \<or> mask (ch_events ch) \<noteq> 0 then Inr (with_interest os c ch (mask (ch_events ch)) l)
     else Inl AssertFailed)"
  using assms
  by (auto simp: chg_eq Channel_update_def EventLoop_updateChannel_def EPollPoller_updateChannel_def
      EPollPoller_ctl_def isNoneEvents_def with_interest_def ctl_op_def sys_def put_channel_def
      case_prod_beta pooling_True)

lemma interest_ok:
  assumes "tid l = cur" "channels l c = Some ch" "c \<noteq> 0" "pooling ch \<or> mask (ch_events ch) \<noteq> 0"
  shows "chg os cur c l = Inr (with_interest os c ch (mask (ch_events ch)) l)"
  using interest_eq[OF assms(1-3)] assms(4) by simp

lemma interest_unregistered:
  assumes "tid l = cur" "channels l c = Some ch" "c \<noteq> 0" "\<not> pooling ch" "mask (ch_events ch) = 0"
  shows "chg os cur c l = Inl AssertFailed"
  using interest_eq[OF assms(1-3)] assms(4,5) by simp

end

interpretation enableRead: interest_op enableRead "\<lambda>e. e OR (EPOLLIN OR EPOLLPRI)"
  by unfold_locales (simp add: enableRead_def)

interpretation enableWrite: interest_op enableWrite "\<lambda>e. e OR EPOLLOUT"
  by unfold_locales (simp add: enableWrite_def)

interpretation disableRead: interest_op disableRead "\<lambda>e. e AND NOT EPOLLIN"
  by unfold_locales (simp add: disableRead_def)

interpretation disableWrite: interest_op disableWrite "\<lambda>e. e AND NOT EPOLLOUT"
  by unfold_locales (simp add: disableWrite_def)

interpretation disableAll: interest_op disableAll "\<lambda>e. 0"
  by unfold_locales (simp add: disableAll_def)

lemma removeChannel_eq:
  "tid l = cur \<Longrightarrow> EventLoop_removeChannel os cur c l = disableAll os cur c l"
  by (simp add: EventLoop_removeChannel_def)

section \<open>Masks\<close>

lemmas epoll_masks = EPOLLIN_def EPOLLPRI_def EPOLLOUT_def EPOLLERR_def EPOLLHUP_def EPOLLRDHUP_def

lemma mask_nonzero [simp]: "e OR (EPOLLIN OR EPOLLPRI) \<noteq> 0" "e OR EPOLLOUT \<noteq> 0"
  by (simp_all add: or_eq_0_iff epoll_masks)

lemma EPOLL_bits: "EPOLLIN = 2 ^ 0" "EPOLLPRI = 2 ^ 1" "EPOLLOUT = 2 ^ 2"
  by (simp_all add: epoll_masks)

lemma bit_masks [simp]:
  "bit EPOLLIN n \<longleftrightarrow> n = 0" "bit EPOLLPRI n \<longleftrightarrow> n = 1" "bit EPOLLOUT n \<longleftrightarrow> n = 2"
  unfolding EPOLL_bits bit_exp_iff by (auto simp: possible_bit_word)

lemma isReading_bit: "isReading ch \<longleftrightarrow> bit (ch_events ch) 0"
  unfolding isReading_def EPOLL_bits and_exp_eq_0_iff_not_bit by simp

lemma isWriting_bit: "isWriting ch \<longleftrightarrow> bit (ch_events ch) 2"
  unfolding isWriting_def EPOLL_bits and_exp_eq_0_iff_not_bit by simp

lemma bit_nonzero: "bit (e :: 32 word) n \<Longrightarrow> e \<noteq> 0"
  by auto

lemma clear_OUT_nonzero: "bit e 1 \<Longrightarrow> e AND NOT EPOLLOUT \<noteq> 0"
  by (rule bit_nonzero[of _ 1]) (simp add: bit_simps)

lemma clear_IN_nonzero: "bit e 1 \<Longrightarrow> e AND NOT EPOLLIN \<noteq> 0"
  by (rule bit_nonzero[of _ 1]) (simp add: bit_simps)

lemma mask_bits [simp]:
  "bit (e OR (EPOLLIN OR EPOLLPRI)) n \<longleftrightarrow> bit e n \<or> n = 0 \<or> n = 1"
  "bit (e OR EPOLLOUT) n \<longleftrightarrow> bit e n \<or> n = 2"
  "bit (e AND NOT EPOLLIN) n \<longleftrightarrow> bit e n \<and> n \<noteq> 0"
  "bit (e AND NOT EPOLLOUT) n \<longleftrightarrow> bit e n \<and> n \<noteq> 2"
  by (auto simp: bit_simps dest: bit_imp_le_length)

section \<open>The kernel's interest list\<close>

text \<open>
  A channel and the kernel agree: the channel is registered exactly when its mask is not
  empty, and then the interest list holds this mask and this channel for its descriptor.
\<close>

definition in_sync ::
  "('k \<Rightarrow> int \<Rightarrow> bool) \<Rightarrow> ('k \<Rightarrow> int \<Rightarrow> (32 word \<times> nat) option) \<Rightarrow> nat \<Rightarrow>
   ('k, 'z) EventLoop_scheme \<Rightarrow> bool"
where
  "in_sync is_open interest c l \<longleftrightarrow> c \<noteq> 0 \<and>
     (case channels l c of
        None \<Rightarrow> False
      | Some ch \<Rightarrow> is_open (kernel l) (ch_fd ch) \<and> (pooling ch \<longleftrightarrow> ch_events ch \<noteq> 0) \<and>
          interest (kernel l) (ch_fd ch) = (if pooling ch then Some (ch_events ch, c) else None))"

lemma epoll_ctl_specD:
  assumes "epoll_ctl_spec os is_open interest" and "is_open k fd"
    and "op = EPOLL_CTL_ADD \<longleftrightarrow> interest k fd = None"
  shows "is_open (snd (sys_epoll_ctl os op fd ev p k)) = is_open k"
    and "interest (snd (sys_epoll_ctl os op fd ev p k)) =
      (interest k)(fd := if op = EPOLL_CTL_DEL then None else Some (ev, p))"
  using assms unfolding epoll_ctl_spec_def
  by (auto simp: case_prod_beta Let_def dest!: spec[of _ op] spec[of _ fd] spec[of _ ev] spec[of _ p] spec[of _ k]
      split: if_splits)

lemma with_interest_in_sync:
  assumes spec: "epoll_ctl_spec os is_open interest" and sync: "in_sync is_open interest c l"
    and ch: "channels l c = Some ch" and ok: "pooling ch \<or> ev \<noteq> 0"
  shows "in_sync is_open interest c (with_interest os c ch ev l)"
proof -
  let ?op = "ctl_op (pooling ch) ev"
  have opn: "is_open (kernel l) (ch_fd ch)" and pool: "pooling ch \<longleftrightarrow> ch_events ch \<noteq> 0"
    and int: "interest (kernel l) (ch_fd ch) = (if pooling ch then Some (ch_events ch, c) else None)"
    using sync ch by (auto simp: in_sync_def)
  have "?op = EPOLL_CTL_ADD \<longleftrightarrow> interest (kernel l) (ch_fd ch) = None"
    using int by (simp add: ctl_op_def)
  note k = epoll_ctl_specD[OF spec opn this]
  have del: "?op = EPOLL_CTL_DEL \<longleftrightarrow> pooling ch \<and> ev = 0" by (simp add: ctl_op_def)
  show ?thesis
    using sync opn ok del by (auto simp: in_sync_def k)
qed

datatype chan_op = EnableRead | EnableWrite | DisableRead | DisableWrite | DisableAll

fun run_chan_op ::
  "'k os \<Rightarrow> nat \<Rightarrow> nat \<Rightarrow> chan_op \<Rightarrow> ('k, 'z) EventLoop_scheme \<Rightarrow> ('k, 'z) EventLoop_scheme result"
where
  "run_chan_op os cur c EnableRead = enableRead os cur c"
| "run_chan_op os cur c EnableWrite = enableWrite os cur c"
| "run_chan_op os cur c DisableRead = disableRead os cur c"
| "run_chan_op os cur c DisableWrite = disableWrite os cur c"
| "run_chan_op os cur c DisableAll = disableAll os cur c"

fun mask_of :: "chan_op \<Rightarrow> 32 word \<Rightarrow> 32 word" where
  "mask_of EnableRead e = e OR (EPOLLIN OR EPOLLPRI)"
| "mask_of EnableWrite e = e OR EPOLLOUT"
| "mask_of DisableRead e = e AND NOT EPOLLIN"
| "mask_of DisableWrite e = e AND NOT EPOLLOUT"
| "mask_of DisableAll e = 0"

lemma run_chan_op_eq:
  assumes "tid l = cur" "channels l c = Some ch" "c \<noteq> 0"
  shows "run_chan_op os cur c op l =
    (if pooling ch \<or> mask_of op (ch_events ch) \<noteq> 0
     then Inr (with_interest os c ch (mask_of op (ch_events ch)) l) else Inl AssertFailed)"
  using enableRead.interest_eq[OF assms] enableWrite.interest_eq[OF assms]
    disableRead.interest_eq[OF assms] disableWrite.interest_eq[OF assms]
    disableAll.interest_eq[OF assms]
  by (cases op) simp_all

section \<open>Dispatch order\<close>

text \<open>The callbacks \<open>handleEventWithGuard\<close> calls for a given \<open>revents_\<close>, in its order.\<close>

definition selected_callbacks :: "Channel \<Rightarrow> closure list" where
  "selected_callbacks ch =
     (let r = ch_revents ch; pick = (\<lambda>b f. if b then (case f of None \<Rightarrow> [] | Some x \<Rightarrow> [x]) else [])
      in pick (r AND EPOLLHUP \<noteq> 0 \<and> r AND EPOLLIN = 0) (ch_closeCallback ch) @
         pick (r AND EPOLLERR \<noteq> 0) (ch_errorCallback ch) @
         pick (r AND (EPOLLIN OR EPOLLPRI OR EPOLLRDHUP) \<noteq> 0) (ch_readCallback ch) @
         pick (r AND EPOLLOUT \<noteq> 0) (ch_writeCallback ch))"

text \<open>What dispatch reads of a channel; callbacks may change the rest of it.\<close>

definition dispatch_view :: "Channel \<Rightarrow> 32 word \<times> closure option \<times> closure option \<times> closure option \<times> closure option" where
  "dispatch_view ch = (ch_revents ch, ch_closeCallback ch, ch_errorCallback ch, ch_readCallback ch, ch_writeCallback ch)"

definition keeps_view ::
  "(closure \<Rightarrow> ('k, 'z) EventLoop_scheme \<Rightarrow> ('k, 'z) EventLoop_scheme result) \<Rightarrow> nat \<Rightarrow> bool"
where
  "keeps_view invoke c \<longleftrightarrow> (\<forall>f l l'. invoke f l = Inr l' \<longrightarrow>
     map_option dispatch_view (channels l' c) = map_option dispatch_view (channels l c))"

lemma dispatch_if_eq:
  assumes "channels l c = Some ch" "c \<noteq> 0"
  shows "dispatch_if invoke c test callback l =
    rfold invoke (if test (ch_revents ch) then (case callback ch of None \<Rightarrow> [] | Some f \<Rightarrow> [f]) else []) l"
  using assms by (auto simp: dispatch_if_def rbind_def split: option.split sum.split)

lemma rfold_keeps_view:
  assumes "keeps_view invoke c" "rfold invoke fs l = Inr l'"
  shows "map_option dispatch_view (channels l' c) = map_option dispatch_view (channels l c)"
  using assms(2)
proof (induction fs arbitrary: l)
  case (Cons f fs)
  then obtain l1 where "invoke f l = Inr l1" "rfold invoke fs l1 = Inr l'" by (auto simp: rbind_eq_Inr)
  then show ?case using Cons.IH[of l1] assms(1) unfolding keeps_view_def by metis
qed simp

lemma dispatch_if_view:
  assumes "map_option dispatch_view (channels l c) = Some (dispatch_view org)" "c \<noteq> 0"
    and "\<And>ch. dispatch_view ch = dispatch_view org \<Longrightarrow> callback ch = callback org"
  shows "dispatch_if invoke c test callback l =
    rfold invoke (if test (ch_revents org) then (case callback org of None \<Rightarrow> [] | Some f \<Rightarrow> [f]) else []) l"
proof -
  obtain ch where ch: "channels l c = Some ch" "dispatch_view ch = dispatch_view org"
    using assms(1) by auto
  have "ch_revents ch = ch_revents org" using ch(2) by (simp add: dispatch_view_def)
  moreover have "callback ch = callback org" using ch(2) by (rule assms(3))
  ultimately show ?thesis using dispatch_if_eq[OF ch(1) assms(2)] by simp
qed

lemma dispatch_view_fields:
  assumes "dispatch_view ch = dispatch_view org"
  shows "ch_closeCallback ch = ch_closeCallback org" "ch_errorCallback ch = ch_errorCallback org"
    "ch_readCallback ch = ch_readCallback org" "ch_writeCallback ch = ch_writeCallback org"
  using assms by (simp_all add: dispatch_view_def)

lemma dispatch_then:
  assumes keeps: "keeps_view invoke c" and c: "c \<noteq> 0"
    and v: "map_option dispatch_view (channels l c) = Some (dispatch_view org)"
    and cb: "\<And>ch. dispatch_view ch = dispatch_view org \<Longrightarrow> callback ch = callback org"
    and rest: "\<And>l'. map_option dispatch_view (channels l' c) = Some (dispatch_view org) \<Longrightarrow>
      g l' = rfold invoke q l'"
  shows "rbind (dispatch_if invoke c test callback l) g =
    rfold invoke ((if test (ch_revents org) then (case callback org of None \<Rightarrow> [] | Some f \<Rightarrow> [f]) else []) @ q) l"
proof -
  let ?p = "if test (ch_revents org) then (case callback org of None \<Rightarrow> [] | Some f \<Rightarrow> [f]) else []"
  have d: "dispatch_if invoke c test callback l = rfold invoke ?p l"
    using v c cb by (rule dispatch_if_view)
  have "g l' = rfold invoke q l'" if "rfold invoke ?p l = Inr l'" for l'
    using rfold_keeps_view[OF keeps that] v by (intro rest) simp
  then show ?thesis unfolding rfold_append d by (intro rbind_cong) simp_all
qed

lemma dispatch_four:
  assumes keeps: "keeps_view invoke c" and c: "c \<noteq> 0"
    and v: "map_option dispatch_view (channels l c) = Some (dispatch_view ch)"
  shows "rbind (dispatch_if invoke c (\<lambda>r. r AND EPOLLHUP \<noteq> 0 \<and> r AND EPOLLIN = 0) ch_closeCallback l) (\<lambda>l.
     rbind (dispatch_if invoke c (\<lambda>r. r AND EPOLLERR \<noteq> 0) ch_errorCallback l) (\<lambda>l.
     rbind (dispatch_if invoke c (\<lambda>r. r AND (EPOLLIN OR EPOLLPRI OR EPOLLRDHUP) \<noteq> 0) ch_readCallback l)
       (dispatch_if invoke c (\<lambda>r. r AND EPOLLOUT \<noteq> 0) ch_writeCallback)))
   = rfold invoke (selected_callbacks ch) l"
proof -
  note fields = dispatch_view_fields[of _ ch]
  let ?V = "\<lambda>l. map_option dispatch_view (channels l c) = Some (dispatch_view ch)"
  note after = dispatch_then[OF keeps c, where org = ch]
  have d4: "dispatch_if invoke c t ch_writeCallback l =
      rfold invoke (if t (ch_revents ch) then (case ch_writeCallback ch of None \<Rightarrow> [] | Some f \<Rightarrow> [f]) else []) l"
    if "?V l" for l and t
    using dispatch_if_view[where callback = ch_writeCallback, OF that c fields(4)] .
  note d3 = after[where callback = ch_readCallback, OF _ fields(3) d4]
  note d2 = after[where callback = ch_errorCallback, OF _ fields(2) d3]
  note d1 = after[where callback = ch_closeCallback, OF v fields(1) d2]
  show ?thesis unfolding selected_callbacks_def Let_def by (rule d1)
qed

section \<open>Properties\<close>

text \<open>
  C20. Whatever sequence of \<open>enableRead\<close>, \<open>enableWrite\<close>, \<open>disableRead\<close>, \<open>disableWrite\<close> and
  \<open>disableAll\<close> is applied in the loop's thread to a channel on an open descriptor, the
  kernel's interest list and the channel never disagree: afterwards the channel is registered
  exactly when its mask is not empty, with this mask and this channel pointer, and no other
  channel has changed. The only possible fault is the poller's assertion, when a channel
  that is not registered is asked for an empty mask.
\<close>

theorem interest_list_agrees:
  assumes "epoll_ctl_spec os is_open interest" and "tid l = cur" and "in_sync is_open interest c l"
  shows "case rfold (run_chan_op os cur c) ops l of
      Inl e \<Rightarrow> e = AssertFailed
    | Inr l' \<Rightarrow> in_sync is_open interest c l' \<and> (\<forall>d. d \<noteq> c \<longrightarrow> channels l' d = channels l d)"
  using assms(2,3)
proof (induction ops arbitrary: l)
  case (Cons op ops)
  then obtain ch where ch: "channels l c = Some ch" and c: "c \<noteq> 0"
    by (auto simp: in_sync_def split: option.splits)
  let ?ev = "mask_of op (ch_events ch)"
  show ?case
  proof (cases "pooling ch \<or> ?ev \<noteq> 0")
    case True
    let ?l1 = "with_interest os c ch ?ev l"
    have "in_sync is_open interest c ?l1"
      using with_interest_in_sync[OF assms(1) Cons.prems(2) ch True] .
    then show ?thesis
      using Cons.IH[of ?l1] Cons.prems(1) True run_chan_op_eq[OF Cons.prems(1) ch c, of os op]
      by (auto split: sum.splits)
  next
    case False
    then show ?thesis using run_chan_op_eq[OF Cons.prems(1) ch c, of os op] by simp
  qed
qed simp

theorem interest_list_agrees_witness:
  "\<exists>l'. rfold (run_chan_op sample_os 1 9) [EnableRead, EnableWrite, DisableRead, DisableAll, EnableWrite]
      (put_channel 9 (Channel_new 7) sample_loop) = Inr l'
    \<and> in_sync sample_open sk_interest 9 l'"
proof -
  let ?l = "put_channel 9 (Channel_new 7) sample_loop"
  let ?ops = "[EnableRead, EnableWrite, DisableRead, DisableAll, EnableWrite]"
  have sync: "in_sync sample_open sk_interest 9 ?l"
    by (simp add: in_sync_def Channel_new_def sample_open_def sample_loop_def sample_state_def)
  have t: "tid ?l = 1" by (simp add: sample_loop_def)
  obtain l' where l': "rfold (run_chan_op sample_os 1 9) ?ops ?l = Inr l'"
    by (simp add: enableRead.interest_eq enableWrite.interest_eq disableRead.interest_eq
        disableAll.interest_eq t[simplified] Channel_new_def epoll_masks)
  then show ?thesis
    using interest_list_agrees[OF sample_os_epoll_ctl t sync, of ?ops] by simp
qed

text \<open>
  \<open>handleEventWithGuard\<close> calls the callbacks selected by \<open>revents_\<close> in the order close,
  error, read, write, each at most once and only where one is set: close on a hang-up without
  readable data, error on EPOLLERR, read on EPOLLIN, EPOLLPRI or EPOLLRDHUP, write on
  EPOLLOUT. The flag \<open>handlingEvents_\<close> is up while they run and down afterwards, so the
  destructor's assertion can only fail inside a callback. (For callbacks that leave the
  channel's \<open>revents_\<close> and callbacks alone, as all of the library's do.)
\<close>

theorem dispatch_order:
  assumes "keeps_view invoke c" and "channels l c = Some ch" and "c \<noteq> 0"
  shows "handleEventWithGuard invoke c l =
    rbind (rfold invoke (selected_callbacks ch) (put_channel c (ch\<lparr>ch_handlingEvents := True\<rparr>) l))
      (modify_channel c (\<lambda>ch. ch\<lparr>ch_handlingEvents := False\<rparr>))"
proof -
  let ?l = "put_channel c (ch\<lparr>ch_handlingEvents := True\<rparr>) l"
  have "map_option dispatch_view (channels ?l c) = Some (dispatch_view ch)"
    by (simp add: dispatch_view_def)
  from dispatch_four[OF assms(1,3) this, symmetric]
  show ?thesis
    using assms(2,3) by (simp add: handleEventWithGuard_def rbind_assoc)
qed

definition sample_invoke :: "closure \<Rightarrow> sample_kernel EventLoop \<Rightarrow> sample_kernel EventLoop result" where
  "sample_invoke f l = Inr (l\<lparr>pendingTasks := pendingTasks l @ [f]\<rparr>)"

definition sample_channel :: Channel where
  "sample_channel = (Channel_new 7)\<lparr>ch_revents := EPOLLIN OR EPOLLOUT OR EPOLLERR OR EPOLLHUP,
     ch_readCallback := Some (User_fn 1), ch_writeCallback := Some (User_fn 2),
     ch_closeCallback := Some (User_fn 3)\<rparr>"

theorem dispatch_order_witness:
  "\<exists>l'. handleEventWithGuard sample_invoke 9 (put_channel 9 sample_channel sample_loop) = Inr l'
    \<and> pendingTasks l' = [User_fn 1, User_fn 2]"
proof -
  have keeps: "keeps_view sample_invoke 9" by (simp add: keeps_view_def sample_invoke_def)
  have sel: "selected_callbacks sample_channel = [User_fn 1, User_fn 2]"
    by (simp add: selected_callbacks_def sample_channel_def Channel_new_def epoll_masks)
  show ?thesis
    using dispatch_order[OF keeps, of "put_channel 9 sample_channel sample_loop" sample_channel]
    by (simp add: sel sample_invoke_def sample_loop_def modify_channel_def put_channel_def)
qed

end
