(* ===== verification/EventLoop.thy ===== *)
theory EventLoop
  imports Channel
begin

text \<open>
  \<open>EventLoop\<close> (\<open>EventLoop.cc\<close>): the task queue other threads fill, the eventfd that wakes the
  loop, and the loop itself. \<open>cur\<close> is the thread that executes an operation (\<open>gettid\<close>).
\<close>

section \<open>Waking up and queueing\<close>

definition EventLoop_wakeup :: "'k os \<Rightarrow> ('k, 'z) EventLoop_scheme \<Rightarrow> ('k, 'z) EventLoop_scheme" where
  "EventLoop_wakeup os l = snd (sys (sys_write os (wakeupfd l) (le_bytes 8 (1 :: 64 word))) l)"

text \<open>\<open>queueInLoop\<close> in its two parts: the critical section, and the test that follows it.\<close>

definition queueInLoop_push :: "closure \<Rightarrow> ('k, 'z) EventLoop_scheme \<Rightarrow> ('k, 'z) EventLoop_scheme" where
  "queueInLoop_push task l = l\<lparr>pendingTasks := pendingTasks l @ [task]\<rparr>"

definition queueInLoop_wake ::
  "'k os \<Rightarrow> nat \<Rightarrow> ('k, 'z) EventLoop_scheme \<Rightarrow> ('k, 'z) EventLoop_scheme"
where
  "queueInLoop_wake os cur l =
     (if \<not> isInLoopThread cur l \<or> doingPendingTasks l then EventLoop_wakeup os l else l)"

definition queueInLoop ::
  "'k os \<Rightarrow> nat \<Rightarrow> closure \<Rightarrow> ('k, 'z) EventLoop_scheme \<Rightarrow> ('k, 'z) EventLoop_scheme"
where
  "queueInLoop os cur task l = queueInLoop_wake os cur (queueInLoop_push task l)"

definition runInLoop ::
  "'k os \<Rightarrow> nat \<Rightarrow> (closure \<Rightarrow> ('k, 'z) EventLoop_scheme \<Rightarrow> ('k, 'z) EventLoop_scheme result) \<Rightarrow>
   closure \<Rightarrow> ('k, 'z) EventLoop_scheme \<Rightarrow> ('k, 'z) EventLoop_scheme result"
where
  "runInLoop os cur exec task l =
     (if isInLoopThread cur l then exec task l else Inr (queueInLoop os cur task l))"

definition EventLoop_quit ::
  "'k os \<Rightarrow> nat \<Rightarrow> ('k, 'z) EventLoop_scheme \<Rightarrow> ('k, 'z) EventLoop_scheme result"
where
  "EventLoop_quit os cur l =
     rbind (ensure (\<not> quit l) AssertFailed) (\<lambda>_.
     let l1 = l\<lparr>quit := True\<rparr>
     in Inr (if \<not> isInLoopThread cur l1 then EventLoop_wakeup os l1 else l1))"

text \<open>The callback of the wakeup channel consumes the counter.\<close>

definition EventLoop_handleRead :: "'k os \<Rightarrow> ('k, 'z) EventLoop_scheme \<Rightarrow> ('k, 'z) EventLoop_scheme" where
  "EventLoop_handleRead os l = snd (sys (sys_read os (wakeupfd l) 8) l)"

section \<open>Pending tasks and the loop\<close>

definition doPendingTasks ::
  "(closure \<Rightarrow> ('k, 'z) EventLoop_scheme \<Rightarrow> ('k, 'z) EventLoop_scheme result) \<Rightarrow> nat \<Rightarrow>
   ('k, 'z) EventLoop_scheme \<Rightarrow> ('k, 'z) EventLoop_scheme result"
where
  "doPendingTasks invoke cur l =
     rbind (assertInLoopThread cur l) (\<lambda>_.
     let tasks = pendingTasks l; l1 = l\<lparr>pendingTasks := []\<rparr>
     in rbind (rfold invoke tasks (l1\<lparr>doingPendingTasks := True\<rparr>)) (\<lambda>l2.
        Inr (l2\<lparr>doingPendingTasks := False\<rparr>)))"

definition EventLoop_iteration ::
  "'k os \<Rightarrow> (nat \<Rightarrow> ('k, 'z) EventLoop_scheme \<Rightarrow> bool) \<Rightarrow>
   (closure \<Rightarrow> ('k, 'z) EventLoop_scheme \<Rightarrow> ('k, 'z) EventLoop_scheme result) \<Rightarrow> nat \<Rightarrow>
   ('k, 'z) EventLoop_scheme \<Rightarrow> ('k, 'z) EventLoop_scheme result"
where
  "EventLoop_iteration os alive invoke cur l =
     rbind (EPollPoller_poll os cur (l\<lparr>activeChannels := []\<rparr>)) (\<lambda>l1.
     rbind (rfold (handleEvents alive invoke cur) (activeChannels l1) l1)
       (doPendingTasks invoke cur))"

text \<open>
  \<open>while (!quit_)\<close>. The loop of a server runs until somebody asks it to quit, so the model
  takes the number of iterations it may make: \<open>None\<close> means it is still running after them.
\<close>

fun EventLoop_while ::
  "'k os \<Rightarrow> (nat \<Rightarrow> ('k, 'z) EventLoop_scheme \<Rightarrow> bool) \<Rightarrow>
   (closure \<Rightarrow> ('k, 'z) EventLoop_scheme \<Rightarrow> ('k, 'z) EventLoop_scheme result) \<Rightarrow> nat \<Rightarrow> nat \<Rightarrow>
   ('k, 'z) EventLoop_scheme \<Rightarrow> ('k, 'z) EventLoop_scheme result option"
where
  "EventLoop_while os alive invoke cur 0 l = (if quit l then Some (Inr l) else None)"
| "EventLoop_while os alive invoke cur (Suc n) l =
     (if quit l then Some (Inr l)
      else case EventLoop_iteration os alive invoke cur l of
             Inl e \<Rightarrow> Some (Inl e)
           | Inr l' \<Rightarrow> EventLoop_while os alive invoke cur n l')"

definition EventLoop_loop ::
  "'k os \<Rightarrow> (nat \<Rightarrow> ('k, 'z) EventLoop_scheme \<Rightarrow> bool) \<Rightarrow>
   (closure \<Rightarrow> ('k, 'z) EventLoop_scheme \<Rightarrow> ('k, 'z) EventLoop_scheme result) \<Rightarrow> nat \<Rightarrow> nat \<Rightarrow>
   ('k, 'z) EventLoop_scheme \<Rightarrow> ('k, 'z) EventLoop_scheme result option"
where
  "EventLoop_loop os alive invoke cur n l =
     (case assertInLoopThread cur l of
        Inl e \<Rightarrow> Some (Inl e)
      | Inr _ \<Rightarrow> EventLoop_while os alive invoke cur n (l\<lparr>quit := False\<rparr>))"

section \<open>Lemmas\<close>

lemma EventLoop_wakeup_simps [simp]:
  "pendingTasks (EventLoop_wakeup os l) = pendingTasks l"
  "quit (EventLoop_wakeup os l) = quit l"
  "tid (EventLoop_wakeup os l) = tid l"
  "doingPendingTasks (EventLoop_wakeup os l) = doingPendingTasks l"
  "wakeupfd (EventLoop_wakeup os l) = wakeupfd l"
  "channels (EventLoop_wakeup os l) = channels l"
  "timer_heap (EventLoop_wakeup os l) = timer_heap l"
  "timerQueue (EventLoop_wakeup os l) = timerQueue l"
  "EventLoop.more (EventLoop_wakeup os l) = EventLoop.more l"
  by (simp_all add: EventLoop_wakeup_def sys_def case_prod_beta)

lemma EventLoop_handleRead_simps [simp]:
  "pendingTasks (EventLoop_handleRead os l) = pendingTasks l"
  "quit (EventLoop_handleRead os l) = quit l"
  "tid (EventLoop_handleRead os l) = tid l"
  "doingPendingTasks (EventLoop_handleRead os l) = doingPendingTasks l"
  "wakeupfd (EventLoop_handleRead os l) = wakeupfd l"
  by (simp_all add: EventLoop_handleRead_def sys_def case_prod_beta)

lemma queueInLoop_push_simps [simp]:
  "pendingTasks (queueInLoop_push t l) = pendingTasks l @ [t]"
  "quit (queueInLoop_push t l) = quit l"
  "tid (queueInLoop_push t l) = tid l"
  "doingPendingTasks (queueInLoop_push t l) = doingPendingTasks l"
  "wakeupfd (queueInLoop_push t l) = wakeupfd l"
  "kernel (queueInLoop_push t l) = kernel l"
  "channels (queueInLoop_push t l) = channels l"
  "timer_heap (queueInLoop_push t l) = timer_heap l"
  "timerQueue (queueInLoop_push t l) = timerQueue l"
  "EventLoop.more (queueInLoop_push t l) = EventLoop.more l"
  by (simp_all add: queueInLoop_push_def)

lemma queueInLoop_wake_simps [simp]:
  "pendingTasks (queueInLoop_wake os cur l) = pendingTasks l"
  "quit (queueInLoop_wake os cur l) = quit l"
  "tid (queueInLoop_wake os cur l) = tid l"
  "doingPendingTasks (queueInLoop_wake os cur l) = doingPendingTasks l"
  "wakeupfd (queueInLoop_wake os cur l) = wakeupfd l"
  "channels (queueInLoop_wake os cur l) = channels l"
  "timer_heap (queueInLoop_wake os cur l) = timer_heap l"
  "timerQueue (queueInLoop_wake os cur l) = timerQueue l"
  "EventLoop.more (queueInLoop_wake os cur l) = EventLoop.more l"
  by (simp_all add: queueInLoop_wake_def)

lemma queueInLoop_simps [simp]:
  "pendingTasks (queueInLoop os cur t l) = pendingTasks l @ [t]"
  "quit (queueInLoop os cur t l) = quit l"
  "tid (queueInLoop os cur t l) = tid l"
  "doingPendingTasks (queueInLoop os cur t l) = doingPendingTasks l"
  "wakeupfd (queueInLoop os cur t l) = wakeupfd l"
  "channels (queueInLoop os cur t l) = channels l"
  "timer_heap (queueInLoop os cur t l) = timer_heap l"
  "timerQueue (queueInLoop os cur t l) = timerQueue l"
  "EventLoop.more (queueInLoop os cur t l) = EventLoop.more l"
  by (simp_all add: queueInLoop_def)

lemma queueInLoop_in_thread:
  "tid l = cur \<Longrightarrow> \<not> doingPendingTasks l \<Longrightarrow> queueInLoop os cur t l = queueInLoop_push t l"
  by (simp add: queueInLoop_def queueInLoop_wake_def isInLoopThread_def)

lemma EventLoop_while_more:
  "EventLoop_while os alive invoke cur n l = Some r \<Longrightarrow> EventLoop_while os alive invoke cur (n + m) l = Some r"
proof (induction n arbitrary: l)
  case 0
  then show ?case by (cases m) (auto split: if_splits)
next
  case (Suc n)
  then show ?case by (auto split: sum.splits if_splits)
qed

end
