(* ===== verification/EventLoop_Wakeup.thy ===== *)
theory EventLoop_Wakeup
  imports EventLoop
begin

text \<open>
  The hand-over of tasks between threads. Other threads push into \<open>pendingTasks_\<close> under the
  mutex and then write the eventfd; the loop's thread sleeps in \<open>epoll_wait\<close> without timeout,
  consumes the eventfd, swaps the queue out and runs it. Every critical section, every flag
  and every system call is a step of its own, so the threads interleave as they can in the
  program; the steps apply the operations of \<open>EventLoop\<close>.
\<close>

section \<open>Threads\<close>

text \<open>Where the loop's thread is inside \<open>EventLoop::loop\<close> and \<open>doPendingTasks\<close>.\<close>

datatype loop_pc =
    CheckQuit
  | AtPoll
  | Handling
  | AtSwap
  | Swapped "closure list"
  | Running "closure list"
  | Finished

text \<open>Another thread is outside, between push and wakeup of \<open>queueInLoop\<close>, or between the
  assignment and the wakeup of \<open>quit\<close>.\<close>

datatype other_pc = Outside | Pushed | QuitSet

record 'k wsys =
  lp :: "'k EventLoop"
  pc :: loop_pc
  others :: "nat \<Rightarrow> other_pc"
  submitted :: "closure list"
  executed :: "closure list"

text \<open>
  \<open>ev\<close> reads the eventfd counter off the kernel; \<open>net\<close> says whether other descriptors may
  become ready. Handlers and tasks may queue further tasks or quit.
\<close>

inductive wstep :: "'k os \<Rightarrow> ('k \<Rightarrow> nat) \<Rightarrow> bool \<Rightarrow> 'k wsys \<Rightarrow> 'k wsys \<Rightarrow> bool"
  for os :: "'k os" and ev :: "'k \<Rightarrow> nat" and net :: bool
where
  other_push: "others s i = Outside \<Longrightarrow> i \<noteq> tid (lp s) \<Longrightarrow>
    wstep os ev net s (s\<lparr>lp := queueInLoop_push t (lp s), others := (others s)(i := Pushed),
      submitted := submitted s @ [t]\<rparr>)"
| other_wake: "others s i = Pushed \<Longrightarrow>
    wstep os ev net s (s\<lparr>lp := queueInLoop_wake os i (lp s), others := (others s)(i := Outside)\<rparr>)"
| other_quit: "others s i = Outside \<Longrightarrow> i \<noteq> tid (lp s) \<Longrightarrow> \<not> quit (lp s) \<Longrightarrow>
    wstep os ev net s (s\<lparr>lp := (lp s)\<lparr>quit := True\<rparr>, others := (others s)(i := QuitSet)\<rparr>)"
| other_quit_wake: "others s i = QuitSet \<Longrightarrow>
    wstep os ev net s (s\<lparr>lp := EventLoop_wakeup os (lp s), others := (others s)(i := Outside)\<rparr>)"
| check_quit: "pc s = CheckQuit \<Longrightarrow>
    wstep os ev net s (s\<lparr>pc := if quit (lp s) then Finished else AtPoll\<rparr>)"
| poll_wakeup: "pc s = AtPoll \<Longrightarrow> 0 < ev (kernel (lp s)) \<Longrightarrow> wstep os ev net s (s\<lparr>pc := Handling\<rparr>)"
| poll_other: "pc s = AtPoll \<Longrightarrow> net \<Longrightarrow> wstep os ev net s (s\<lparr>pc := Handling\<rparr>)"
| consume: "pc s = Handling \<Longrightarrow> wstep os ev net s (s\<lparr>lp := EventLoop_handleRead os (lp s)\<rparr>)"
| handler_queues: "pc s = Handling \<Longrightarrow>
    wstep os ev net s (s\<lparr>lp := queueInLoop os (tid (lp s)) t (lp s), submitted := submitted s @ [t]\<rparr>)"
| handler_quits: "pc s = Handling \<Longrightarrow> EventLoop_quit os (tid (lp s)) (lp s) = Inr l' \<Longrightarrow>
    wstep os ev net s (s\<lparr>lp := l'\<rparr>)"
| handlers_done: "pc s = Handling \<Longrightarrow> wstep os ev net s (s\<lparr>pc := AtSwap\<rparr>)"
| swap: "pc s = AtSwap \<Longrightarrow>
    wstep os ev net s (s\<lparr>lp := (lp s)\<lparr>pendingTasks := []\<rparr>, pc := Swapped (pendingTasks (lp s))\<rparr>)"
| start_tasks: "pc s = Swapped ts \<Longrightarrow>
    wstep os ev net s (s\<lparr>lp := (lp s)\<lparr>doingPendingTasks := True\<rparr>, pc := Running ts\<rparr>)"
| task_queues: "pc s = Running (t # ts) \<Longrightarrow>
    wstep os ev net s (s\<lparr>lp := queueInLoop os (tid (lp s)) u (lp s), submitted := submitted s @ [u]\<rparr>)"
| task_quits: "pc s = Running (t # ts) \<Longrightarrow> EventLoop_quit os (tid (lp s)) (lp s) = Inr l' \<Longrightarrow>
    wstep os ev net s (s\<lparr>lp := l'\<rparr>)"
| task_done: "pc s = Running (t # ts) \<Longrightarrow>
    wstep os ev net s (s\<lparr>pc := Running ts, executed := executed s @ [t]\<rparr>)"
| tasks_done: "pc s = Running [] \<Longrightarrow>
    wstep os ev net s (s\<lparr>lp := (lp s)\<lparr>doingPendingTasks := False\<rparr>, pc := CheckQuit\<rparr>)"

text \<open>
  eventfd(2): a write makes the counter positive (it fails with EAGAIN only when the counter
  is at its maximum). The loop starts with \<open>quit_\<close> just cleared and nothing queued.
\<close>

definition eventfd_spec :: "'k os \<Rightarrow> int \<Rightarrow> ('k \<Rightarrow> nat) \<Rightarrow> bool" where
  "eventfd_spec os fd ev \<longleftrightarrow> (\<forall>k. 0 < ev (snd (sys_write os fd (le_bytes 8 (1 :: 64 word)) k)))"

definition wstart :: "'k os \<Rightarrow> ('k \<Rightarrow> nat) \<Rightarrow> 'k wsys \<Rightarrow> bool" where
  "wstart os ev s \<longleftrightarrow> eventfd_spec os (wakeupfd (lp s)) ev \<and> pc s = CheckQuit \<and> \<not> quit (lp s) \<and>
     pendingTasks (lp s) = [] \<and> \<not> doingPendingTasks (lp s) \<and> submitted s = [] \<and> executed s = [] \<and>
     others s = (\<lambda>_. Outside)"

section \<open>Invariant\<close>

fun in_flight :: "loop_pc \<Rightarrow> closure list" where
  "in_flight (Swapped ts) = ts"
| "in_flight (Running ts) = ts"
| "in_flight _ = []"

fun is_running :: "loop_pc \<Rightarrow> bool" where
  "is_running (Running ts) = True"
| "is_running _ = False"

definition wake_due :: "('k \<Rightarrow> nat) \<Rightarrow> 'k wsys \<Rightarrow> other_pc \<Rightarrow> bool" where
  "wake_due ev s who \<longleftrightarrow> 0 < ev (kernel (lp s)) \<or> (\<exists>i. others s i = who)"

definition winv :: "'k os \<Rightarrow> ('k \<Rightarrow> nat) \<Rightarrow> 'k wsys \<Rightarrow> bool" where
  "winv os ev s \<longleftrightarrow> eventfd_spec os (wakeupfd (lp s)) ev \<and>
     others s (tid (lp s)) = Outside \<and>
     (doingPendingTasks (lp s) \<longleftrightarrow> is_running (pc s)) \<and>
     executed s @ in_flight (pc s) @ pendingTasks (lp s) = submitted s \<and>
     (pendingTasks (lp s) \<noteq> [] \<longrightarrow> wake_due ev s Pushed \<or> pc s = Handling \<or> pc s = AtSwap) \<and>
     (quit (lp s) \<longrightarrow> wake_due ev s QuitSet \<or> pc s \<noteq> AtPoll)"

lemma wakeup_positive:
  "eventfd_spec os (wakeupfd l) ev \<Longrightarrow> 0 < ev (kernel (EventLoop_wakeup os l))"
  by (simp add: eventfd_spec_def EventLoop_wakeup_def sys_def case_prod_beta)

lemma queueInLoop_kernel:
  "kernel (queueInLoop os cur t l) =
    (if tid l \<noteq> cur \<or> doingPendingTasks l then kernel (EventLoop_wakeup os (queueInLoop_push t l)) else kernel l)"
  by (simp add: queueInLoop_def queueInLoop_wake_def isInLoopThread_def)

lemma EventLoop_quit_in_thread:
  "EventLoop_quit os (tid l) l = Inr l' \<Longrightarrow> l' = l\<lparr>quit := True\<rparr> \<and> \<not> quit l"
  by (auto simp: EventLoop_quit_def rbind_eq_Inr isInLoopThread_def Let_def)

lemma wake_due_mono:
  assumes "wake_due ev s who" "kernel (lp s') = kernel (lp s)"
    and "others s i = Outside" "who \<noteq> Outside" "others s' = (others s)(i := x)"
  shows "wake_due ev s' who"
  using assms unfolding wake_due_def by (metis fun_upd_other)

lemma winv_step_other:
  assumes inv: "winv os ev s" and step: "wstep os ev net s t"
    and other: "\<exists>i. others t \<noteq> others s"
  shows "winv os ev t"
  using step other
proof cases
  case (other_push i a)
  have "wake_due ev t QuitSet" if "wake_due ev s QuitSet"
    using wake_due_mono[OF that, of t i Pushed] other_push by simp
  moreover have "wake_due ev t Pushed" using other_push by (auto simp: wake_due_def)
  ultimately show ?thesis using inv other_push by (auto simp: winv_def)
next
  case (other_wake i)
  then have "0 < ev (kernel (lp t))"
    using inv wakeup_positive[of os "lp s" ev]
    by (auto simp: winv_def queueInLoop_wake_def isInLoopThread_def)
  then show ?thesis using inv other_wake by (auto simp: winv_def wake_due_def)
next
  case (other_quit i)
  have "wake_due ev t Pushed" if "wake_due ev s Pushed"
    using wake_due_mono[OF that, of t i QuitSet] other_quit by simp
  moreover have "wake_due ev t QuitSet" using other_quit by (auto simp: wake_due_def)
  ultimately show ?thesis using inv other_quit by (auto simp: winv_def)
next
  case (other_quit_wake i)
  then have "0 < ev (kernel (lp t))"
    using inv wakeup_positive[of os "lp s" ev] by (simp add: winv_def)
  then show ?thesis using inv other_quit_wake by (auto simp: winv_def wake_due_def)
qed simp_all

lemma wake_due_same: "kernel (lp t) = kernel (lp s) \<Longrightarrow> others t = others s \<Longrightarrow> wake_due ev t who = wake_due ev s who"
  by (simp add: wake_due_def)

lemma winv_step_loop:
  assumes inv: "winv os ev s" and step: "wstep os ev net s t" and own: "others t = others s"
  shows "winv os ev t"
  using step own
proof cases
  case (handler_queues u)
  then have "kernel (lp t) = kernel (lp s)"
    using inv by (simp add: winv_def queueInLoop_kernel)
  then show ?thesis using inv handler_queues wake_due_same[of t s ev] by (simp add: winv_def)
next
  case (task_queues u ts v)
  then have "0 < ev (kernel (lp t))"
    using inv wakeup_positive[of os "queueInLoop_push v (lp s)" ev]
    by (simp add: winv_def queueInLoop_kernel)
  then show ?thesis using inv task_queues by (simp add: winv_def wake_due_def)
next
  case (handler_quits l')
  then have "l' = (lp s)\<lparr>quit := True\<rparr>" using EventLoop_quit_in_thread by blast
  then show ?thesis using inv handler_quits by (simp add: winv_def wake_due_def)
next
  case (task_quits u ts l')
  then have "l' = (lp s)\<lparr>quit := True\<rparr>" using EventLoop_quit_in_thread by blast
  then show ?thesis using inv task_quits by (simp add: winv_def wake_due_def)
next
  case consume
  then show ?thesis using inv by (simp add: winv_def)
next
  case (other_wake i)
  then show ?thesis using fun_cong[OF own, of i] by simp
next
  case (other_quit_wake i)
  then show ?thesis using fun_cong[OF own, of i] by simp
qed (use inv in \<open>auto simp: winv_def wake_due_def fun_eq_iff split: if_splits\<close>)

lemma winv_step: "winv os ev s \<Longrightarrow> wstep os ev net s t \<Longrightarrow> winv os ev t"
  using winv_step_other winv_step_loop by metis

interpretation wake: inductive_invariant "wstart os ev" "wstep os ev net" "winv os ev" for os ev net
proof unfold_locales
  show "winv os ev s" if "wstart os ev s" for s
    using that by (simp add: wstart_def winv_def)
  show "winv os ev t" if "winv os ev s" "wstep os ev net s t" for s t
    using that by (rule winv_step)
qed

section \<open>Progress\<close>

text \<open>The loop's thread alone finishes the tasks it has taken and comes round to the test.\<close>

lemma run_tasks:
  assumes "pc s = Running ts"
  shows "(wstep os ev net)\<^sup>*\<^sup>* s (s\<lparr>lp := (lp s)\<lparr>doingPendingTasks := False\<rparr>, pc := CheckQuit,
    executed := executed s @ ts\<rparr>)"
  using assms
proof (induction ts arbitrary: s)
  case Nil
  have "wstep os ev net s (s\<lparr>lp := (lp s)\<lparr>doingPendingTasks := False\<rparr>, pc := CheckQuit\<rparr>)"
    using Nil by (rule tasks_done)
  moreover have "s\<lparr>lp := (lp s)\<lparr>doingPendingTasks := False\<rparr>, pc := CheckQuit, executed := executed s @ []\<rparr>
      = s\<lparr>lp := (lp s)\<lparr>doingPendingTasks := False\<rparr>, pc := CheckQuit\<rparr>" by simp
  ultimately show ?case by (simp only: r_into_rtranclp)
next
  case (Cons t ts)
  let ?s1 = "s\<lparr>pc := Running ts, executed := executed s @ [t]\<rparr>"
  have "wstep os ev net s ?s1" using Cons.prems by (rule task_done)
  then show ?case using Cons.IH[of ?s1] by (simp add: converse_rtranclp_into_rtranclp)
qed

lemma from_swap:
  assumes "pc s = AtSwap"
  shows "(wstep os ev net)\<^sup>*\<^sup>* s (s\<lparr>lp := (lp s)\<lparr>pendingTasks := [], doingPendingTasks := False\<rparr>,
    pc := CheckQuit, executed := executed s @ pendingTasks (lp s)\<rparr>)"
proof -
  let ?ts = "pendingTasks (lp s)"
  let ?s1 = "s\<lparr>lp := (lp s)\<lparr>pendingTasks := []\<rparr>, pc := Swapped ?ts\<rparr>"
  let ?s2 = "?s1\<lparr>lp := (lp ?s1)\<lparr>doingPendingTasks := True\<rparr>, pc := Running ?ts\<rparr>"
  have "wstep os ev net s ?s1" using assms by (rule swap)
  moreover have "wstep os ev net ?s1 ?s2" by (rule start_tasks) simp
  moreover have "(wstep os ev net)\<^sup>*\<^sup>* ?s2 (?s2\<lparr>lp := (lp ?s2)\<lparr>doingPendingTasks := False\<rparr>,
      pc := CheckQuit, executed := executed ?s2 @ ?ts\<rparr>)"
    by (rule run_tasks) simp
  ultimately show ?thesis by (simp add: converse_rtranclp_into_rtranclp)
qed

lemma from_handling:
  assumes "pc s = Handling"
  shows "(wstep os ev net)\<^sup>*\<^sup>* s (s\<lparr>lp := (lp s)\<lparr>pendingTasks := [], doingPendingTasks := False\<rparr>,
    pc := CheckQuit, executed := executed s @ pendingTasks (lp s)\<rparr>)"
proof -
  have "wstep os ev net s (s\<lparr>pc := AtSwap\<rparr>)" using assms by (rule handlers_done)
  then show ?thesis using from_swap[of "s\<lparr>pc := AtSwap\<rparr>"] by (simp add: converse_rtranclp_into_rtranclp)
qed

text \<open>From \<open>epoll_wait\<close> with tasks pending, a wakeup that is due gets them all executed.\<close>

lemma from_poll:
  assumes inv: "winv os ev s" and at: "pc s = AtPoll" and pend: "pendingTasks (lp s) \<noteq> []"
  shows "\<exists>s'. (wstep os ev net)\<^sup>*\<^sup>* s s' \<and> executed s' = submitted s"
proof -
  have all: "executed s @ pendingTasks (lp s) = submitted s" using inv at by (simp add: winv_def)
  have go: "\<exists>s'. (wstep os ev net)\<^sup>*\<^sup>* u s' \<and> executed s' = executed u @ pendingTasks (lp u)"
    if "pc u = AtPoll" "0 < ev (kernel (lp u))" for u
  proof -
    have "wstep os ev net u (u\<lparr>pc := Handling\<rparr>)" using that by (rule poll_wakeup)
    then show ?thesis using from_handling[of "u\<lparr>pc := Handling\<rparr>" os ev net]
      by (metis (no_types, lifting) converse_rtranclp_into_rtranclp wsys.select_convs(1,2,5)
          wsys.surjective wsys.update_convs(1,2,5))
  qed
  show ?thesis
  proof (cases "0 < ev (kernel (lp s))")
    case True
    then show ?thesis using go[OF at] all by simp
  next
    case False
    then obtain i where i: "others s i = Pushed"
      using inv at pend by (auto simp: winv_def wake_due_def)
    let ?u = "s\<lparr>lp := queueInLoop_wake os i (lp s), others := (others s)(i := Outside)\<rparr>"
    have st: "wstep os ev net s ?u" using i by (rule other_wake)
    have "0 < ev (kernel (lp ?u))"
      using inv i wakeup_positive[of os "lp s" ev]
      by (auto simp: winv_def queueInLoop_wake_def isInLoopThread_def)
    then show ?thesis
      using go[of ?u] at all st by (auto intro: converse_rtranclp_into_rtranclp)
  qed
qed

lemma from_check:
  assumes inv: "winv os ev s" and at: "pc s = CheckQuit" and run: "\<not> quit (lp s)"
  shows "\<exists>s'. (wstep os ev net)\<^sup>*\<^sup>* s s' \<and> executed s' = submitted s"
proof (cases "pendingTasks (lp s) = []")
  case True
  then have "executed s = submitted s" using inv at by (simp add: winv_def)
  then show ?thesis by blast
next
  case False
  have st: "wstep os ev net s (s\<lparr>pc := AtPoll\<rparr>)" using check_quit[OF at] run by simp
  then show ?thesis
    using from_poll[OF winv_step[OF inv st], of net] False
    by (auto intro: converse_rtranclp_into_rtranclp)
qed

lemma from_running:
  assumes inv: "winv os ev s" and at: "pc s = Running ts" and run: "\<not> quit (lp s)"
  shows "\<exists>s'. (wstep os ev net)\<^sup>*\<^sup>* s s' \<and> executed s' = submitted s"
proof -
  let ?u = "s\<lparr>lp := (lp s)\<lparr>doingPendingTasks := False\<rparr>, pc := CheckQuit, executed := executed s @ ts\<rparr>"
  have su: "(wstep os ev net)\<^sup>*\<^sup>* s ?u" using at by (rule run_tasks)
  then have "winv os ev ?u" using wake.invariant_rtranclp[OF inv] by blast
  then obtain s' where "(wstep os ev net)\<^sup>*\<^sup>* ?u s'" "executed s' = submitted ?u"
    using from_check[of os ev ?u net] run by auto
  then show ?thesis using su by (auto intro: rtranclp_trans)
qed

lemma all_executed:
  assumes inv: "winv os ev s" and run: "\<not> quit (lp s)" and alive: "pc s \<noteq> Finished"
  shows "\<exists>s'. (wstep os ev net)\<^sup>*\<^sup>* s s' \<and> executed s' = submitted s"
proof (cases "pc s")
  case AtPoll
  then have "pendingTasks (lp s) = [] \<Longrightarrow> executed s = submitted s" using inv by (simp add: winv_def)
  then show ?thesis using from_poll[OF inv AtPoll, of net] by blast
next
  case (Swapped ts)
  let ?u = "s\<lparr>lp := (lp s)\<lparr>doingPendingTasks := True\<rparr>, pc := Running ts\<rparr>"
  have st: "wstep os ev net s ?u" using Swapped by (rule start_tasks)
  then show ?thesis
    using from_running[OF winv_step[OF inv st], of ts net] run
    by (auto intro: converse_rtranclp_into_rtranclp)
next
  case Handling
  then have all: "executed s @ pendingTasks (lp s) = submitted s" using inv by (simp add: winv_def)
  show ?thesis by (rule exI, rule conjI[OF from_handling[OF Handling]]) (simp add: all)
next
  case AtSwap
  then have all: "executed s @ pendingTasks (lp s) = submitted s" using inv by (simp add: winv_def)
  show ?thesis by (rule exI, rule conjI[OF from_swap[OF AtSwap]]) (simp add: all)
qed (use from_check[OF inv _ run] from_running[OF inv _ run] alive in auto)

section \<open>Properties\<close>

text \<open>
  C5. No wake-up is lost. However the threads interleave, in every state the loop reaches the
  tasks executed so far, those the loop has taken and those still queued are exactly the tasks
  submitted, in the order of submission; and whenever the loop sleeps in \<open>epoll_wait\<close> while a
  task is pending or \<open>quit\<close> was requested, the eventfd is already readable or another thread
  is about to write it.
\<close>

theorem no_lost_wakeup:
  assumes "reach (wstart os ev) (wstep os ev True) s"
  shows "executed s @ in_flight (pc s) @ pendingTasks (lp s) = submitted s
    \<and> (pc s = AtPoll \<and> (pendingTasks (lp s) \<noteq> [] \<or> quit (lp s)) \<longrightarrow>
        0 < ev (kernel (lp s)) \<or> (\<exists>i. others s i \<noteq> Outside))"
  using wake.invariant_reach[OF assms] by (fastforce simp: winv_def wake_due_def)

text \<open>A kernel whose eventfd counter is the room of the sample kernel.\<close>

definition wake_os :: "sample_kernel os" where
  "wake_os = sample_os\<lparr>sys_write := (\<lambda>fd data k. (Inr 8, k\<lparr>sk_room := Suc (sk_room k)\<rparr>)),
     sys_read := (\<lambda>fd n k. (Inr (replicate n 0), k\<lparr>sk_room := 0\<rparr>))\<rparr>"

definition wake_start :: "sample_kernel wsys" where
  "wake_start = \<lparr>lp = sample_loop\<lparr>kernel := sample_state\<lparr>sk_room := 0\<rparr>\<rparr>, pc = CheckQuit,
     others = (\<lambda>_. Outside), submitted = [], executed = []\<rparr>"

definition wake_pushed :: "sample_kernel wsys" where
  "wake_pushed = wake_start\<lparr>pc := AtPoll, lp := queueInLoop_push (User_fn 7) (lp wake_start),
     others := (\<lambda>_. Outside)(2 := Pushed), submitted := [User_fn 7]\<rparr>"

lemma wake_pushed_reachable: "reach (wstart wake_os sk_room) (wstep wake_os sk_room True) wake_pushed"
proof -
  let ?s1 = "wake_start\<lparr>pc := AtPoll\<rparr>"
  have "wstart wake_os sk_room wake_start"
    by (simp add: wstart_def wake_start_def sample_loop_def eventfd_spec_def wake_os_def)
  then have "reach (wstart wake_os sk_room) (wstep wake_os sk_room True) wake_start" by (rule reach_start)
  moreover have "wstep wake_os sk_room True wake_start ?s1"
    using check_quit[of wake_start wake_os sk_room True] by (simp add: wake_start_def sample_loop_def)
  moreover have "wstep wake_os sk_room True ?s1 wake_pushed"
    using other_push[of ?s1 2 wake_os sk_room True "User_fn 7"]
    by (simp add: wake_start_def wake_pushed_def sample_loop_def)
  ultimately show ?thesis by (blast intro: reach_step)
qed

theorem no_lost_wakeup_witness:
  "pc wake_pushed = AtPoll \<and> pendingTasks (lp wake_pushed) = [User_fn 7]
    \<and> (0 < sk_room (kernel (lp wake_pushed)) \<or> (\<exists>i. others wake_pushed i \<noteq> Outside))"
proof -
  have "pc wake_pushed = AtPoll" "pendingTasks (lp wake_pushed) = [User_fn 7]"
    by (simp_all add: wake_pushed_def wake_start_def sample_loop_def)
  then show ?thesis using no_lost_wakeup[OF wake_pushed_reachable] by simp
qed

text \<open>
  C6. Every submitted task can run without help from the network: from every reachable state
  in which the loop has not finished and nobody asked it to quit, the threads can go on, with
  no descriptor but the eventfd ever becoming ready, to a state in which all tasks submitted
  so far have been executed, in order.
\<close>

theorem submitted_tasks_execute:
  assumes "reach (wstart os ev) (wstep os ev True) s" and "\<not> quit (lp s)" and "pc s \<noteq> Finished"
  shows "\<exists>s'. (wstep os ev False)\<^sup>*\<^sup>* s s' \<and> executed s' = submitted s"
  using all_executed[OF wake.invariant_reach[OF assms(1)] assms(2,3)] .

theorem submitted_tasks_execute_witness:
  "\<exists>s'. (wstep wake_os sk_room False)\<^sup>*\<^sup>* wake_pushed s' \<and> executed s' = [User_fn 7]"
  using submitted_tasks_execute[OF wake_pushed_reachable]
  by (simp add: wake_pushed_def wake_start_def sample_loop_def)

end
