(* ===== verification/Ordered_Set.thy ===== *)
theory Ordered_Set
  imports Prelude
begin

text \<open>
  \<open>std::set\<close> as the timer queue uses it: its elements in iteration order are a strictly
  ascending list. The contract of the operations is a locale, with the lemmas clients need;
  the list functions below provide it.
\<close>

fun set_insert :: "'a::linorder \<Rightarrow> 'a list \<Rightarrow> bool \<times> 'a list" where
  "set_insert x [] = (True, [x])"
| "set_insert x (y # ys) =
     (if x < y then (True, x # y # ys)
      else if x = y then (False, y # ys)
      else let (new, zs) = set_insert x ys in (new, y # zs))"

fun set_erase :: "'a \<Rightarrow> 'a list \<Rightarrow> 'a list" where
  "set_erase x [] = []"
| "set_erase x (y # ys) = (if x = y then ys else y # set_erase x ys)"

text \<open>The elements before \<open>lower_bound(x)\<close>, and the set once they are erased.\<close>

definition set_cut :: "'a::linorder \<Rightarrow> 'a list \<Rightarrow> 'a list \<times> 'a list" where
  "set_cut x xs = (takeWhile (\<lambda>y. y < x) xs, dropWhile (\<lambda>y. y < x) xs)"

locale ordered_set =
  fixes invar :: "'s \<Rightarrow> bool"
    and elems :: "'s \<Rightarrow> 'a::linorder list"
    and ins :: "'a \<Rightarrow> 's \<Rightarrow> bool \<times> 's"
    and era :: "'a \<Rightarrow> 's \<Rightarrow> 's"
    and cut :: "'a \<Rightarrow> 's \<Rightarrow> 'a list \<times> 's"
  assumes elems_sorted: "invar s \<Longrightarrow> sorted_wrt (<) (elems s)"
    and ins_invar: "invar s \<Longrightarrow> invar (snd (ins x s))"
    and ins_elems: "invar s \<Longrightarrow> set (elems (snd (ins x s))) = insert x (set (elems s))"
    and ins_new: "invar s \<Longrightarrow> fst (ins x s) \<longleftrightarrow> x \<notin> set (elems s)"
    and era_invar: "invar s \<Longrightarrow> invar (era x s)"
    and era_elems: "invar s \<Longrightarrow> set (elems (era x s)) = set (elems s) - {x}"
    and cut_invar: "invar s \<Longrightarrow> invar (snd (cut x s))"
    and cut_append: "invar s \<Longrightarrow> fst (cut x s) @ elems (snd (cut x s)) = elems s"
    and cut_below: "invar s \<Longrightarrow> y \<in> set (fst (cut x s)) \<Longrightarrow> y < x"
    and cut_above: "invar s \<Longrightarrow> y \<in> set (elems (snd (cut x s))) \<Longrightarrow> x \<le> y"
begin

lemma first_least: "invar s \<Longrightarrow> elems s = y # ys \<Longrightarrow> z \<in> set (elems s) \<Longrightarrow> y \<le> z"
  using elems_sorted[of s] by auto

lemma cut_sets:
  assumes "invar s"
  shows "set (fst (cut x s)) = {y \<in> set (elems s). y < x}"
    and "set (elems (snd (cut x s))) = {y \<in> set (elems s). x \<le> y}"
proof -
  have u: "set (elems s) = set (fst (cut x s)) \<union> set (elems (snd (cut x s)))"
    using arg_cong[OF cut_append[OF assms, of x], of set] by simp
  have b: "\<forall>y \<in> set (fst (cut x s)). y < x" using cut_below[OF assms] by blast
  have a: "\<forall>y \<in> set (elems (snd (cut x s))). \<not> y < x"
    using cut_above[OF assms] by (auto dest: leD)
  show "set (fst (cut x s)) = {y \<in> set (elems s). y < x}"
    using u a b by blast
  show "set (elems (snd (cut x s))) = {y \<in> set (elems s). x \<le> y}"
    using u a b by (auto simp: not_less)
qed

lemma cut_sorted: "invar s \<Longrightarrow> sorted_wrt (<) (fst (cut x s))"
  using cut_append[of s x] elems_sorted[of s] by (metis sorted_wrt_append)

text \<open>An inserted element is the first exactly when nothing in the set is smaller.\<close>

lemma ins_first:
  assumes "invar s"
  shows "(\<exists>ys. elems (snd (ins x s)) = x # ys) \<longleftrightarrow> (\<forall>y \<in> set (elems s). x \<le> y)"
proof
  assume "\<exists>ys. elems (snd (ins x s)) = x # ys"
  then show "\<forall>y \<in> set (elems s). x \<le> y"
    using first_least[OF ins_invar[OF assms]] ins_elems[OF assms] by blast
next
  assume le: "\<forall>y \<in> set (elems s). x \<le> y"
  obtain y ys where y: "elems (snd (ins x s)) = y # ys"
    using ins_elems[OF assms, of x] by (cases "elems (snd (ins x s))") auto
  have x: "x \<in> set (elems (snd (ins x s)))" by (simp add: ins_elems[OF assms])
  have "y \<le> x" by (rule first_least[OF ins_invar[OF assms] y x])
  moreover have "y \<in> insert x (set (elems s))"
    unfolding ins_elems[OF assms, symmetric] y by simp
  then have "x \<le> y" using le by auto
  ultimately show "\<exists>ys. elems (snd (ins x s)) = x # ys" using y by auto
qed

end

lemma set_set_insert: "set (snd (set_insert x xs)) = insert x (set xs)"
  by (induction x xs rule: set_insert.induct) (auto simp: case_prod_beta Let_def)

lemma sorted_set_insert: "sorted_wrt (<) xs \<Longrightarrow> sorted_wrt (<) (snd (set_insert x xs))"
proof (induction x xs rule: set_insert.induct)
  case (2 x y ys)
  then show ?case using set_set_insert[of x ys] by (auto simp: case_prod_beta Let_def)
qed simp

lemma set_insert_new: "sorted_wrt (<) xs \<Longrightarrow> fst (set_insert x xs) \<longleftrightarrow> x \<notin> set xs"
proof (induction x xs rule: set_insert.induct)
  case (2 x y ys)
  then show ?case by (auto simp: case_prod_beta Let_def)
qed simp

lemma set_set_erase: "sorted_wrt (<) (xs :: 'a::linorder list) \<Longrightarrow> set (set_erase x xs) = set xs - {x}"
proof (induction x xs rule: set_erase.induct)
  case (2 x y ys)
  then have "\<forall>z \<in> set ys. y < z" by simp
  then have "y \<notin> set ys" using less_irrefl by blast
  then show ?case using 2 by (cases "x = y") auto
qed simp

lemma sorted_set_erase: "sorted_wrt (<) (xs :: 'a::linorder list) \<Longrightarrow> sorted_wrt (<) (set_erase x xs)"
  by (induction x xs rule: set_erase.induct) (auto simp: set_set_erase)

lemma dropWhile_above: "sorted_wrt (<) xs \<Longrightarrow> y \<in> set (dropWhile (\<lambda>y. y < x) xs) \<Longrightarrow> x \<le> (y :: 'a::linorder)"
  by (induction xs) (auto split: if_splits)

interpretation lset: ordered_set "sorted_wrt (<)" "\<lambda>xs. xs :: 'a::linorder list" set_insert set_erase set_cut
proof unfold_locales
  fix s :: "'a list" and x y :: 'a
  assume inv: "sorted_wrt (<) s"
  show "sorted_wrt (<) (snd (set_cut x s))"
    using inv by (simp add: set_cut_def sorted_wrt_dropWhile)
  show "y < x" if "y \<in> set (fst (set_cut x s))"
    using that by (auto simp: set_cut_def dest: set_takeWhileD)
  show "x \<le> y" if "y \<in> set (snd (set_cut x s))"
    using that dropWhile_above[OF inv] by (simp add: set_cut_def)
qed (auto simp: set_cut_def set_set_insert sorted_set_insert set_insert_new set_set_erase sorted_set_erase)

end
