(* ===== verification/TimerQueue.thy ===== *)
theory TimerQueue
  imports Ordered_Set EventLoop "HOL-Library.Product_Lexorder"
begin

text \<open>
  Timers: \<open>Timestamp.hpp\<close>, \<open>Timer.hpp\<close>, \<open>TimerQueue.cc\<close> and the timer operations and the
  constructor of \<open>EventLoop\<close>. One timerfd serves all timers of a loop: \<open>timers_\<close> is the
  \<open>std::set\<close> of pairs (expiry, timer), in lexicographic order. A timer is reached through its
  address in \<open>timer_heap\<close>; \<open>delete\<close> removes it, so that a later access is a fault. Time points
  are nanoseconds in an \<open>int64_t\<close>.
\<close>

section \<open>Timestamp\<close>

definition nowAfter :: "'k os \<Rightarrow> int \<Rightarrow> ('k, 'z) EventLoop_scheme \<Rightarrow> int result \<times> ('k, 'z) EventLoop_scheme" where
  "nowAfter os interval l = (let (t, l1) = sys (sys_clock_now os) l in (int64_add t interval, l1))"

definition nowBefore :: "'k os \<Rightarrow> int \<Rightarrow> ('k, 'z) EventLoop_scheme \<Rightarrow> int result \<times> ('k, 'z) EventLoop_scheme" where
  "nowBefore os interval l = (let (t, l1) = sys (sys_clock_now os) l in (int64_sub t interval, l1))"

section \<open>Timer\<close>

definition Timer_new :: "closure option \<Rightarrow> int \<Rightarrow> int \<Rightarrow> Timer" where
  "Timer_new callback when interval = \<lparr>tm_callback = callback, tm_when = when,
     tm_interval = interval, tm_repeat = (interval > 0), tm_canceled = False\<rparr>"

definition Timer_run ::
  "(closure \<Rightarrow> ('k, 'z) EventLoop_scheme \<Rightarrow> ('k, 'z) EventLoop_scheme result) \<Rightarrow> Timer \<Rightarrow>
   ('k, 'z) EventLoop_scheme \<Rightarrow> ('k, 'z) EventLoop_scheme result"
where
  "Timer_run invoke t l = (case tm_callback t of None \<Rightarrow> Inr l | Some f \<Rightarrow> invoke f l)"

definition Timer_expired :: "int \<Rightarrow> Timer \<Rightarrow> bool" where
  "Timer_expired now t \<longleftrightarrow> now \<ge> tm_when t"

definition Timer_restart :: "Timer \<Rightarrow> Timer result" where
  "Timer_restart t =
     rbind (ensure (tm_repeat t) AssertFailed) (\<lambda>_.
     rbind (int64_add (tm_when t) (tm_interval t)) (\<lambda>w. Inr (t\<lparr>tm_when := w\<rparr>)))"

definition Timer_cancel :: "Timer \<Rightarrow> Timer result" where
  "Timer_cancel t = rbind (ensure (\<not> tm_canceled t) AssertFailed) (\<lambda>_. Inr (t\<lparr>tm_canceled := True\<rparr>))"

section \<open>The timerfd\<close>

definition timerfdRead :: "'k os \<Rightarrow> ('k, 'z) EventLoop_scheme \<Rightarrow> ('k, 'z) EventLoop_scheme" where
  "timerfdRead os l = snd (sys (sys_read os (timerfd (timerQueue l)) 8) l)"

text \<open>
  \<open>durationFromNow\<close>: at least a millisecond from now, in seconds and nanoseconds. The
  duration is positive, so the truncating \<open>/\<close> and \<open>%\<close> of C++ are \<open>div\<close> and \<open>mod\<close>.
\<close>

definition durationFromNow ::
  "'k os \<Rightarrow> int \<Rightarrow> ('k, 'z) EventLoop_scheme \<Rightarrow> ((int \<times> int) \<times> ('k, 'z) EventLoop_scheme) result"
where
  "durationFromNow os when l =
     (let (now, l1) = sys (sys_clock_now os) l
      in rbind (int64_sub when now) (\<lambda>d.
         let ns = (if d < 1000000 then 1000000 else d)
         in Inr ((ns div 1000000000, ns mod 1000000000), l1)))"

definition timerfdSet ::
  "'k os \<Rightarrow> int \<Rightarrow> ('k, 'z) EventLoop_scheme \<Rightarrow> ('k, 'z) EventLoop_scheme result"
where
  "timerfdSet os when l =
     rbind (durationFromNow os when l) (\<lambda>((tv_sec, tv_nsec), l1).
     Inr (snd (sys (sys_timerfd_settime os (timerfd (timerQueue l1)) tv_sec tv_nsec) l1)))"

section \<open>TimerQueue\<close>

definition set_timers :: "(int \<times> nat) list \<Rightarrow> ('k, 'z) EventLoop_scheme \<Rightarrow> ('k, 'z) EventLoop_scheme" where
  "set_timers ts l = l\<lparr>timerQueue := (timerQueue l)\<lparr>timers := ts\<rparr>\<rparr>"

definition put_timer :: "nat \<Rightarrow> Timer \<Rightarrow> ('k, 'z) EventLoop_scheme \<Rightarrow> ('k, 'z) EventLoop_scheme" where
  "put_timer p t l = l\<lparr>timer_heap := (timer_heap l)(p \<mapsto> t)\<rparr>"

definition delete_timer :: "nat \<Rightarrow> ('k, 'z) EventLoop_scheme \<Rightarrow> ('k, 'z) EventLoop_scheme" where
  "delete_timer p l = l\<lparr>timer_heap := (timer_heap l)(p := None)\<rparr>"

text \<open>
  The constructor gets the descriptor of \<open>timerfd_create\<close> (an abort when it is -1); its
  channel is the one at address \<open>timerChannel\<close>.
\<close>

definition TimerQueue_new ::
  "'k os \<Rightarrow> nat \<Rightarrow> int \<Rightarrow> ('k, 'z) EventLoop_scheme \<Rightarrow> ('k, 'z) EventLoop_scheme result"
where
  "TimerQueue_new os cur fd l =
     rbind (ensure (fd \<noteq> -1) Aborted) (\<lambda>_.
     let c = timerChannel (timerQueue l);
         l1 = put_channel c (Channel_new fd) (l\<lparr>timerQueue := \<lparr>timerfd = fd, timerChannel = c, timers = []\<rparr>\<rparr>)
     in rbind (assertInLoopThread cur l1) (\<lambda>_.
        rbind (modify_channel c (setReadCallback TimerQueue_handleRead_fn) l1)
          (enableRead os cur c)))"

text \<open>The destructor deletes every timer of the set, closes the descriptor, and the channel goes.\<close>

definition TimerQueue_delete_entry ::
  "int \<times> nat \<Rightarrow> ('k, 'z) EventLoop_scheme \<Rightarrow> ('k, 'z) EventLoop_scheme result"
where
  "TimerQueue_delete_entry = (\<lambda>(w, p) l.
     rbind (deref (timer_heap l) p) (\<lambda>_. Inr (delete_timer p l)))"

definition TimerQueue_destroy ::
  "'k os \<Rightarrow> ('k, 'z) EventLoop_scheme \<Rightarrow> ('k, 'z) EventLoop_scheme result"
where
  "TimerQueue_destroy os l =
     rbind (rfold TimerQueue_delete_entry (timers (timerQueue l)) l) (\<lambda>l1.
     Channel_destroy (timerChannel (timerQueue l1))
       (set_timers [] (snd (sys (sys_close os (timerfd (timerQueue l1))) l1))))"

text \<open>The lambda of \<open>addTimer\<close>; \<open>p\<close> is the address \<open>new Timer\<close> returned, which \<open>addTimer\<close> returns.\<close>

definition TimerQueue_insert ::
  "'k os \<Rightarrow> int \<Rightarrow> nat \<Rightarrow> ('k, 'z) EventLoop_scheme \<Rightarrow> ('k, 'z) EventLoop_scheme result"
where
  "TimerQueue_insert os when p l =
     (let (new, ts) = set_insert (when, p) (timers (timerQueue l)); l1 = set_timers ts l
      in rbind (ensure new AssertFailed) (\<lambda>_.
         if hd ts = (when, p) then timerfdSet os when l1 else Inr l1))"

definition addTimer ::
  "'k os \<Rightarrow> nat \<Rightarrow> nat \<Rightarrow> closure option \<Rightarrow> int \<Rightarrow> int \<Rightarrow>
   ('k, 'z) EventLoop_scheme \<Rightarrow> ('k, 'z) EventLoop_scheme result"
where
  "addTimer os cur p callback when interval l =
     runInLoop os cur (\<lambda>_. TimerQueue_insert os when p) (TimerQueue_insert_fn when p)
       (put_timer p (Timer_new callback when interval) l)"

definition TimerQueue_cancel ::
  "nat \<Rightarrow> ('k, 'z) EventLoop_scheme \<Rightarrow> ('k, 'z) EventLoop_scheme result"
where
  "TimerQueue_cancel p l =
     rbind (deref (timer_heap l) p) (\<lambda>t.
     rbind (Timer_cancel t) (\<lambda>t1.
     Inr (delete_timer p (set_timers (set_erase (tm_when t1, p) (timers (timerQueue l)))
       (put_timer p t1 l)))))"

definition TimerQueue_cancelTimer ::
  "'k os \<Rightarrow> nat \<Rightarrow> nat \<Rightarrow> ('k, 'z) EventLoop_scheme \<Rightarrow> ('k, 'z) EventLoop_scheme result"
where
  "TimerQueue_cancelTimer os cur p =
     runInLoop os cur (\<lambda>_. TimerQueue_cancel p) (TimerQueue_cancel_fn p)"

definition getExpired ::
  "int \<Rightarrow> ('k, 'z) EventLoop_scheme \<Rightarrow> ((int \<times> nat) list \<times> ('k, 'z) EventLoop_scheme) result"
where
  "getExpired now l =
     rbind (int64_add now 1) (\<lambda>w.
     let (ret, rest) = set_cut (w, 0) (timers (timerQueue l)) in Inr (ret, set_timers rest l))"

text \<open>One round of the loop in \<open>handleRead\<close>. The timer is read again after its callback ran.\<close>

definition TimerQueue_fire ::
  "(closure \<Rightarrow> ('k, 'z) EventLoop_scheme \<Rightarrow> ('k, 'z) EventLoop_scheme result) \<Rightarrow> int \<Rightarrow>
   int \<times> nat \<Rightarrow> ('k, 'z) EventLoop_scheme \<Rightarrow> ('k, 'z) EventLoop_scheme result"
where
  "TimerQueue_fire invoke now = (\<lambda>(w, p) l.
     rbind (deref (timer_heap l) p) (\<lambda>t.
     rbind (ensure (Timer_expired now t) AssertFailed) (\<lambda>_.
     rbind (if \<not> tm_canceled t then Timer_run invoke t l else Inr l) (\<lambda>l1.
     rbind (deref (timer_heap l1) p) (\<lambda>t1.
     if \<not> tm_canceled t1 \<and> tm_repeat t1
     then rbind (Timer_restart t1) (\<lambda>t2.
          Inr (set_timers (snd (set_insert (tm_when t2, p) (timers (timerQueue l1)))) (put_timer p t2 l1)))
     else Inr (delete_timer p l1))))))"

definition TimerQueue_handleRead ::
  "'k os \<Rightarrow> (closure \<Rightarrow> ('k, 'z) EventLoop_scheme \<Rightarrow> ('k, 'z) EventLoop_scheme result) \<Rightarrow> nat \<Rightarrow>
   ('k, 'z) EventLoop_scheme \<Rightarrow> ('k, 'z) EventLoop_scheme result"
where
  "TimerQueue_handleRead os invoke cur l =
     rbind (assertInLoopThread cur l) (\<lambda>_.
     let (now, l1) = sys (sys_clock_now os) (timerfdRead os l)
     in rbind (getExpired now l1) (\<lambda>(expired, l2).
        rbind (rfold (TimerQueue_fire invoke now) expired l2) (\<lambda>l3.
        if timers (timerQueue l3) \<noteq> [] then timerfdSet os (fst (hd (timers (timerQueue l3)))) l3
        else Inr l3)))"

section \<open>EventLoop: timers, construction and destruction\<close>

definition runAt ::
  "'k os \<Rightarrow> nat \<Rightarrow> nat \<Rightarrow> int \<Rightarrow> closure option \<Rightarrow> ('k, 'z) EventLoop_scheme \<Rightarrow> ('k, 'z) EventLoop_scheme result"
where
  "runAt os cur p when callback = addTimer os cur p callback when 0"

definition runAfter ::
  "'k os \<Rightarrow> nat \<Rightarrow> nat \<Rightarrow> int \<Rightarrow> closure option \<Rightarrow> ('k, 'z) EventLoop_scheme \<Rightarrow> ('k, 'z) EventLoop_scheme result"
where
  "runAfter os cur p interval callback l =
     (let (now, l1) = sys (sys_clock_now os) l
      in rbind (int64_add now interval) (\<lambda>when. runAt os cur p when callback l1))"

definition runEvery ::
  "'k os \<Rightarrow> nat \<Rightarrow> nat \<Rightarrow> int \<Rightarrow> closure option \<Rightarrow> ('k, 'z) EventLoop_scheme \<Rightarrow> ('k, 'z) EventLoop_scheme result"
where
  "runEvery os cur p interval callback l =
     (let (now, l1) = sys (sys_clock_now os) l
      in rbind (int64_add now interval) (\<lambda>when. addTimer os cur p callback when interval l1))"

definition EventLoop_cancelTimer ::
  "'k os \<Rightarrow> nat \<Rightarrow> nat \<Rightarrow> ('k, 'z) EventLoop_scheme \<Rightarrow> ('k, 'z) EventLoop_scheme result"
where
  "EventLoop_cancelTimer os cur p = TimerQueue_cancelTimer os cur p"

text \<open>
  The constructor, in the order of the initialisers: the descriptors of \<open>epoll_create1\<close>,
  \<open>eventfd\<close> and \<open>timerfd_create\<close> and the addresses of the two member channels are given;
  \<open>has_loop\<close> is \<open>t_Eventloop != nullptr\<close>.
\<close>

definition EventLoop_new ::
  "'k os \<Rightarrow> nat \<Rightarrow> bool \<Rightarrow> int \<Rightarrow> int \<Rightarrow> int \<Rightarrow> nat \<Rightarrow> nat \<Rightarrow> 'k \<Rightarrow> 'k EventLoop result"
where
  "EventLoop_new os cur has_loop epfd evfd tfd wc tc k =
     rbind (EPollPoller_new epfd) (\<lambda>ep.
     rbind (TimerQueue_new os cur tfd
        \<lparr>tid = cur, quit = False, doingPendingTasks = False, poller = ep, activeChannels = [],
         wakeupfd = evfd, wakeupChannel = wc, pendingTasks = [],
         timerQueue = \<lparr>timerfd = tfd, timerChannel = tc, timers = []\<rparr>,
         channels = [wc \<mapsto> Channel_new evfd], timer_heap = Map.empty, kernel = k\<rparr>) (\<lambda>l.
     rbind (ensure (evfd \<noteq> -1) Aborted) (\<lambda>_.
     rbind (modify_channel wc (setReadCallback EventLoop_handleRead_fn) l) (\<lambda>l.
     rbind (enableRead os cur wc l) (\<lambda>l.
     rbind (ensure (\<not> has_loop) AssertFailed) (\<lambda>_. Inr l))))))"

text \<open>
  The destructor: its body, then the members in reverse order (\<open>timerQueue_\<close>, the wakeup
  channel; the poller closes the epoll descriptor). \<open>is_this\<close> is \<open>t_Eventloop == this\<close>.
\<close>

definition EventLoop_destroy ::
  "'k os \<Rightarrow> nat \<Rightarrow> bool \<Rightarrow> ('k, 'z) EventLoop_scheme \<Rightarrow> ('k, 'z) EventLoop_scheme result"
where
  "EventLoop_destroy os cur is_this l =
     rbind (disableAll os cur (wakeupChannel l) l) (\<lambda>l1.
     let l2 = snd (sys (sys_close os (wakeupfd l1)) l1)
     in rbind (ensure is_this AssertFailed) (\<lambda>_.
        rbind (TimerQueue_destroy os l2) (\<lambda>l3.
        rbind (Channel_destroy (wakeupChannel l3) l3) (\<lambda>l4.
        Inr (snd (sys (sys_close os (epollfd (poller l4))) l4))))))"

end
