(* ===== verification/Timer_Safety.thy ===== *)
theory Timer_Safety
  imports TimerQueue
begin

text \<open>
  What the timer queue promises: which timers \<open>handleRead\<close> fires and in which order, that it
  never touches a timer that is gone as long as callbacks do not cancel timers of the batch
  that is being fired, what happens when they do, and that the timerfd is always set to the
  earliest timer.
\<close>

section \<open>Lemmas on the queue's state\<close>

lemma timer_state_simps [simp]:
  "timers (timerQueue (set_timers ts l)) = ts"
  "timerfd (timerQueue (set_timers ts l)) = timerfd (timerQueue l)"
  "timer_heap (set_timers ts l) = timer_heap l"
  "kernel (set_timers ts l) = kernel l"
  "tid (set_timers ts l) = tid l"
  "EventLoop.more (set_timers ts l) = EventLoop.more l"
  "timer_heap (put_timer p t l) = (timer_heap l)(p \<mapsto> t)"
  "timerQueue (put_timer p t l) = timerQueue l"
  "kernel (put_timer p t l) = kernel l"
  "tid (put_timer p t l) = tid l"
  "EventLoop.more (put_timer p t l) = EventLoop.more l"
  "timer_heap (delete_timer p l) = (timer_heap l)(p := None)"
  "timerQueue (delete_timer p l) = timerQueue l"
  "kernel (delete_timer p l) = kernel l"
  "tid (delete_timer p l) = tid l"
  "EventLoop.more (delete_timer p l) = EventLoop.more l"
  by (simp_all add: set_timers_def put_timer_def delete_timer_def)

lemma sys_simps [simp]:
  "timerQueue (snd (sys f l)) = timerQueue l" "timer_heap (snd (sys f l)) = timer_heap l"
  "tid (snd (sys f l)) = tid l" "EventLoop.more (snd (sys f l)) = EventLoop.more l"
  "fst (sys f l) = fst (f (kernel l))" "kernel (snd (sys f l)) = snd (f (kernel l))"
  by (simp_all add: sys_def case_prod_beta)

lemma timerfdRead_simps [simp]:
  "timerQueue (timerfdRead os l) = timerQueue l" "timer_heap (timerfdRead os l) = timer_heap l"
  "tid (timerfdRead os l) = tid l" "EventLoop.more (timerfdRead os l) = EventLoop.more l"
  by (simp_all add: timerfdRead_def)

text \<open>\<open>timerfdSet\<close> changes the kernel alone, and can only fail where the time does not fit.\<close>

lemma timerfdSet_result:
  "result_in {SignedOverflow} (timerfdSet os when l) (\<lambda>l'.
     timerQueue l' = timerQueue l \<and> timer_heap l' = timer_heap l \<and> tid l' = tid l
     \<and> EventLoop.more l' = EventLoop.more l)"
  by (auto simp: timerfdSet_def durationFromNow_def int64_sub_def Let_def case_prod_beta)

section \<open>Well-formed queues\<close>

text \<open>
  Every entry of \<open>timers_\<close>, and every entry of the batch that \<open>handleRead\<close> has taken out and
  still has to fire, points to a live timer that is not cancelled and expires at the entry's
  time; no timer is in both.
\<close>

definition entry_ok :: "(nat \<rightharpoonup> Timer) \<Rightarrow> int \<times> nat \<Rightarrow> bool" where
  "entry_ok heap = (\<lambda>(w, p). p \<noteq> 0 \<and>
     (case heap p of None \<Rightarrow> False | Some t \<Rightarrow> tm_when t = w \<and> \<not> tm_canceled t))"

definition timers_ok :: "(int \<times> nat) list \<Rightarrow> ('k, 'z) EventLoop_scheme \<Rightarrow> bool" where
  "timers_ok batch l \<longleftrightarrow>
     (let ts = timers (timerQueue l) in
      sorted_wrt (<) ts \<and> distinct (map snd batch) \<and> snd ` set batch \<inter> snd ` set ts = {} \<and>
      (\<forall>e \<in> set batch \<union> set ts. entry_ok (timer_heap l) e))"

text \<open>What callbacks may do: anything that leaves the queue well-formed, with the batch in it.\<close>

definition keeps_timers ::
  "fault set \<Rightarrow> (closure \<Rightarrow> ('k, 'z) EventLoop_scheme \<Rightarrow> ('k, 'z) EventLoop_scheme result) \<Rightarrow> bool"
where
  "keeps_timers E invoke \<longleftrightarrow>
     (\<forall>f batch l. timers_ok batch l \<longrightarrow> result_in E (invoke f l) (timers_ok batch))"

lemma entry_ok_upd: "p \<noteq> q \<Longrightarrow> entry_ok (heap(q := x)) (w, p) = entry_ok heap (w, p)"
  by (simp add: entry_ok_def)

lemma entry_okD: "entry_ok heap (w, p) \<Longrightarrow> p \<noteq> 0 \<and> (\<exists>t. heap p = Some t \<and> tm_when t = w \<and> \<not> tm_canceled t)"
  by (auto simp: entry_ok_def split: option.splits)

lemma timers_okD:
  assumes "timers_ok batch l"
  shows "sorted_wrt (<) (timers (timerQueue l))" "distinct (map snd batch)"
    "\<And>e. e \<in> set batch \<Longrightarrow> entry_ok (timer_heap l) e"
    "\<And>e. e \<in> set (timers (timerQueue l)) \<Longrightarrow> entry_ok (timer_heap l) e"
    "\<And>w w' p. (w, p) \<in> set batch \<Longrightarrow> (w', p) \<notin> set (timers (timerQueue l))"
  using assms by (force simp: timers_ok_def Let_def)+

lemma timers_ok_cong:
  "timerQueue l' = timerQueue l \<Longrightarrow> timer_heap l' = timer_heap l \<Longrightarrow> timers_ok batch l' = timers_ok batch l"
  by (simp add: timers_ok_def)

lemma timers_okI:
  assumes "sorted_wrt (<) (timers (timerQueue l))" "distinct (map snd batch)"
    "\<And>w p. (w, p) \<in> set batch \<Longrightarrow> entry_ok (timer_heap l) (w, p)"
    "\<And>w p. (w, p) \<in> set (timers (timerQueue l)) \<Longrightarrow> entry_ok (timer_heap l) (w, p)"
    "\<And>w w' p. (w, p) \<in> set batch \<Longrightarrow> (w', p) \<notin> set (timers (timerQueue l))"
  shows "timers_ok batch l"
  using assms unfolding timers_ok_def Let_def by fastforce

text \<open>Inserting a live timer that is in no entry, and removing a timer of the set.\<close>

lemma timers_ok_insert:
  assumes ok: "timers_ok batch l" and t: "tm_when t = w" "\<not> tm_canceled t" and p: "p \<noteq> 0"
    and fresh: "\<And>w. (w, p) \<notin> set batch" "\<And>w. (w, p) \<notin> set (timers (timerQueue l))"
  shows "timers_ok batch (set_timers (snd (set_insert (w, p) (timers (timerQueue l)))) (put_timer p t l))"
proof (rule timers_okI)
  note d = timers_okD[OF ok]
  show "entry_ok (timer_heap (set_timers (snd (set_insert (w, p) (timers (timerQueue l)))) (put_timer p t l))) (w', p')"
    if "(w', p') \<in> set (timers (timerQueue
          (set_timers (snd (set_insert (w, p) (timers (timerQueue l)))) (put_timer p t l))))" for w' p'
    using that d(4) fresh t p
    by (cases "p' = p") (auto simp: set_set_insert entry_ok_def split: if_splits)
qed (use timers_okD[OF ok] fresh in \<open>auto simp: sorted_set_insert set_set_insert entry_ok_def split: if_splits\<close>)

lemma timers_ok_delete:
  assumes ok: "timers_ok batch l"
    and fresh: "\<And>w. (w, p) \<notin> set batch" "\<And>w. (w, p) \<notin> set (timers (timerQueue l))"
  shows "timers_ok batch (delete_timer p l)"
proof (rule timers_okI)
  note d = timers_okD[OF ok]
  show "entry_ok (timer_heap (delete_timer p l)) (w', p')" if "(w', p') \<in> set batch" for w' p'
    using d(3)[OF that] that fresh(1) by (cases "p' = p") (auto simp: entry_ok_upd)
  show "entry_ok (timer_heap (delete_timer p l)) (w', p')"
    if "(w', p') \<in> set (timers (timerQueue (delete_timer p l)))" for w' p'
    using that d(4)[of "(w', p')"] fresh(2) by (cases "p' = p") (auto simp: entry_ok_upd)
qed (use timers_okD[OF ok] in auto)

lemma timers_ok_tl:
  assumes "timers_ok ((w, p) # batch) l"
  shows "timers_ok batch l" "\<And>v. (v, p) \<notin> set batch" "\<And>v. (v, p) \<notin> set (timers (timerQueue l))"
  using assms timers_okD(2,5)[OF assms] by (auto simp: timers_ok_def Let_def image_iff)

section \<open>Operations keep the queue well-formed\<close>

lemma timerfdSet_ok:
  "timers_ok batch l \<Longrightarrow> result_in (insert SignedOverflow E) (timerfdSet os w l) (timers_ok batch)"
  by (rule result_in_mono[OF timerfdSet_result]) (auto cong: timers_ok_cong)

lemma TimerQueue_insert_ok:
  assumes ok: "timers_ok batch l" and t: "timer_heap l p = Some t" "tm_when t = w" "\<not> tm_canceled t"
    and p: "p \<noteq> 0" and fresh: "\<And>w. (w, p) \<notin> set batch" "\<And>w. (w, p) \<notin> set (timers (timerQueue l))"
  shows "result_in {SignedOverflow} (TimerQueue_insert os w p l) (timers_ok batch)"
proof -
  let ?l = "set_timers (snd (set_insert (w, p) (timers (timerQueue l)))) l"
  have "put_timer p t l = l" using t(1) by (simp add: put_timer_def fun_upd_idem)
  then have l1: "timers_ok batch ?l"
    using timers_ok_insert[OF ok t(2,3) p fresh] by simp
  have new: "fst (set_insert (w, p) (timers (timerQueue l)))"
    using fresh(2) set_insert_new[OF timers_okD(1)[OF ok]] by blast
  show ?thesis
    using new l1 timerfdSet_ok[OF l1] by (simp add: TimerQueue_insert_def case_prod_beta Let_def)
qed

lemma timers_ok_allocate:
  assumes ok: "timers_ok batch l" and p: "timer_heap l p = None"
  shows "timers_ok batch (put_timer p t l)"
proof -
  have "entry_ok ((timer_heap l)(p \<mapsto> t)) (w, q)" if "entry_ok (timer_heap l) (w, q)" for w q
    using that p by (cases "q = p") (auto simp: entry_ok_def)
  then show ?thesis by (intro timers_okI) (use timers_okD[OF ok] in auto)
qed

lemma addTimer_ok:
  assumes ok: "timers_ok batch l" and p: "p \<noteq> 0" "timer_heap l p = None"
  shows "result_in {SignedOverflow} (addTimer os cur p callback when interval l) (timers_ok batch)"
proof -
  let ?t = "Timer_new callback when interval"
  have fresh: "(w, p) \<notin> set batch" "(w, p) \<notin> set (timers (timerQueue l))" for w
    using p(2) timers_okD(3,4)[OF ok, of "(w, p)"] by (auto simp: entry_ok_def)
  have new: "timers_ok batch (put_timer p ?t l)" by (rule timers_ok_allocate[OF ok p(2)])
  have "result_in {SignedOverflow} (TimerQueue_insert os when p (put_timer p ?t l)) (timers_ok batch)"
    by (rule TimerQueue_insert_ok[OF new]) (use fresh p in \<open>auto simp: Timer_new_def\<close>)
  moreover have "timers_ok batch (queueInLoop os cur f (put_timer p ?t l))" for f
    using new timers_ok_cong[of "queueInLoop os cur f (put_timer p ?t l)" "put_timer p ?t l"] by simp
  ultimately show ?thesis by (simp add: addTimer_def runInLoop_def)
qed

lemma TimerQueue_cancel_ok:
  assumes ok: "timers_ok batch l" and mem: "(w, p) \<in> set (timers (timerQueue l))"
  shows "\<exists>t. timer_heap l p = Some t \<and>
    TimerQueue_cancel p l =
      Inr (delete_timer p (set_timers (set_erase (w, p) (timers (timerQueue l))) l))"
    and "timers_ok batch (delete_timer p (set_timers (set_erase (w, p) (timers (timerQueue l))) l))"
proof -
  note d = timers_okD[OF ok]
  obtain t where t: "p \<noteq> 0" "timer_heap l p = Some t" "tm_when t = w" "\<not> tm_canceled t"
    using entry_okD[OF d(4)[OF mem]] by blast
  then show "\<exists>t. timer_heap l p = Some t \<and> TimerQueue_cancel p l =
      Inr (delete_timer p (set_timers (set_erase (w, p) (timers (timerQueue l))) l))"
    by (simp add: TimerQueue_cancel_def Timer_cancel_def delete_timer_def put_timer_def set_timers_def)
  let ?l = "set_timers (set_erase (w, p) (timers (timerQueue l))) l"
  have ts: "set (timers (timerQueue ?l)) = set (timers (timerQueue l)) - {(w, p)}"
    by (simp add: set_set_erase[OF d(1)])
  have "timers_ok batch ?l"
    by (rule timers_okI) (use d ts in \<open>auto simp: sorted_set_erase\<close>)
  moreover have "(v, p) \<notin> set batch" for v using d(5) mem by blast
  moreover have "(v, p) \<notin> set (timers (timerQueue ?l))" for v
    using ts entry_okD[OF d(4), of v p] t by auto
  ultimately show "timers_ok batch (delete_timer p ?l)" by (rule timers_ok_delete)
qed

lemma TimerQueue_fire_ok:
  assumes ok: "timers_ok ((w, p) # batch) l" and due: "w \<le> now" and cb: "keeps_timers E invoke"
  shows "result_in (insert SignedOverflow E) (TimerQueue_fire invoke now (w, p) l) (timers_ok batch)"
proof -
  obtain t where t: "p \<noteq> 0" "timer_heap l p = Some t" "tm_when t = w" "\<not> tm_canceled t"
    using entry_okD timers_okD(3)[OF ok] by force
  have run: "result_in (insert SignedOverflow E) (Timer_run invoke t l) (timers_ok ((w, p) # batch))"
    using cb ok unfolding keeps_timers_def Timer_run_def
    by (auto split: option.splits intro: result_in_mono)
  have "result_in (insert SignedOverflow E)
      (rbind (deref (timer_heap l1) p) (\<lambda>t1.
        if \<not> tm_canceled t1 \<and> tm_repeat t1
        then rbind (Timer_restart t1) (\<lambda>t2.
          Inr (set_timers (snd (set_insert (tm_when t2, p) (timers (timerQueue l1)))) (put_timer p t2 l1)))
        else Inr (delete_timer p l1))) (timers_ok batch)"
    if l1: "timers_ok ((w, p) # batch) l1" for l1
  proof -
    obtain t1 where t1: "timer_heap l1 p = Some t1" "tm_when t1 = w" "\<not> tm_canceled t1"
      using entry_okD timers_okD(3)[OF l1] by force
    note tl = timers_ok_tl[OF l1]
    show ?thesis
      using t(1) t1 timers_ok_delete[OF tl] timers_ok_insert[OF tl(1) _ _ t(1) tl(2,3), of "t1\<lparr>tm_when := tm_when t1 + tm_interval t1\<rparr>"]
      by (auto simp: Timer_restart_def int64_add_def)
  qed
  from result_in_rbind[OF run this] show ?thesis
    using t due by (simp add: TimerQueue_fire_def Timer_expired_def)
qed

lemma fire_batch_ok:
  assumes "timers_ok batch l" "\<forall>(w, p) \<in> set batch. w \<le> now" "keeps_timers E invoke"
  shows "result_in (insert SignedOverflow E) (rfold (TimerQueue_fire invoke now) batch l) (timers_ok [])"
  using assms(1,2)
proof (induction batch arbitrary: l)
  case (Cons e batch)
  obtain w p where e: "e = (w, p)" by (cases e)
  show ?case
    using result_in_rbind[OF TimerQueue_fire_ok[OF _ _ assms(3)], of w p batch l now] Cons e by auto
qed simp

section \<open>The timers that are due\<close>

lemma due_below: "(w, p) < (now + 1, 0 :: nat) \<longleftrightarrow> w \<le> (now :: int)"
  by (auto simp: less_prod_simp)

lemma takeWhile_dropWhile_filter:
  assumes "sorted_wrt (<) xs" "\<And>x y. x < y \<Longrightarrow> P y \<Longrightarrow> P x"
  shows "takeWhile P xs = filter P xs" "dropWhile P xs = filter (\<lambda>x. \<not> P x) xs"
proof -
  have "takeWhile P xs = filter P xs \<and> dropWhile P xs = filter (\<lambda>x. \<not> P x) xs"
    using assms(1)
  proof (induction xs)
    case (Cons x xs)
    have "\<forall>y \<in> set xs. \<not> P y" if "\<not> P x"
      using Cons.prems assms(2) that by (meson sorted_wrt.simps(2))
    then show ?case using Cons by (cases "P x") (auto simp: filter_empty_conv filter_id_conv)
  qed simp
  then show "takeWhile P xs = filter P xs" "dropWhile P xs = filter (\<lambda>x. \<not> P x) xs" by auto
qed

lemma set_cut_due:
  assumes "sorted_wrt (<) ts"
  shows "set_cut (now + 1 :: int, 0 :: nat) ts = (filter (\<lambda>(w, p). w \<le> now) ts, filter (\<lambda>(w, p). now < w) ts)"
proof -
  have eq: "(\<lambda>y. y < (now + 1, 0 :: nat)) = (\<lambda>(w, p). w \<le> now)" by (auto simp only: due_below fun_eq_iff case_prod_conv split_paired_All)
  let ?P = "\<lambda>(w :: int, p :: nat). w \<le> now"
  have down: "?P x" if "x < y" "?P y" for x y
    using that by (auto simp: less_prod_def case_prod_beta)
  have "takeWhile ?P ts = filter ?P ts" "dropWhile ?P ts = filter (\<lambda>e. \<not> ?P e) ts"
    by (rule takeWhile_dropWhile_filter[OF assms]; erule (1) down)+
  then show ?thesis
    unfolding set_cut_def eq by (simp add: case_prod_unfold not_le)
qed

lemma getExpired_due:
  assumes "sorted_wrt (<) (timers (timerQueue l))"
  shows "result_in {SignedOverflow} (getExpired now l) (\<lambda>(due, l').
    due = filter (\<lambda>(w, p). w \<le> now) (timers (timerQueue l))
    \<and> l' = set_timers (filter (\<lambda>(w, p). now < w) (timers (timerQueue l))) l)"
  by (simp add: getExpired_def int64_add_def set_cut_due[OF assms])

text \<open>Taking the due timers out of the set makes them the batch.\<close>

lemma timers_ok_batch:
  assumes "timers_ok [] l"
  shows "timers_ok (filter (\<lambda>(w, p). w \<le> now) (timers (timerQueue l)))
    (set_timers (filter (\<lambda>(w, p). now < w) (timers (timerQueue l))) l)"
proof -
  let ?ts = "timers (timerQueue l)"
  note d = timers_okD[OF assms]
  have inj: "w = w'" if "(w, p) \<in> set ?ts" "(w', p) \<in> set ?ts" for w w' p
    using entry_okD[OF d(4)[OF that(1)]] entry_okD[OF d(4)[OF that(2)]] by auto
  have "distinct ?ts" using d(1) by (simp add: strict_sorted_iff)
  then have "distinct (map snd (filter (\<lambda>(w, p). w \<le> now) ?ts))"
    using inj by (auto simp: distinct_map inj_on_def)
  moreover have "(w', p) \<notin> set ?ts" if "(w, p) \<in> set ?ts" "w \<le> now" "now < w'" for w w' p
    using inj[OF that(1)] that(2,3) by fastforce
  ultimately show ?thesis
    by (intro timers_okI) (use d in \<open>auto simp: sorted_wrt_filter\<close>)
qed

lemma timer_dispatch_ok:
  assumes "timers_ok [] l" and "tid l = cur" and "keeps_timers E invoke"
  shows "result_in (insert SignedOverflow E) (TimerQueue_handleRead os invoke cur l) (timers_ok [])"
proof -
  let ?l1 = "snd (sys (sys_clock_now os) (timerfdRead os l))"
  let ?now = "fst (sys (sys_clock_now os) (timerfdRead os l))"
  have l1: "timers_ok [] ?l1" using assms(1) timers_ok_cong[of ?l1 l] by simp
  let ?rearm = "\<lambda>l3. if timers (timerQueue l3) \<noteq> []
    then timerfdSet os (fst (hd (timers (timerQueue l3)))) l3 else Inr l3"
  have fire: "result_in (insert SignedOverflow E)
      (rbind (rfold (TimerQueue_fire invoke ?now) due l2) ?rearm) (timers_ok [])"
    if "timers_ok due l2" "\<forall>(w, p) \<in> set due. w \<le> ?now" for due l2
    by (rule result_in_rbind[OF fire_batch_ok[OF that assms(3)]]) (simp add: timerfdSet_ok)
  have "result_in (insert SignedOverflow E) (getExpired ?now ?l1)
      (\<lambda>(due, l2). timers_ok due l2 \<and> (\<forall>(w, p) \<in> set due. w \<le> ?now))"
    by (rule result_in_mono[OF getExpired_due[OF timers_okD(1)[OF l1]]])
      (use timers_ok_batch[OF l1] in auto)
  then have "result_in (insert SignedOverflow E) (rbind (getExpired ?now ?l1) (\<lambda>(due, l2).
      rbind (rfold (TimerQueue_fire invoke ?now) due l2) ?rearm)) (timers_ok [])"
    by (rule result_in_rbind) (use fire in force)
  then show ?thesis using assms(2) by (simp add: TimerQueue_handleRead_def case_prod_beta Let_def)
qed

section \<open>What a calm dispatch does\<close>

text \<open>
  Callbacks that leave the timers alone and record their name in the part \<open>obs\<close> of the state:
  what \<open>handleRead\<close> then calls, and what becomes of the timers, can be said exactly.
\<close>

definition calm ::
  "('z \<Rightarrow> closure list) \<Rightarrow> (closure \<Rightarrow> ('k, 'z) EventLoop_scheme \<Rightarrow> ('k, 'z) EventLoop_scheme result) \<Rightarrow> bool"
where
  "calm obs invoke \<longleftrightarrow> (\<forall>f l. returns (invoke f l) (\<lambda>l'. timer_heap l' = timer_heap l \<and>
     timerQueue l' = timerQueue l \<and> obs (EventLoop.more l') = obs (EventLoop.more l) @ [f]))"

definition callback_of :: "(nat \<rightharpoonup> Timer) \<Rightarrow> int \<times> nat \<Rightarrow> closure list" where
  "callback_of heap = (\<lambda>(w, p). case heap p of None \<Rightarrow> [] | Some t \<Rightarrow> (case tm_callback t of None \<Rightarrow> [] | Some f \<Rightarrow> [f]))"

definition next_of :: "(nat \<rightharpoonup> Timer) \<Rightarrow> int \<times> nat \<Rightarrow> (int \<times> nat) list" where
  "next_of heap = (\<lambda>(w, p). case heap p of None \<Rightarrow> [] | Some t \<Rightarrow> if tm_repeat t then [(w + tm_interval t, p)] else [])"

lemma calm_keeps: "calm obs invoke \<Longrightarrow> keeps_timers {} invoke"
  unfolding keeps_timers_def
proof (intro allI impI)
  fix f batch and l :: "('b, 'a) EventLoop_scheme"
  assume "calm obs invoke" and ok: "timers_ok batch l"
  then obtain l' where "invoke f l = Inr l'" "timer_heap l' = timer_heap l" "timerQueue l' = timerQueue l"
    unfolding calm_def returns_iff by blast
  then show "result_in {} (invoke f l) (timers_ok batch)" using ok timers_ok_cong[of l' l] by simp
qed

lemma calm_run:
  assumes "calm obs invoke" "timer_heap l p = Some t"
  shows "returns (Timer_run invoke t l) (\<lambda>l'. timer_heap l' = timer_heap l \<and> timerQueue l' = timerQueue l \<and>
    obs (EventLoop.more l') = obs (EventLoop.more l) @ callback_of (timer_heap l) (w, p))"
  using assms by (auto simp: calm_def Timer_run_def callback_of_def split: option.splits)

lemma calm_fire:
  assumes ok: "timers_ok ((w, p) # batch) l" and due: "w \<le> now" and calm: "calm obs invoke"
  shows "result_in {SignedOverflow} (TimerQueue_fire invoke now (w, p) l) (\<lambda>l'.
    obs (EventLoop.more l') = obs (EventLoop.more l) @ callback_of (timer_heap l) (w, p) \<and>
    set (timers (timerQueue l')) = set (timers (timerQueue l)) \<union> set (next_of (timer_heap l) (w, p)) \<and>
    (\<forall>q. q \<noteq> p \<longrightarrow> timer_heap l' q = timer_heap l q))"
proof -
  obtain t where t: "p \<noteq> 0" "timer_heap l p = Some t" "tm_when t = w" "\<not> tm_canceled t"
    using entry_okD timers_okD(3)[OF ok] by force
  show ?thesis
    using t due calm_run[OF calm t(2), of w]
    by (auto simp: TimerQueue_fire_def Timer_expired_def returns_iff Timer_restart_def int64_add_def
        set_set_insert next_of_def)
qed

lemma next_of_cong: "heap p = heap' p \<Longrightarrow> next_of heap (w, p) = next_of heap' (w, p)"
  and callback_of_cong: "heap p = heap' p \<Longrightarrow> callback_of heap (w, p) = callback_of heap' (w, p)"
  by (simp_all add: next_of_def callback_of_def)

lemma calm_batch:
  assumes "timers_ok batch l" "\<forall>(w, p) \<in> set batch. w \<le> now" "calm obs invoke"
  shows "result_in {SignedOverflow} (rfold (TimerQueue_fire invoke now) batch l) (\<lambda>l'.
    obs (EventLoop.more l') = obs (EventLoop.more l) @ concat (map (callback_of (timer_heap l)) batch) \<and>
    set (timers (timerQueue l')) = set (timers (timerQueue l)) \<union> set (concat (map (next_of (timer_heap l)) batch)))"
  using assms(1,2)
proof (induction batch arbitrary: l)
  case (Cons e batch)
  obtain w p where e: "e = (w, p)" by (cases e)
  have ok: "timers_ok ((w, p) # batch) l" and w: "w \<le> now" using Cons.prems e by auto
  have "result_in {SignedOverflow} (TimerQueue_fire invoke now (w, p) l) (timers_ok batch)"
    using TimerQueue_fire_ok[OF ok w calm_keeps[OF assms(3)]] .
  then show ?case
  proof (cases "TimerQueue_fire invoke now (w, p) l")
    case (Inr l1)
    with \<open>result_in _ _ (timers_ok batch)\<close> have ok1: "timers_ok batch l1" by simp
    have same: "timer_heap l1 q = timer_heap l q" if "(v, q) \<in> set batch" for v q
      using calm_fire[OF ok w assms(3)] Inr timers_ok_tl(2)[OF ok] that by fastforce
    have maps: "map (next_of (timer_heap l1)) batch = map (next_of (timer_heap l)) batch"
      "map (callback_of (timer_heap l1)) batch = map (callback_of (timer_heap l)) batch"
      by (auto intro!: next_of_cong callback_of_cong same)
    have due: "\<forall>(w, p) \<in> set batch. w \<le> now" using Cons.prems(2) by auto
    show ?thesis
      using Cons.IH[OF ok1 due] calm_fire[OF ok w assms(3)] Inr e maps
      by (auto simp: Un_assoc intro: result_in_mono)
  qed (simp add: e)
qed simp

section \<open>Properties\<close>

text \<open>
  C8. \<open>TimerQueue::handleRead\<close> is memory-safe and leaves the queue well-formed: starting from
  a queue whose entries are live timers, with callbacks that may add timers and cancel timers
  outside the batch being fired (anything that keeps the entries of the set and of the batch
  valid) and end in the faults of \<open>E\<close> only, it ends in one of those faults, in the signed
  overflow of a time point, or in a well-formed queue. It never uses a freed timer and none
  of its assertions fails.
\<close>

theorem timer_dispatch_safe:
  assumes "timers_ok [] l" and "tid l = cur" and "keeps_timers E invoke"
  shows "result_in (insert SignedOverflow E) (TimerQueue_handleRead os invoke cur l) (timers_ok [])"
  using assms by (rule timer_dispatch_ok)

text \<open>Witness: a queue with one periodic timer that is due, whose callback adds another one.\<close>

definition sample_timers :: "sample_kernel EventLoop" where
  "sample_timers = set_timers [(500, 8)] (put_timer 8 (Timer_new (Some (User_fn 1)) 500 2000) sample_loop)"

definition sample_add :: "closure \<Rightarrow> sample_kernel EventLoop \<Rightarrow> sample_kernel EventLoop result" where
  "sample_add f l = (if timer_heap l 20 = None then addTimer sample_os 1 20 None 9000 0 l else Inr l)"

lemma sample_add_keeps: "keeps_timers {SignedOverflow} sample_add"
  by (auto simp: keeps_timers_def sample_add_def intro: addTimer_ok)

lemma sample_timers_ok: "timers_ok [] sample_timers"
  by (simp add: sample_timers_def timers_ok_def entry_ok_def Timer_new_def)

theorem timer_dispatch_safe_witness:
  "\<exists>l'. TimerQueue_handleRead sample_os sample_add 1 sample_timers = Inr l' \<and> timers_ok [] l'"
proof -
  have t: "tid sample_timers = 1" by (simp add: sample_timers_def sample_loop_def)
  obtain l' where "TimerQueue_handleRead sample_os sample_add 1 sample_timers = Inr l'"
    by (simp add: TimerQueue_handleRead_def sample_timers_def sample_loop_def sample_state_def
        getExpired_def int64_add_def set_cut_def TimerQueue_fire_def Timer_new_def Timer_run_def
        Timer_expired_def sample_add_def addTimer_def runInLoop_def isInLoopThread_def
        TimerQueue_insert_def timerfdSet_def durationFromNow_def int64_sub_def Timer_restart_def
        sys_def timerfdRead_def set_timers_def put_timer_def delete_timer_def)
  then show ?thesis
    using timer_dispatch_safe[OF sample_timers_ok t sample_add_keeps, of sample_os] by auto
qed


text \<open>Witness: a periodic and a one-shot timer are due, a third is not; the callbacks are logged.\<close>

definition sample_logged :: "(sample_kernel, closure list) EventLoop_scheme" where
  "sample_logged = set_timers [(500, 8), (700, 9), (5000, 10)]
     (put_timer 8 (Timer_new (Some (User_fn 1)) 500 2000)
     (put_timer 9 (Timer_new (Some (User_fn 2)) 700 0)
     (put_timer 10 (Timer_new (Some (User_fn 3)) 5000 0) (EventLoop.extend sample_loop []))))"

definition sample_log ::
  "closure \<Rightarrow> (sample_kernel, closure list) EventLoop_scheme \<Rightarrow> (sample_kernel, closure list) EventLoop_scheme result"
where
  "sample_log f l = Inr (EventLoop.more_update (\<lambda>fs. fs @ [f]) l)"

lemma sample_logged_simps [simp]:
  "timers (timerQueue sample_logged) = [(500, 8), (700, 9), (5000, 10)]"
  "tid sample_logged = 1" "EventLoop.more sample_logged = []" "kernel sample_logged = sample_state"
  "timer_heap sample_logged = [10 \<mapsto> Timer_new (Some (User_fn 3)) 5000 0,
     9 \<mapsto> Timer_new (Some (User_fn 2)) 700 0, 8 \<mapsto> Timer_new (Some (User_fn 1)) 500 2000]"
  by (simp_all add: sample_logged_def sample_loop_def EventLoop.extend_def)

lemma sample_logged_ok: "timers_ok [] sample_logged"
  by (simp add: timers_ok_def entry_ok_def Timer_new_def less_prod_def)

lemma sample_log_calm: "calm (\<lambda>fs. fs) sample_log"
  by (simp add: calm_def sample_log_def)


text \<open>
  C32. A timer that is cancelled by its own callback is used after it was freed:
  \<open>cancelTimer\<close> called in the loop's thread deletes the timer at once, and \<open>handleRead\<close> reads
  \<open>timer->canceled()\<close> and \<open>timer->repeat()\<close> when the callback returns. This holds for every
  well-formed queue whose earliest timer is due and cancels itself.
\<close>

theorem self_cancel_use_after_free:
  assumes "timers_ok [] l" and "tid l = cur" and "timers (timerQueue l) = (w, p) # rest"
    and "w \<le> fst (sys_clock_now os (kernel (timerfdRead os l)))"
    and "- (2 ^ 63) \<le> w" and "fst (sys_clock_now os (kernel (timerfdRead os l))) < 2 ^ 63 - 1"
    and "timer_heap l p = Some t" and "tm_callback t = Some f"
    and "invoke f = EventLoop_cancelTimer os cur p"
  shows "TimerQueue_handleRead os invoke cur l = Inl UseAfterFree"
proof -
  let ?l1 = "snd (sys (sys_clock_now os) (timerfdRead os l))"
  let ?now = "fst (sys_clock_now os (kernel (timerfdRead os l)))"
  have t: "p \<noteq> 0" "tm_when t = w" "\<not> tm_canceled t"
    using entry_okD[OF timers_okD(4)[OF assms(1)], of w p] assms(3,7) by auto
  have fire: "TimerQueue_fire invoke ?now (w, p) l2 = Inl UseAfterFree"
    if "timer_heap l2 = timer_heap l" "tid l2 = cur" for l2
    using that t assms(4,7,8,9)
    by (simp add: TimerQueue_fire_def Timer_expired_def Timer_run_def EventLoop_cancelTimer_def
        TimerQueue_cancelTimer_def runInLoop_def isInLoopThread_def TimerQueue_cancel_def Timer_cancel_def)
  have "sorted_wrt (<) (timers (timerQueue ?l1))" using timers_okD(1)[OF assms(1)] by simp
  from set_cut_due[OF this, of ?now] show ?thesis
    using assms(2-6) fire
    by (simp add: TimerQueue_handleRead_def case_prod_beta Let_def getExpired_def int64_add_def)
qed

theorem self_cancel_use_after_free_witness:
  "TimerQueue_handleRead sample_os (\<lambda>f. EventLoop_cancelTimer sample_os 1 8) 1 sample_timers = Inl UseAfterFree"
proof (rule self_cancel_use_after_free[OF sample_timers_ok])
  show "tid sample_timers = 1" by (simp add: sample_timers_def sample_loop_def)
  show "timers (timerQueue sample_timers) = (500, 8) # []" by (simp add: sample_timers_def)
  show "timer_heap sample_timers 8 = Some (Timer_new (Some (User_fn 1)) 500 2000)"
    by (simp add: sample_timers_def)
  show "tm_callback (Timer_new (Some (User_fn 1)) 500 2000) = Some (User_fn 1)" by (simp add: Timer_new_def)
qed (simp_all add: sample_timers_def sample_loop_def sample_state_def timerfdRead_def)

section \<open>The timerfd is set to the earliest timer\<close>

text \<open>
  timerfd\_settime(2) and clock\_gettime(2): \<open>clock\<close> is the time, \<open>armed k fd\<close> the expiry the
  timerfd was last set to. A relative setting that is not zero and whose nanoseconds are
  below a second is accepted and counts from the current time (zero would disarm the timer,
  the others are errors). Time does not pass between reading the clock and setting the timer.
\<close>

definition timerfd_spec :: "'k os \<Rightarrow> ('k \<Rightarrow> int) \<Rightarrow> ('k \<Rightarrow> int \<Rightarrow> int option) \<Rightarrow> bool" where
  "timerfd_spec os clock armed \<longleftrightarrow>
     (\<forall>k. sys_clock_now os k = (clock k, k)) \<and>
     (\<forall>fd s ns k. 0 \<le> s \<and> 0 \<le> ns \<and> ns < 1000000000 \<and> (s, ns) \<noteq> (0, 0) \<longrightarrow>
        (let k' = snd (sys_timerfd_settime os fd s ns k)
         in clock k' = clock k \<and> armed k' = (armed k)(fd \<mapsto> clock k + s * 1000000000 + ns)))"

definition earliest_armed ::
  "('k \<Rightarrow> int) \<Rightarrow> ('k \<Rightarrow> int \<Rightarrow> int option) \<Rightarrow> ('k, 'z) EventLoop_scheme \<Rightarrow> bool"
where
  "earliest_armed clock armed l \<longleftrightarrow>
     (case timers (timerQueue l) of
        [] \<Rightarrow> True
      | (w, p) # _ \<Rightarrow>
          (case armed (kernel l) (timerfd (timerQueue l)) of
             None \<Rightarrow> False
           | Some a \<Rightarrow> a \<le> max w (clock (kernel l) + 1000000)))"

text \<open>
  Everything that happens to the queue: a timer is allocated (in any thread), its insertion
  or its cancellation runs in the loop, \<open>handleRead\<close> runs, and time passes.
\<close>

inductive timer_step ::
  "'k os \<Rightarrow> (closure \<Rightarrow> ('k, 'z) EventLoop_scheme \<Rightarrow> ('k, 'z) EventLoop_scheme result) \<Rightarrow> nat \<Rightarrow>
   ('k \<Rightarrow> int) \<Rightarrow> ('k \<Rightarrow> int \<Rightarrow> int option) \<Rightarrow> ('k, 'z) EventLoop_scheme \<Rightarrow> ('k, 'z) EventLoop_scheme \<Rightarrow> bool"
  for os invoke cur clock armed
where
  step_allocate: "p \<noteq> 0 \<Longrightarrow> timer_heap l p = None \<Longrightarrow>
     timer_step os invoke cur clock armed l (put_timer p (Timer_new callback when interval) l)"
| step_insert: "timer_heap l p = Some t \<Longrightarrow> p \<noteq> 0 \<Longrightarrow> \<not> tm_canceled t \<Longrightarrow>
     p \<notin> snd ` set (timers (timerQueue l)) \<Longrightarrow> TimerQueue_insert os (tm_when t) p l = Inr l' \<Longrightarrow>
     timer_step os invoke cur clock armed l l'"
| step_cancel: "p \<in> snd ` set (timers (timerQueue l)) \<Longrightarrow> TimerQueue_cancel p l = Inr l' \<Longrightarrow>
     timer_step os invoke cur clock armed l l'"
| step_handleRead: "tid l = cur \<Longrightarrow> TimerQueue_handleRead os invoke cur l = Inr l' \<Longrightarrow>
     timer_step os invoke cur clock armed l l'"
| step_time: "clock (kernel l) \<le> clock k \<Longrightarrow> armed k = armed (kernel l) \<Longrightarrow>
     timer_step os invoke cur clock armed l (l\<lparr>kernel := k\<rparr>)"

definition timer_start ::
  "'k os \<Rightarrow> fault set \<Rightarrow> (closure \<Rightarrow> ('k, 'z) EventLoop_scheme \<Rightarrow> ('k, 'z) EventLoop_scheme result) \<Rightarrow>
   ('k \<Rightarrow> int) \<Rightarrow> ('k \<Rightarrow> int \<Rightarrow> int option) \<Rightarrow> ('k, 'z) EventLoop_scheme \<Rightarrow> bool"
where
  "timer_start os E invoke clock armed l \<longleftrightarrow>
     timerfd_spec os clock armed \<and> keeps_timers E invoke \<and> timers (timerQueue l) = []"

definition timer_inv ::
  "'k os \<Rightarrow> fault set \<Rightarrow> (closure \<Rightarrow> ('k, 'z) EventLoop_scheme \<Rightarrow> ('k, 'z) EventLoop_scheme result) \<Rightarrow>
   ('k \<Rightarrow> int) \<Rightarrow> ('k \<Rightarrow> int \<Rightarrow> int option) \<Rightarrow> ('k, 'z) EventLoop_scheme \<Rightarrow> bool"
where
  "timer_inv os E invoke clock armed l \<longleftrightarrow>
     timerfd_spec os clock armed \<and> keeps_timers E invoke \<and> timers_ok [] l \<and> earliest_armed clock armed l"

lemma timerfd_specD:
  assumes "timerfd_spec os clock armed"
  shows "sys_clock_now os k = (clock k, k)"
    and "0 \<le> s \<Longrightarrow> 0 \<le> ns \<Longrightarrow> ns < 1000000000 \<Longrightarrow> (s, ns) \<noteq> (0, 0) \<Longrightarrow>
      clock (snd (sys_timerfd_settime os fd s ns k)) = clock k \<and>
      armed (snd (sys_timerfd_settime os fd s ns k)) = (armed k)(fd \<mapsto> clock k + s * 1000000000 + ns)"
  using assms unfolding timerfd_spec_def Let_def by blast+

lemma durationFromNow_split:
  fixes d :: int
  assumes "d' = (if d < 1000000 then 1000000 else d)"
  shows "0 \<le> d' div 1000000000" "0 \<le> d' mod 1000000000" "d' mod 1000000000 < 1000000000"
    "(d' div 1000000000, d' mod 1000000000) \<noteq> (0, 0)"
    "d' div 1000000000 * 1000000000 + d' mod 1000000000 = max d 1000000"
  using assms by (auto simp: div_mult_mod_eq)

lemma timerfdSet_arms:
  assumes "timerfd_spec os clock armed" "timerfdSet os w l = Inr l'"
  shows "armed (kernel l') (timerfd (timerQueue l')) = Some (max w (clock (kernel l') + 1000000))"
proof -
  let ?d = "w - clock (kernel l)"
  let ?d' = "if ?d < 1000000 then 1000000 else ?d"
  have now: "sys_clock_now os (kernel l) = (clock (kernel l), kernel l)" by (rule timerfd_specD(1)[OF assms(1)])
  have l': "l' = snd (sys (sys_timerfd_settime os (timerfd (timerQueue l))
      (?d' div 1000000000) (?d' mod 1000000000)) l)"
    using assms(2) now
    by (auto simp: timerfdSet_def durationFromNow_def sys_def int64_sub_def Let_def split: if_splits)
  note split = durationFromNow_split[OF refl[of ?d']]
  show ?thesis
    using timerfd_specD(2)[OF assms(1) split(1-4), of "timerfd (timerQueue l)" "kernel l"] split(5)
    unfolding l' sys_simps by (simp only: fun_upd_same add.assoc) (simp add: max_def)
qed

lemma earliest_armed_cong:
  "timerQueue l' = timerQueue l \<Longrightarrow> kernel l' = kernel l \<Longrightarrow> earliest_armed clock armed l' = earliest_armed clock armed l"
  unfolding earliest_armed_def by (simp only:)

lemma timerfdSet_earliest:
  assumes "timerfd_spec os clock armed" "timerfdSet os w l = Inr l'" "timers (timerQueue l) = (w, p) # ts"
  shows "earliest_armed clock armed l'"
  using timerfdSet_arms[OF assms(1,2)] timerfdSet_result[of os w l] assms(2,3)
  by (simp add: earliest_armed_def)

lemma step_insert_armed:
  assumes spec: "timerfd_spec os clock armed" and inv: "earliest_armed clock armed l"
    and step: "TimerQueue_insert os w p l = Inr l'"
  shows "earliest_armed clock armed l'"
proof (cases "hd (snd (set_insert (w, p) (timers (timerQueue l)))) = (w, p)")
  case True
  let ?ts = "snd (set_insert (w, p) (timers (timerQueue l)))"
  have "?ts \<noteq> []" using set_set_insert[of "(w, p)" "timers (timerQueue l)"] by force
  then have "timers (timerQueue (set_timers ?ts l)) = (w, p) # tl ?ts"
    using True by (simp add: list.expand)
  from timerfdSet_earliest[OF spec _ this] show ?thesis
    using step True by (auto simp: TimerQueue_insert_def case_prod_beta Let_def rbind_eq_Inr)
next
  case False
  then obtain e ts where ts: "timers (timerQueue l) = e # ts" by (cases "timers (timerQueue l)") auto
  with False have "hd (snd (set_insert (w, p) (timers (timerQueue l)))) = e"
    "snd (set_insert (w, p) (timers (timerQueue l))) \<noteq> []"
    by (auto simp: case_prod_beta Let_def split: if_splits)
  then obtain ts' where "snd (set_insert (w, p) (timers (timerQueue l))) = e # ts'"
    by (cases "snd (set_insert (w, p) (timers (timerQueue l)))") auto
  then show ?thesis
    using step False inv ts
    by (auto simp: TimerQueue_insert_def case_prod_beta Let_def rbind_eq_Inr earliest_armed_def split: option.splits)
qed

lemma step_cancel_armed:
  assumes ok: "timers_ok [] l" and inv: "earliest_armed clock armed l"
    and mem: "(w, p) \<in> set (timers (timerQueue l))" and step: "TimerQueue_cancel p l = Inr l'"
  shows "earliest_armed clock armed l'"
proof (cases "timers (timerQueue l')")
  case (Cons e' ts')
  let ?ts = "timers (timerQueue l)"
  have l': "l' = delete_timer p (set_timers (set_erase (w, p) ?ts) l)"
    using TimerQueue_cancel_ok(1)[OF ok mem] step by auto
  obtain e ts where ts: "?ts = e # ts" using mem by (cases ?ts) auto
  have "e' \<in> set ?ts"
    using Cons set_set_erase[OF timers_okD(1)[OF ok], of "(w, p)"] by (auto simp: l')
  then have "e \<le> e'" by (rule lset.first_least[OF timers_okD(1)[OF ok] ts])
  then have "fst e \<le> fst e'" by (auto simp: less_eq_prod_def)
  then show ?thesis
    using inv ts Cons by (auto simp: earliest_armed_def l' split: option.splits prod.splits)
qed (simp add: earliest_armed_def)

lemma step_handleRead_armed:
  assumes "timerfd_spec os clock armed" "TimerQueue_handleRead os invoke cur l = Inr l'"
  shows "earliest_armed clock armed l'"
proof -
  obtain l3 where l3: "(if timers (timerQueue l3) \<noteq> []
      then timerfdSet os (fst (hd (timers (timerQueue l3)))) l3 else Inr l3) = Inr l'"
    using assms(2) by (auto simp: TimerQueue_handleRead_def case_prod_beta Let_def rbind_eq_Inr)
  show ?thesis
  proof (cases "timers (timerQueue l3)")
    case Nil
    then show ?thesis using l3 by (simp add: earliest_armed_def)
  next
    case (Cons e ts)
    then have "timers (timerQueue l3) = (fst e, snd e) # ts" by simp
    from timerfdSet_earliest[OF assms(1) _ this] show ?thesis using l3 Cons by simp
  qed
qed

lemma timer_step_inv:
  assumes inv: "timer_inv os E invoke clock armed l" and step: "timer_step os invoke cur clock armed l l'"
  shows "timer_inv os E invoke clock armed l'"
proof -
  have spec: "timerfd_spec os clock armed" and cb: "keeps_timers E invoke" and ok: "timers_ok [] l"
    and arm: "earliest_armed clock armed l"
    using inv by (auto simp: timer_inv_def)
  from step have "timers_ok [] l' \<and> earliest_armed clock armed l'"
  proof cases
    case (step_allocate p callback w interval)
    have "timers_ok [] l'"
      using timers_ok_allocate[OF ok step_allocate(3)] step_allocate(1) by simp
    then show ?thesis using arm step_allocate by (auto cong: earliest_armed_cong)
  next
    case (step_insert p t)
    have fresh: "(w, p) \<notin> set (timers (timerQueue l))" for w using step_insert(4) by force
    have "result_in {SignedOverflow} (TimerQueue_insert os (tm_when t) p l) (timers_ok [])"
      by (rule TimerQueue_insert_ok[OF ok step_insert(1) refl step_insert(3,2)]) (use fresh in auto)
    then show ?thesis using step_insert(5) step_insert_armed[OF spec arm step_insert(5)] by simp
  next
    case (step_cancel p)
    then obtain w where mem: "(w, p) \<in> set (timers (timerQueue l))" by force
    then show ?thesis
      using TimerQueue_cancel_ok[OF ok mem] step_cancel(2) step_cancel_armed[OF ok arm mem] by auto
  next
    case step_handleRead
    then show ?thesis
      using timer_dispatch_ok[OF ok step_handleRead(1) cb, of os] step_handleRead_armed[OF spec] by simp
  next
    case (step_time k)
    then have "timers_ok [] l'" using ok timers_ok_cong[of l' l] by simp
    then show ?thesis
      using arm step_time by (fastforce simp: earliest_armed_def split: list.splits option.splits)
  qed
  then show ?thesis using spec cb by (simp add: timer_inv_def)
qed

interpretation timer_system: inductive_invariant "timer_start os E invoke clock armed"
  "timer_step os invoke cur clock armed" "timer_inv os E invoke clock armed"
  for os E invoke cur clock armed
proof unfold_locales
  fix l assume "timer_start os E invoke clock armed l"
  then show "timer_inv os E invoke clock armed l"
    by (simp add: timer_start_def timer_inv_def timers_ok_def earliest_armed_def)
qed (rule timer_step_inv)


lemma sample_timerfd: "timerfd_spec sample_os sk_time sk_armed"
  by (simp add: timerfd_spec_def Let_def)


end
