(* ===== verification/TcpConnection.thy ===== *)
theory TcpConnection
  imports TimerQueue
begin

text \<open>
  The class \<open>TcpConnection\<close> (\<open>TcpConnection.hpp\<close>, \<open>TcpConnection.cc\<close>) and the default callbacks.
  The world of a loop is extended by the connections that live in it. An operation takes the
  address \<open>p\<close> of the connection (its \<open>this\<close> pointer), and where the code calls user callbacks,
  \<open>call\<close> runs them: \<open>call cb p\<close> is \<open>cb(shared_from_this())\<close>, with the input buffer as further
  argument for a message callback. The loop's own thread is \<open>tid\<close>, the executing one \<open>cur\<close>.
\<close>

section \<open>State\<close>

datatype ConnectState = kConnecting | kConnected | kDisconnecting | kDisconnected

text \<open>The values of the enumeration, and its order: a connection only moves forward in it.\<close>

fun state_rank :: "ConnectState \<Rightarrow> nat" where
  "state_rank kConnecting = 0"
| "state_rank kConnected = 1"
| "state_rank kDisconnecting = 2"
| "state_rank kDisconnected = 3"

lemma state_rank_inj: "state_rank s = state_rank t \<Longrightarrow> s = t"
  by (cases s; cases t) simp_all

instantiation ConnectState :: linorder
begin

definition less_eq_ConnectState :: "ConnectState \<Rightarrow> ConnectState \<Rightarrow> bool" where
  "less_eq_ConnectState s t \<longleftrightarrow> state_rank s \<le> state_rank t"

definition less_ConnectState :: "ConnectState \<Rightarrow> ConnectState \<Rightarrow> bool" where
  "less_ConnectState s t \<longleftrightarrow> state_rank s < state_rank t"

instance
  by intro_classes (auto simp: less_eq_ConnectState_def less_ConnectState_def dest: state_rank_inj)

end

lemma kDisconnected_greatest [simp]: "s \<le> kDisconnected" "kDisconnected \<le> s \<longleftrightarrow> s = kDisconnected"
  by (cases s; simp add: less_eq_ConnectState_def)+

lemma kConnected_le: "kConnected \<le> kDisconnecting" "kConnecting \<le> s"
  by (simp_all add: less_eq_ConnectState_def)

text \<open>\<open>context\<close> is the value of a \<open>std::any\<close>, by number; \<open>conn_channel\<close> the address of \<open>channel_\<close>.\<close>

record TcpConnection =
  sockfd :: int
  conn_channel :: nat
  conn_state :: ConnectState
  conn_local :: InetAddress
  conn_peer :: InetAddress
  inputBuffer :: Buffer
  outputBuffer :: Buffer
  highWaterMark :: nat
  conn_context :: "nat option"
  messageCallback :: "conn_callback option"
  writeCompleteCallback :: "conn_callback option"
  highWaterMarkCallback :: "conn_callback option"
  closeCallback :: "conn_callback option"

record 'k conn_world = "'k EventLoop" +
  conns :: "nat \<rightharpoonup> TcpConnection"

type_synonym ('k, 'z) conn_op = "('k, 'z) conn_world_scheme \<Rightarrow> ('k, 'z) conn_world_scheme result"
type_synonym ('k, 'z) conn_call = "conn_callback \<Rightarrow> nat \<Rightarrow> ('k, 'z) conn_op"

definition put_conn :: "nat \<Rightarrow> TcpConnection \<Rightarrow> ('k, 'z) conn_world_scheme \<Rightarrow> ('k, 'z) conn_world_scheme" where
  "put_conn p conn w = w\<lparr>conns := (conns w)(p \<mapsto> conn)\<rparr>"

definition modify_conn :: "nat \<Rightarrow> (TcpConnection \<Rightarrow> TcpConnection) \<Rightarrow> ('k, 'z) conn_op" where
  "modify_conn p f w = rbind (deref (conns w) p) (\<lambda>conn. Inr (put_conn p (f conn) w))"

text \<open>Calling an empty \<open>std::function\<close> throws \<open>std::bad_function_call\<close>.\<close>

definition call_conn :: "('k, 'z) conn_call \<Rightarrow> conn_callback option \<Rightarrow> nat \<Rightarrow> ('k, 'z) conn_op" where
  "call_conn call cb p w = (case cb of None \<Rightarrow> Inl BadFunctionCall | Some f \<Rightarrow> call f p w)"

section \<open>Construction, destruction, accessors\<close>

definition TcpConnection_new ::
  "nat \<Rightarrow> nat \<Rightarrow> int \<Rightarrow> InetAddress \<Rightarrow> InetAddress \<Rightarrow> ('k, 'z) conn_op"
where
  "TcpConnection_new p c fd loc peer w =
     rbind (Buffer_new kInitialSize) (\<lambda>inb.
     rbind (Buffer_new kInitialSize) (\<lambda>outb.
     Inr (put_conn p
        \<lparr>sockfd = fd, conn_channel = c, conn_state = kConnecting, conn_local = loc, conn_peer = peer,
         inputBuffer = inb, outputBuffer = outb, highWaterMark = 0, conn_context = None,
         messageCallback = None, writeCompleteCallback = None, highWaterMarkCallback = None,
         closeCallback = None\<rparr>
       (put_channel c
         (Channel.setErrorCallback (TcpConnection_handleError_fn p)
         (Channel.setCloseCallback (TcpConnection_handleClose_fn p)
         (Channel.setWriteCallback (TcpConnection_handleWrite_fn p)
         (Channel.setReadCallback (TcpConnection_handleRead_fn p) (Channel_new fd))))) w))))"

definition TcpConnection_destroy :: "'k os \<Rightarrow> nat \<Rightarrow> ('k, 'z) conn_op" where
  "TcpConnection_destroy os p w =
     rbind (deref (conns w) p) (\<lambda>conn.
     rbind (ensure (conn_state conn = kDisconnected) AssertFailed) (\<lambda>_.
     let w1 = snd (sys (sys_close os (sockfd conn)) w)
     in rbind (Channel_destroy (conn_channel conn) w1) (\<lambda>w2.
        Inr (w2\<lparr>conns := (conns w2)(p := None)\<rparr>))))"

definition setMessageCallback :: "conn_callback option \<Rightarrow> TcpConnection \<Rightarrow> TcpConnection" where
  "setMessageCallback cb conn = conn\<lparr>messageCallback := cb\<rparr>"
definition setWriteCompleteCallback :: "conn_callback option \<Rightarrow> TcpConnection \<Rightarrow> TcpConnection" where
  "setWriteCompleteCallback cb conn = conn\<lparr>writeCompleteCallback := cb\<rparr>"
definition setHighWaterMarkCallback :: "conn_callback option \<Rightarrow> nat \<Rightarrow> TcpConnection \<Rightarrow> TcpConnection" where
  "setHighWaterMarkCallback cb mark conn = conn\<lparr>highWaterMark := mark, highWaterMarkCallback := cb\<rparr>"
definition conn_setCloseCallback :: "conn_callback option \<Rightarrow> TcpConnection \<Rightarrow> TcpConnection" where
  "conn_setCloseCallback cb conn = conn\<lparr>closeCallback := cb\<rparr>"
definition setContext :: "nat \<Rightarrow> TcpConnection \<Rightarrow> TcpConnection" where
  "setContext x conn = conn\<lparr>conn_context := Some x\<rparr>"

definition connected :: "TcpConnection \<Rightarrow> bool" where
  "connected conn \<longleftrightarrow> conn_state conn = kConnected"
definition disconnected :: "TcpConnection \<Rightarrow> bool" where
  "disconnected conn \<longleftrightarrow> conn_state conn = kDisconnected"

definition conn_name :: "(32 word \<Rightarrow> string option) \<Rightarrow> TcpConnection \<Rightarrow> string" where
  "conn_name ntop conn = toIpPort ntop (conn_peer conn) @ '' -> '' @ toIpPort ntop (conn_local conn)"

definition connectEstablished :: "'k os \<Rightarrow> nat \<Rightarrow> nat \<Rightarrow> ('k, 'z) conn_op" where
  "connectEstablished os cur p w =
     rbind (deref (conns w) p) (\<lambda>conn.
     rbind (ensure (conn_state conn = kConnecting) AssertFailed) (\<lambda>_.
     rbind (modify_channel (conn_channel conn) (Channel_tie p) (put_conn p (conn\<lparr>conn_state := kConnected\<rparr>) w))
       (enableRead os cur (conn_channel conn))))"

definition stateAtomicGetAndSet :: "ConnectState \<Rightarrow> TcpConnection \<Rightarrow> ConnectState \<times> TcpConnection" where
  "stateAtomicGetAndSet s conn = (conn_state conn, conn\<lparr>conn_state := s\<rparr>)"

section \<open>Closing\<close>

definition shutdownInLoop :: "'k os \<Rightarrow> nat \<Rightarrow> nat \<Rightarrow> ('k, 'z) conn_op" where
  "shutdownInLoop os cur p w =
     rbind (deref (conns w) p) (\<lambda>conn.
     rbind (assertInLoopThread cur w) (\<lambda>_.
     rbind (deref (channels w) (conn_channel conn)) (\<lambda>ch.
     if conn_state conn \<noteq> kDisconnected \<and> \<not> isWriting ch
     then Inr (snd (sys (sys_shutdown_wr os (sockfd conn)) w))
     else Inr w)))"

definition conn_shutdown :: "'k os \<Rightarrow> nat \<Rightarrow> nat \<Rightarrow> ('k, 'z) conn_op" where
  "conn_shutdown os cur p w =
     rbind (deref (conns w) p) (\<lambda>conn.
     rbind (ensure (conn_state conn \<noteq> kDisconnected) AssertFailed) (\<lambda>_.
     let (old, conn1) = stateAtomicGetAndSet kDisconnecting conn; w1 = put_conn p conn1 w
     in if old = kConnected
        then if isInLoopThread cur w1 then shutdownInLoop os cur p w1
             else Inr (queueInLoop os cur (TcpConnection_shutdownInLoop_fn p) w1)
        else Inr w1))"

definition forceClose :: "'k os \<Rightarrow> nat \<Rightarrow> nat \<Rightarrow> ('k, 'z) conn_op" where
  "forceClose os cur p w =
     rbind (deref (conns w) p) (\<lambda>conn.
     if conn_state conn \<noteq> kDisconnected
     then let (old, conn1) = stateAtomicGetAndSet kDisconnecting conn; w1 = put_conn p conn1 w
          in if old \<noteq> kDisconnected
             then Inr (queueInLoop os cur (TcpConnection_forceCloseInLoop_fn p) w1)
             else Inr w1
     else Inr w)"

definition handleClose :: "'k os \<Rightarrow> ('k, 'z) conn_call \<Rightarrow> nat \<Rightarrow> nat \<Rightarrow> ('k, 'z) conn_op" where
  "handleClose os call cur p w =
     rbind (deref (conns w) p) (\<lambda>conn.
     rbind (assertInLoopThread cur w) (\<lambda>_.
     rbind (ensure (conn_state conn = kConnected \<or> conn_state conn = kDisconnecting) AssertFailed) (\<lambda>_.
     rbind (EventLoop_removeChannel os cur (conn_channel conn)
              (put_conn p (conn\<lparr>conn_state := kDisconnected\<rparr>) w))
       (call_conn call (closeCallback conn) p))))"

definition forceCloseInLoop :: "'k os \<Rightarrow> ('k, 'z) conn_call \<Rightarrow> nat \<Rightarrow> nat \<Rightarrow> ('k, 'z) conn_op" where
  "forceCloseInLoop os call cur p w =
     rbind (deref (conns w) p) (\<lambda>conn.
     rbind (assertInLoopThread cur w) (\<lambda>_.
     if conn_state conn \<noteq> kDisconnected then handleClose os call cur p w else Inr w))"

text \<open>\<open>getsockopt(SO_ERROR)\<close> only changes the errno that is logged.\<close>

definition handleError :: "'k os \<Rightarrow> nat \<Rightarrow> ('k, 'z) conn_op" where
  "handleError os p w =
     rbind (deref (conns w) p) (\<lambda>conn. Inr (snd (sys (sys_so_error os (sockfd conn)) w)))"

section \<open>Sending\<close>

definition queue_writeComplete :: "'k os \<Rightarrow> nat \<Rightarrow> nat \<Rightarrow> TcpConnection \<Rightarrow>
    ('k, 'z) conn_world_scheme \<Rightarrow> ('k, 'z) conn_world_scheme" where
  "queue_writeComplete os cur p conn w =
     (case writeCompleteCallback conn of
        None \<Rightarrow> w
      | Some cb \<Rightarrow> queueInLoop os cur (WriteComplete_fn cb p) w)"

text \<open>
  The first half of \<open>sendInLoop\<close>: when EPOLLOUT is not being watched, try to write at once.
  The result is the number of bytes taken and whether the connection is gone (\<open>faultError\<close>).
\<close>

definition sendInLoop_write ::
  "'k os \<Rightarrow> nat \<Rightarrow> nat \<Rightarrow> byte list \<Rightarrow> TcpConnection \<Rightarrow> ('k, 'z) conn_world_scheme \<Rightarrow>
   nat \<times> bool \<times> ('k, 'z) conn_world_scheme"
where
  "sendInLoop_write os cur p data conn w =
     (case sys (sys_write os (sockfd conn) data) w of
        (Inl err, w1) \<Rightarrow> (0, err \<noteq> EAGAIN \<and> (err = EPIPE \<or> err = ECONNRESET), w1)
      | (Inr n, w1) \<Rightarrow>
          (n, False, if size_sub (length data) n = 0 then queue_writeComplete os cur p conn w1 else w1))"

text \<open>The second half: what was not taken goes to the output buffer, and EPOLLOUT is watched.\<close>

definition sendInLoop_buffer ::
  "'k os \<Rightarrow> nat \<Rightarrow> nat \<Rightarrow> byte list \<Rightarrow> nat \<Rightarrow> TcpConnection \<Rightarrow> ('k, 'z) conn_op"
where
  "sendInLoop_buffer os cur p data n conn w =
     (let remain = size_sub (length data) n;
          oldLen = readableBytes (outputBuffer conn);
          newLen = size_add oldLen remain;
          w1 = (case highWaterMarkCallback conn of
                  None \<Rightarrow> w
                | Some cb \<Rightarrow> if oldLen < highWaterMark conn \<and> newLen \<ge> highWaterMark conn
                             then queueInLoop os cur (HighWaterMark_fn cb p newLen) w else w)
      in rbind (Buffer_append (drop n data) (outputBuffer conn)) (\<lambda>b.
         enableWrite os cur (conn_channel conn) (put_conn p (conn\<lparr>outputBuffer := b\<rparr>) w1)))"

definition sendInLoop :: "'k os \<Rightarrow> nat \<Rightarrow> nat \<Rightarrow> byte list \<Rightarrow> ('k, 'z) conn_op" where
  "sendInLoop os cur p data w =
     rbind (deref (conns w) p) (\<lambda>conn.
     rbind (assertInLoopThread cur w) (\<lambda>_.
     if conn_state conn = kDisconnected then Inr w
     else
     rbind (deref (channels w) (conn_channel conn)) (\<lambda>ch.
     rbind (if \<not> isWriting ch
            then rbind (ensure (readableBytes (outputBuffer conn) = 0) AssertFailed) (\<lambda>_.
                 Inr (sendInLoop_write os cur p data conn w))
            else Inr (0, False, w)) (\<lambda>(n, faultError, w1).
     if \<not> faultError \<and> size_sub (length data) n > 0
     then sendInLoop_buffer os cur p data n conn w1
     else Inr w1))))"

definition conn_send :: "'k os \<Rightarrow> nat \<Rightarrow> nat \<Rightarrow> byte list \<Rightarrow> ('k, 'z) conn_op" where
  "conn_send os cur p data w =
     rbind (deref (conns w) p) (\<lambda>conn.
     if conn_state conn \<noteq> kConnected then Inr w
     else if isInLoopThread cur w then sendInLoop os cur p data w
     else Inr (queueInLoop os cur (TcpConnection_sendInLoop_fn p data) w))"

text \<open>
  \<open>send(Buffer&)\<close> takes the whole content of the caller's buffer, which is emptied. Sending
  touches the output buffer only, so the caller's buffer can be passed and returned by value.
\<close>

definition conn_send_Buffer ::
  "'k os \<Rightarrow> nat \<Rightarrow> nat \<Rightarrow> Buffer \<Rightarrow> ('k, 'z) conn_world_scheme \<Rightarrow> (Buffer \<times> ('k, 'z) conn_world_scheme) result"
where
  "conn_send_Buffer os cur p b w =
     rbind (deref (conns w) p) (\<lambda>conn.
     if conn_state conn \<noteq> kConnected then Inr (b, w)
     else if isInLoopThread cur w
     then rbind (vec_read (peek b) (readableBytes b) (buffer b)) (\<lambda>data.
          rbind (sendInLoop os cur p data w) (\<lambda>w1. Inr (retrieveAll b, w1)))
     else rbind (retrieveAllAsString b) (\<lambda>(str, b1).
          Inr (b1, queueInLoop os cur (TcpConnection_sendInLoop_fn p str) w)))"

definition handleWrite :: "'k os \<Rightarrow> nat \<Rightarrow> nat \<Rightarrow> ('k, 'z) conn_op" where
  "handleWrite os cur p w =
     rbind (deref (conns w) p) (\<lambda>conn.
     if conn_state conn = kDisconnected then Inr w
     else
     let out = outputBuffer conn in
     rbind (ensure (readableBytes out > 0) AssertFailed) (\<lambda>_.
     rbind (deref (channels w) (conn_channel conn)) (\<lambda>ch.
     rbind (ensure (isWriting ch) AssertFailed) (\<lambda>_.
     rbind (vec_read (peek out) (readableBytes out) (buffer out)) (\<lambda>data.
     case sys (sys_write os (sockfd conn) data) w of
       (Inl err, w1) \<Rightarrow> Inr w1
     | (Inr n, w1) \<Rightarrow>
         rbind (retrieve n out) (\<lambda>out1.
         let conn1 = conn\<lparr>outputBuffer := out1\<rparr>; w2 = put_conn p conn1 w1
         in if readableBytes out1 = 0
            then rbind (disableWrite os cur (conn_channel conn) w2) (\<lambda>w3.
                 rbind (if conn_state conn1 = kDisconnecting then shutdownInLoop os cur p w3 else Inr w3) (\<lambda>w4.
                 Inr (queue_writeComplete os cur p conn1 w4)))
            else Inr w2))))))"

section \<open>Receiving\<close>

definition handleRead :: "'k os \<Rightarrow> ('k, 'z) conn_call \<Rightarrow> nat \<Rightarrow> nat \<Rightarrow> ('k, 'z) conn_op" where
  "handleRead os call cur p w =
     rbind (deref (conns w) p) (\<lambda>conn.
     rbind (assertInLoopThread cur w) (\<lambda>_.
     rbind (ensure (conn_state conn \<noteq> kDisconnected) AssertFailed) (\<lambda>_.
     let (rv, w1) = sys (sys_readv os (sockfd conn) (readFd_capacity (inputBuffer conn))) w
     in rbind (readFd rv (inputBuffer conn)) (\<lambda>(n, savedErrno, inb).
        let w2 = put_conn p (conn\<lparr>inputBuffer := inb\<rparr>) w1
        in if n = -1 then handleError os p w2
           else if n = 0 then handleClose os call cur p w2
           else call_conn call (messageCallback conn) p w2))))"

text \<open>The lambdas of \<open>stopRead\<close> and \<open>startRead\<close>, and the two operations.\<close>

definition stopReadInLoop :: "'k os \<Rightarrow> nat \<Rightarrow> nat \<Rightarrow> ('k, 'z) conn_op" where
  "stopReadInLoop os cur p w =
     rbind (deref (conns w) p) (\<lambda>conn.
     rbind (deref (channels w) (conn_channel conn)) (\<lambda>ch.
     if isReading ch then disableRead os cur (conn_channel conn) w else Inr w))"

definition startReadInLoop :: "'k os \<Rightarrow> nat \<Rightarrow> nat \<Rightarrow> ('k, 'z) conn_op" where
  "startReadInLoop os cur p w =
     rbind (deref (conns w) p) (\<lambda>conn.
     rbind (deref (channels w) (conn_channel conn)) (\<lambda>ch.
     if \<not> isReading ch then enableRead os cur (conn_channel conn) w else Inr w))"

definition stopRead :: "'k os \<Rightarrow> nat \<Rightarrow> nat \<Rightarrow> ('k, 'z) conn_op" where
  "stopRead os cur p = runInLoop os cur (\<lambda>_. stopReadInLoop os cur p) (TcpConnection_stopRead_fn p)"

definition startRead :: "'k os \<Rightarrow> nat \<Rightarrow> nat \<Rightarrow> ('k, 'z) conn_op" where
  "startRead os cur p = runInLoop os cur (\<lambda>_. startReadInLoop os cur p) (TcpConnection_startRead_fn p)"

definition conn_isReading :: "nat \<Rightarrow> ('k, 'z) conn_world_scheme \<Rightarrow> bool result" where
  "conn_isReading p w =
     rbind (deref (conns w) p) (\<lambda>conn.
     rbind (deref (channels w) (conn_channel conn)) (\<lambda>ch. Inr (isReading ch)))"

section \<open>Default callbacks and the function objects of a connection\<close>

text \<open>\<open>defaultConnectionCallback\<close> only logs; \<open>defaultMessageCallback\<close> drops what was received.\<close>

definition defaultConnectionCallback :: "nat \<Rightarrow> ('k, 'z) conn_op" where
  "defaultConnectionCallback p w = rbind (deref (conns w) p) (\<lambda>_. Inr w)"

definition defaultMessageCallback :: "nat \<Rightarrow> ('k, 'z) conn_op" where
  "defaultMessageCallback p = modify_conn p (\<lambda>conn. conn\<lparr>inputBuffer := retrieveAll (inputBuffer conn)\<rparr>)"

text \<open>What running a function object of a connection does; \<open>other\<close> runs the remaining ones.\<close>

definition conn_invoke ::
  "'k os \<Rightarrow> ('k, 'z) conn_call \<Rightarrow> (conn_callback \<Rightarrow> nat \<Rightarrow> nat \<Rightarrow> ('k, 'z) conn_op) \<Rightarrow>
   (closure \<Rightarrow> ('k, 'z) conn_op) \<Rightarrow> nat \<Rightarrow> closure \<Rightarrow> ('k, 'z) conn_op"
where
  "conn_invoke os call call_hwm other cur f =
     (case f of
        TcpConnection_handleRead_fn p \<Rightarrow> handleRead os call cur p
      | TcpConnection_handleWrite_fn p \<Rightarrow> handleWrite os cur p
      | TcpConnection_handleClose_fn p \<Rightarrow> handleClose os call cur p
      | TcpConnection_handleError_fn p \<Rightarrow> handleError os p
      | TcpConnection_sendInLoop_fn p data \<Rightarrow> sendInLoop os cur p data
      | TcpConnection_shutdownInLoop_fn p \<Rightarrow> shutdownInLoop os cur p
      | TcpConnection_forceCloseInLoop_fn p \<Rightarrow> forceCloseInLoop os call cur p
      | TcpConnection_stopRead_fn p \<Rightarrow> stopReadInLoop os cur p
      | TcpConnection_startRead_fn p \<Rightarrow> startReadInLoop os cur p
      | WriteComplete_fn cb p \<Rightarrow> call cb p
      | HighWaterMark_fn cb p n \<Rightarrow> call_hwm cb p n
      | _ \<Rightarrow> other f)"

end
