(* ===== verification/TcpConnection_Safety.thy ===== *)
theory TcpConnection_Safety
  imports TcpConnection Timer_Safety "HOL-Library.Sublist"
begin

unbundle bit_operations_syntax

text \<open>
  What a connection promises: the invariant that ties its state, its output buffer and the
  interest of its channel together, that every operation keeps it and runs into none of its
  assertions, and that the bytes handed to \<open>send\<close> reach the socket in order.
\<close>

section \<open>Frames\<close>

lemma put_conn_simps [simp]:
  "conns (put_conn p conn w) = (conns w)(p \<mapsto> conn)"
  "channels (put_conn p conn w) = channels w" "tid (put_conn p conn w) = tid w"
  "kernel (put_conn p conn w) = kernel w" "wakeupfd (put_conn p conn w) = wakeupfd w"
  "doingPendingTasks (put_conn p conn w) = doingPendingTasks w"
  "pendingTasks (put_conn p conn w) = pendingTasks w"
  "timer_heap (put_conn p conn w) = timer_heap w" "timerQueue (put_conn p conn w) = timerQueue w"
  by (simp_all add: put_conn_def)

lemma conns_frame [simp]:
  "conns (put_channel c ch w) = conns w" "conns (snd (sys f w)) = conns w"
  "conns (with_interest os c ch ev w) = conns w" "conns (queueInLoop os cur t w) = conns w"
  by (simp_all add: put_channel_def sys_def with_interest_def queueInLoop_def queueInLoop_wake_def
      EventLoop_wakeup_def queueInLoop_push_def case_prod_beta)

lemma loop_frame [simp]:
  "wakeupfd (put_channel c ch w) = wakeupfd w" "wakeupfd (snd (sys f w)) = wakeupfd w"
  "wakeupfd (with_interest os c ch ev w) = wakeupfd w"
  "channels (snd (sys f w)) = channels w" "pendingTasks (snd (sys f w)) = pendingTasks w"
  "doingPendingTasks (snd (sys f w)) = doingPendingTasks w"
  by (simp_all add: put_channel_def sys_def with_interest_def case_prod_beta)

lemma isInLoopThread_frame [simp]:
  "isInLoopThread cur (put_conn p conn w) = isInLoopThread cur w"
  "assertInLoopThread cur (put_conn p conn w) = assertInLoopThread cur w"
  by (simp_all add: isInLoopThread_def assertInLoopThread_def)

lemma queue_writeComplete_simps [simp]:
  "conns (queue_writeComplete os cur p conn w) = conns w"
  "channels (queue_writeComplete os cur p conn w) = channels w"
  "tid (queue_writeComplete os cur p conn w) = tid w"
  "wakeupfd (queue_writeComplete os cur p conn w) = wakeupfd w"
  by (simp_all add: queue_writeComplete_def split: option.splits)

section \<open>Invariant\<close>

text \<open>
  The connection \<open>p\<close> is alive with its channel; its buffers are well-formed; the channel is
  registered exactly when it watches something. While the connection is up, EPOLLPRI is always
  watched (so that no change of the other events takes the channel off the interest list), and
  EPOLLOUT exactly while there is output waiting. Before and after, nothing is watched.
\<close>

definition conn_parts_ok :: "int \<Rightarrow> TcpConnection \<Rightarrow> Channel \<Rightarrow> bool" where
  "conn_parts_ok wfd conn ch \<longleftrightarrow>
     conn_channel conn \<noteq> 0 \<and> ch_fd ch = sockfd conn \<and> wfd \<noteq> sockfd conn \<and>
     buffer_inv (inputBuffer conn) \<and> buffer_inv (outputBuffer conn) \<and>
     closeCallback conn \<noteq> None \<and> messageCallback conn \<noteq> None \<and>
     (pooling ch \<longleftrightarrow> ch_events ch \<noteq> 0) \<and>
     (case conn_state conn of
        kConnecting \<Rightarrow> ch_events ch = 0 \<and> content (outputBuffer conn) = []
      | kDisconnected \<Rightarrow> ch_events ch = 0
      | _ \<Rightarrow> bit (ch_events ch) 1 \<and> (isWriting ch \<longleftrightarrow> content (outputBuffer conn) \<noteq> []))"

definition conn_ok :: "nat \<Rightarrow> ('k, 'z) conn_world_scheme \<Rightarrow> bool" where
  "conn_ok p w \<longleftrightarrow> p \<noteq> 0 \<and>
     (case conns w p of
        None \<Rightarrow> False
      | Some conn \<Rightarrow>
          (case channels w (conn_channel conn) of
             None \<Rightarrow> False
           | Some ch \<Rightarrow> conn_parts_ok (wakeupfd w) conn ch))"

definition state_of :: "nat \<Rightarrow> ('k, 'z) conn_world_scheme \<Rightarrow> ConnectState" where
  "state_of p w = (case conns w p of None \<Rightarrow> kDisconnected | Some conn \<Rightarrow> conn_state conn)"

lemma conn_okE:
  assumes "conn_ok p w"
  obtains conn ch where "p \<noteq> 0" "conns w p = Some conn" "channels w (conn_channel conn) = Some ch"
    "conn_parts_ok (wakeupfd w) conn ch"
  using assms by (auto simp: conn_ok_def split: option.splits)

lemma conn_okI:
  "p \<noteq> 0 \<Longrightarrow> conns w p = Some conn \<Longrightarrow> channels w (conn_channel conn) = Some ch \<Longrightarrow>
    conn_parts_ok (wakeupfd w) conn ch \<Longrightarrow> conn_ok p w"
  by (simp add: conn_ok_def)

lemma conn_ok_cong:
  "conns w' p = conns w p \<Longrightarrow> channels w' = channels w \<Longrightarrow> wakeupfd w' = wakeupfd w \<Longrightarrow>
    conn_ok p w' = conn_ok p w"
  unfolding conn_ok_def by (simp only:)

text \<open>The bytes of the stream: those the socket has taken, then those waiting in the buffer.\<close>

definition out_stream :: "('k \<Rightarrow> int \<Rightarrow> byte list) \<Rightarrow> nat \<Rightarrow> ('k, 'z) conn_world_scheme \<Rightarrow> byte list" where
  "out_stream sent p w =
     (case conns w p of
        None \<Rightarrow> []
      | Some conn \<Rightarrow> sent (kernel w) (sockfd conn) @ content (outputBuffer conn))"

lemma write_specD:
  assumes "write_spec os sent"
  shows "sys_write os fd data k = (Inl err, k') \<Longrightarrow> sent k' = sent k"
    and "sys_write os fd data k = (Inr n, k') \<Longrightarrow> n \<le> length data \<and> sent k' = (sent k)(fd := sent k fd @ take n data)"
    and "sent (snd (sys_epoll_ctl os op fd ev c k)) = sent k"
    and "sent (snd (sys_shutdown_wr os fd k)) = sent k"
proof -
  have "case sys_write os fd data k of (Inl err, k') \<Rightarrow> sent k' = sent k
      | (Inr n, k') \<Rightarrow> n \<le> length data \<and> sent k' = (sent k)(fd := sent k fd @ take n data)"
    using assms unfolding write_spec_def
    by (elim conjE) (erule allE[of _ fd], erule allE[of _ data], erule allE[of _ k])
  then show "sys_write os fd data k = (Inl err, k') \<Longrightarrow> sent k' = sent k"
    and "sys_write os fd data k = (Inr n, k') \<Longrightarrow> n \<le> length data \<and> sent k' = (sent k)(fd := sent k fd @ take n data)"
    by simp_all
  show "sent (snd (sys_epoll_ctl os op fd ev c k)) = sent k" "sent (snd (sys_shutdown_wr os fd k)) = sent k"
    using assms unfolding write_spec_def by blast+
qed

text \<open>Queueing a task may write to the eventfd, never to the socket.\<close>

lemma sent_queueInLoop:
  assumes "write_spec os sent" "wakeupfd w \<noteq> fd"
  shows "sent (kernel (queueInLoop os cur t w)) fd = sent (kernel w) fd"
proof -
  obtain r k' where r: "sys_write os (wakeupfd w) (le_bytes 8 (1 :: 64 word)) (kernel w) = (r, k')" by fastforce
  have "sent k' fd = sent (kernel w) fd"
    using write_specD(1)[OF assms(1)] write_specD(2)[OF assms(1)] r assms(2) by (cases r) fastforce+
  then show ?thesis
    using r by (simp add: queueInLoop_def queueInLoop_wake_def EventLoop_wakeup_def)
qed

section \<open>Sending\<close>

text \<open>A failing write that says the peer is gone: the data is given up.\<close>

definition write_broken :: "'k os \<Rightarrow> int \<Rightarrow> byte list \<Rightarrow> 'k \<Rightarrow> bool" where
  "write_broken os fd data k \<longleftrightarrow> (case sys_write os fd data k of
     (Inl err, _) \<Rightarrow> err = EPIPE \<or> err = ECONNRESET | (Inr _, _) \<Rightarrow> False)"

text \<open>What a step may change of a connection, and where the stream stands after it.\<close>

definition sends_from ::
  "('k \<Rightarrow> int \<Rightarrow> byte list) \<Rightarrow> nat \<Rightarrow> byte list \<Rightarrow> ('k, 'z) conn_world_scheme \<Rightarrow> ('k, 'z) conn_world_scheme \<Rightarrow> bool"
where
  "sends_from sent p data w w' \<longleftrightarrow> conn_ok p w' \<and> tid w' = tid w \<and> state_of p w' = state_of p w \<and>
     out_stream sent p w' = out_stream sent p w @ data"

lemma size_sub_data: "n \<le> length data \<Longrightarrow> length data \<le> max_size \<Longrightarrow> size_sub (length data) n = length data - n"
  by (rule size_sub_small) (simp_all add: le_max_size_less)

lemma conn_parts_up:
  assumes "conn_parts_ok wfd conn ch" "conn_state conn = kConnected \<or> conn_state conn = kDisconnecting"
  shows "pooling ch" "bit (ch_events ch) 1" "isWriting ch \<longleftrightarrow> content (outputBuffer conn) \<noteq> []"
  using assms by (auto simp: conn_parts_ok_def)

lemma sendInLoop_buffer_ok:
  assumes spec: "write_spec os sent" and t: "tid w = cur" and p: "p \<noteq> 0"
    and conn: "conns w p = Some conn" and ch: "channels w (conn_channel conn) = Some ch"
    and ok: "conn_parts_ok (wakeupfd w) conn ch"
    and up: "conn_state conn = kConnected \<or> conn_state conn = kDisconnecting"
    and n: "n < length data" "length data \<le> max_size"
  shows "result_in {LengthError} (sendInLoop_buffer os cur p data n conn w)
    (sends_from sent p (drop n data) w)"
proof (cases "Buffer_append (drop n data) (outputBuffer conn)")
  case (Inl e)
  have "e = LengthError"
    using buf.enqueue_Inl[OF _ _ Inl] ok n by (simp add: conn_parts_ok_def)
  then show ?thesis using Inl by (simp add: sendInLoop_buffer_def Let_def)
next
  case (Inr b)
  have b: "buffer_inv b" "content b = content (outputBuffer conn) @ drop n data"
    using buf.enqueue_Inr[OF _ _ Inr] ok n by (auto simp: conn_parts_ok_def)
  define w1 where "w1 = (case highWaterMarkCallback conn of None \<Rightarrow> w
    | Some cb \<Rightarrow> if readableBytes (outputBuffer conn) < highWaterMark conn \<and>
          size_add (readableBytes (outputBuffer conn)) (size_sub (length data) n) \<ge> highWaterMark conn
        then queueInLoop os cur (HighWaterMark_fn cb p
          (size_add (readableBytes (outputBuffer conn)) (size_sub (length data) n))) w else w)"
  have w1: "conns w1 = conns w" "channels w1 = channels w" "tid w1 = tid w" "wakeupfd w1 = wakeupfd w"
    "sent (kernel w1) (sockfd conn) = sent (kernel w) (sockfd conn)"
    using sent_queueInLoop[OF spec] ok by (auto simp: w1_def conn_parts_ok_def split: option.splits)
  let ?w2 = "put_conn p (conn\<lparr>outputBuffer := b\<rparr>) w1"
  have w2: "enableWrite os cur (conn_channel conn) ?w2 =
      Inr (with_interest os (conn_channel conn) ch (ch_events ch OR EPOLLOUT) ?w2)" (is "_ = Inr ?w3")
    using enableWrite.interest_ok[of ?w2 cur "conn_channel conn" ch os] w1 t ch ok
    by (simp add: conn_parts_ok_def)
  have "conn_ok p ?w3"
    by (rule conn_okI[OF p, where conn = "conn\<lparr>outputBuffer := b\<rparr>"])
      (use w1 ok up b n in \<open>auto simp: conn_parts_ok_def isWriting_bit\<close>)
  moreover have "out_stream sent p ?w3 = out_stream sent p w @ drop n data"
    using w1 b conn ok write_specD(3)[OF spec] by (simp add: out_stream_def)
  ultimately show ?thesis
    using Inr w2 w1 conn
    by (simp add: sendInLoop_buffer_def Let_def sends_from_def state_of_def w1_def[symmetric])
qed

lemma sends_from_trans:
  "sends_from sent p d1 w w1 \<Longrightarrow> sends_from sent p d2 w1 w2 \<Longrightarrow> sends_from sent p (d1 @ d2) w w2"
  by (simp add: sends_from_def)

lemma sends_from_kernel:
  assumes "conn_ok p w" "conns w p = Some conn" "conns w' = conns w" "channels w' = channels w" "tid w' = tid w"
    "wakeupfd w' = wakeupfd w" "sent (kernel w') (sockfd conn) = sent (kernel w) (sockfd conn) @ d"
    "d = [] \<or> content (outputBuffer conn) = []"
  shows "sends_from sent p d w w'"
  using assms conn_ok_cong[of w' p w] by (auto simp: sends_from_def state_of_def out_stream_def)

lemma sent_queue_writeComplete:
  assumes "write_spec os sent" "wakeupfd w \<noteq> fd"
  shows "sent (kernel (queue_writeComplete os cur p conn w)) fd = sent (kernel w) fd"
  using sent_queueInLoop[OF assms] by (simp add: queue_writeComplete_def split: option.splits)

definition send_post ::
  "'k os \<Rightarrow> ('k \<Rightarrow> int \<Rightarrow> byte list) \<Rightarrow> nat \<Rightarrow> byte list \<Rightarrow>
   ('k, 'z) conn_world_scheme \<Rightarrow> ('k, 'z) conn_world_scheme \<Rightarrow> bool"
where
  "send_post os sent p data w w' \<longleftrightarrow> sends_from sent p data w w' \<or>
     sends_from sent p [] w w' \<and> (state_of p w = kDisconnected \<or>
       (case conns w p of None \<Rightarrow> False | Some conn \<Rightarrow> write_broken os (sockfd conn) data (kernel w)))"

text \<open>The branch of \<open>sendInLoop\<close> that writes at once, when no output is waiting.\<close>

lemma sendInLoop_write_ok:
  assumes spec: "write_spec os sent" and t: "tid w = cur" and ok: "conn_ok p w"
    and conn: "conns w p = Some conn" and out: "content (outputBuffer conn) = []"
    and up: "conn_state conn = kConnected \<or> conn_state conn = kDisconnecting"
    and len: "length data \<le> max_size"
  shows "result_in {LengthError}
    (case sendInLoop_write os cur p data conn w of (n, faultError, w1) \<Rightarrow>
       if \<not> faultError \<and> size_sub (length data) n > 0 then sendInLoop_buffer os cur p data n conn w1 else Inr w1)
    (send_post os sent p data w)"
proof -
  from ok conn obtain ch where p: "p \<noteq> 0" and ch: "channels w (conn_channel conn) = Some ch"
    and parts: "conn_parts_ok (wakeupfd w) conn ch" by (auto elim: conn_okE)
  have wfd: "wakeupfd w \<noteq> sockfd conn" using parts by (simp add: conn_parts_ok_def)
  obtain r k where rk: "sys_write os (sockfd conn) data (kernel w) = (r, k)" by fastforce
  define w1 where "w1 = snd (sys (sys_write os (sockfd conn) data) w)"
  have k1: "kernel w1 = k" and w1: "conns w1 = conns w" "channels w1 = channels w" "tid w1 = tid w"
      "wakeupfd w1 = wakeupfd w"
    using rk by (simp_all add: w1_def)
  have sys: "sys (sys_write os (sockfd conn) data) w = (r, w1)" using rk by (simp add: w1_def sys_def)
  have buffered: "result_in {LengthError} (sendInLoop_buffer os cur p data n conn w1)
      (send_post os sent p data w)"
    if n: "n < length data" and first: "sends_from sent p (take n data) w w1" for n
    using sendInLoop_buffer_ok[OF spec _ p _ _ _ up n len, of w1 cur ch] t conn ch parts w1
      sends_from_trans[OF first, of "drop n data"]
    by (auto simp: send_post_def elim!: result_in_mono)
  show ?thesis
  proof (cases r)
    case (Inl err)
    have first: "sends_from sent p [] w w1"
      using write_specD(1)[OF spec] rk Inl k1 w1 by (intro sends_from_kernel[OF ok conn]) auto
    show ?thesis
      using first buffered[of 0] rk Inl conn sys len
      by (auto simp: sendInLoop_write_def send_post_def write_broken_def size_sub_data split: if_splits)
  next
    case (Inr n)
    have n: "n \<le> length data" "sent k = (sent (kernel w))(sockfd conn := sent (kernel w) (sockfd conn) @ take n data)"
      using write_specD(2)[OF spec] rk Inr by auto
    have first: "sends_from sent p (take n data) w w1"
      using n k1 out w1 by (intro sends_from_kernel[OF ok conn]) auto
    have "sends_from sent p data w (queue_writeComplete os cur p conn w1)" if "n = length data"
      using n k1 out that wfd sent_queue_writeComplete[OF spec, of w1 "sockfd conn"] w1
      by (intro sends_from_kernel[OF ok conn]) auto
    then show ?thesis
      using first buffered[of n] n(1) Inr sys len
      by (auto simp: sendInLoop_write_def send_post_def size_sub_data)
  qed
qed

lemma sendInLoop_ok:
  assumes spec: "write_spec os sent" and t: "tid w = cur" and ok: "conn_ok p w"
    and st: "state_of p w \<noteq> kConnecting" and len: "length data \<le> max_size"
  shows "result_in {LengthError} (sendInLoop os cur p data w) (send_post os sent p data w)"
proof -
  from ok obtain conn ch where p: "p \<noteq> 0" and conn: "conns w p = Some conn"
    and ch: "channels w (conn_channel conn) = Some ch"
    and parts: "conn_parts_ok (wakeupfd w) conn ch" by (rule conn_okE)
  have c: "conn_channel conn \<noteq> 0" using parts by (simp add: conn_parts_ok_def)
  have same: "sends_from sent p [] w w" using ok by (simp add: sends_from_def)
  show ?thesis
  proof (cases "conn_state conn = kDisconnected")
    case True
    then show ?thesis using same p conn t by (simp add: sendInLoop_def send_post_def state_of_def)
  next
    case False
    then have up: "conn_state conn = kConnected \<or> conn_state conn = kDisconnecting"
      using st conn by (cases "conn_state conn") (auto simp: state_of_def)
    note wr = conn_parts_up(3)[OF parts up]
    show ?thesis
    proof (cases "isWriting ch")
      case True
      have "result_in {LengthError} (sendInLoop_buffer os cur p data 0 conn w) (sends_from sent p data w)"
        if "data \<noteq> []"
        using sendInLoop_buffer_ok[OF spec t p conn ch parts up, of 0 data] that len by simp
      then show ?thesis
        using True False same p conn ch c t len
        by (auto simp: sendInLoop_def send_post_def size_sub_data elim!: result_in_mono)
    next
      case no: False
      then have out: "content (outputBuffer conn) = []" using wr by simp
      then have "readableBytes (outputBuffer conn) = 0"
        using parts by (simp add: readableBytes_content conn_parts_ok_def)
      then show ?thesis
        using sendInLoop_write_ok[OF spec t ok conn out up len] False no p conn ch c t
        by (simp add: sendInLoop_def)
    qed
  qed
qed

section \<open>Draining the output buffer\<close>

lemma vec_read_content:
  "buffer_inv b \<Longrightarrow> vec_read (peek b) (readableBytes b) (buffer b) = Inr (content b)"
  using buffer_invD[of b] by (simp add: vec_read_def buffer_simps content_def peek_def)

text \<open>\<open>shutdownInLoop\<close>, and the last part of \<open>handleWrite\<close>, once the buffer is empty.\<close>

lemma shutdownInLoop_eq:
  assumes "p \<noteq> 0" "conns w p = Some conn" "conn_channel conn \<noteq> 0" "channels w (conn_channel conn) = Some ch" "tid w = cur"
  shows "shutdownInLoop os cur p w = Inr (if conn_state conn \<noteq> kDisconnected \<and> \<not> isWriting ch
    then snd (sys (sys_shutdown_wr os (sockfd conn)) w) else w)"
  using assms by (simp add: shutdownInLoop_def)

definition drained ::
  "'k os \<Rightarrow> nat \<Rightarrow> nat \<Rightarrow> TcpConnection \<Rightarrow> Channel \<Rightarrow> ('k, 'z) conn_world_scheme \<Rightarrow> ('k, 'z) conn_world_scheme"
where
  "drained os cur p conn ch w =
     (let w3 = with_interest os (conn_channel conn) ch (ch_events ch AND NOT EPOLLOUT) (put_conn p conn w)
      in queue_writeComplete os cur p conn
           (if conn_state conn = kDisconnecting then snd (sys (sys_shutdown_wr os (sockfd conn)) w3) else w3))"

lemma handleWrite_eq:
  assumes p: "p \<noteq> 0" and conn: "conns w p = Some conn" and ch: "channels w (conn_channel conn) = Some ch"
    and t: "tid w = cur" and parts: "conn_parts_ok (wakeupfd w) conn ch"
    and up: "conn_state conn = kConnected \<or> conn_state conn = kDisconnecting"
    and out: "content (outputBuffer conn) \<noteq> []"
    and w1: "sys (sys_write os (sockfd conn) (content (outputBuffer conn))) w = (r, w1)"
    and n: "\<And>n. r = Inr n \<Longrightarrow> n \<le> length (content (outputBuffer conn))"
  shows "case r of Inl err \<Rightarrow> handleWrite os cur p w = Inr w1
    | Inr n \<Rightarrow> \<exists>b. buffer_inv b \<and> content b = drop n (content (outputBuffer conn)) \<and>
        handleWrite os cur p w = Inr (if content b = []
          then drained os cur p (conn\<lparr>outputBuffer := b\<rparr>) ch w1 else put_conn p (conn\<lparr>outputBuffer := b\<rparr>) w1)"
proof -
  have inv: "buffer_inv (outputBuffer conn)" and c: "conn_channel conn \<noteq> 0"
    using parts by (simp_all add: conn_parts_ok_def)
  have wr: "isWriting ch" "pooling ch" "bit (ch_events ch) 1" using conn_parts_up[OF parts up] out by auto
  have pos: "readableBytes (outputBuffer conn) > 0" using out inv by (simp add: readableBytes_content)
  have frame: "conns w1 = conns w" "channels w1 = channels w" "tid w1 = tid w"
    using w1 by (auto simp: sys_def case_prod_beta)
  note start = handleWrite_def vec_read_content[OF inv]
  show ?thesis
  proof (cases r)
    case (Inl err)
    then show ?thesis using p conn ch c up pos wr w1 by (auto simp: start)
  next
    case (Inr m)
    obtain b where b: "retrieve m (outputBuffer conn) = Inr b" "buffer_inv b"
        "content b = drop m (content (outputBuffer conn))"
      using buf.dequeue_ok[OF inv n[OF Inr]] by (auto simp: returns_iff)
    let ?conn = "conn\<lparr>outputBuffer := b\<rparr>"
    let ?w2 = "put_conn p ?conn w1"
    let ?w3 = "with_interest os (conn_channel conn) ch (ch_events ch AND NOT EPOLLOUT) ?w2"
    have dis: "disableWrite os cur (conn_channel conn) ?w2 = Inr ?w3"
      using disableWrite.interest_ok[of ?w2 cur "conn_channel conn" ch os] frame t ch c wr by simp
    have shut: "shutdownInLoop os cur p ?w3 = Inr (snd (sys (sys_shutdown_wr os (sockfd conn)) ?w3))"
      if "conn_state conn = kDisconnecting"
      using shutdownInLoop_eq[of p ?w3 ?conn] p c frame t that by (simp add: isWriting_bit)
    have "handleWrite os cur p w = Inr (if content b = [] then drained os cur p ?conn ch w1 else ?w2)"
      using p conn ch c up pos wr w1 Inr b dis shut
      by (auto simp: start readableBytes_content drained_def Let_def)
    then show ?thesis unfolding Inr sum.case using b by blast
  qed
qed

lemma drained_simps [simp]:
  "conns (drained os cur p conn ch w) = (conns w)(p \<mapsto> conn)"
  "channels (drained os cur p conn ch w) = (channels w)(conn_channel conn \<mapsto>
     ch\<lparr>ch_events := ch_events ch AND NOT EPOLLOUT, pooling := (ch_events ch AND NOT EPOLLOUT \<noteq> 0)\<rparr>)"
  "tid (drained os cur p conn ch w) = tid w" "wakeupfd (drained os cur p conn ch w) = wakeupfd w"
  by (simp_all add: drained_def Let_def)

lemma sent_drained:
  assumes "write_spec os sent" "wakeupfd w \<noteq> sockfd conn"
  shows "sent (kernel (drained os cur p conn ch w)) (sockfd conn) = sent (kernel w) (sockfd conn)"
  using assms(2)
  by (simp add: drained_def Let_def sent_queue_writeComplete[OF assms(1)] write_specD(3,4)[OF assms(1)])

lemma handleWrite_ok:
  assumes spec: "write_spec os sent" and t: "tid w = cur" and ok: "conn_ok p w"
    and conn: "conns w p = Some conn"
    and ready: "conn_state conn = kDisconnected \<or> conn_state conn \<noteq> kConnecting \<and> content (outputBuffer conn) \<noteq> []"
  shows "returns (handleWrite os cur p w) (sends_from sent p [] w)"
proof (cases "conn_state conn = kDisconnected")
  case True
  have "p \<noteq> 0" using ok by (auto elim: conn_okE)
  then show ?thesis using True conn ok by (simp add: handleWrite_def sends_from_def)
next
  case False
  then have up: "conn_state conn = kConnected \<or> conn_state conn = kDisconnecting"
    and out: "content (outputBuffer conn) \<noteq> []"
    using ready by (cases "conn_state conn", auto)+
  from ok conn obtain ch where p: "p \<noteq> 0" and ch: "channels w (conn_channel conn) = Some ch"
    and parts: "conn_parts_ok (wakeupfd w) conn ch" by (auto elim: conn_okE)
  obtain r w1 where w1: "sys (sys_write os (sockfd conn) (content (outputBuffer conn))) w = (r, w1)" by fastforce
  then have k: "sys_write os (sockfd conn) (content (outputBuffer conn)) (kernel w) = (r, kernel w1)"
    and frame: "conns w1 = conns w" "channels w1 = channels w" "tid w1 = tid w" "wakeupfd w1 = wakeupfd w"
    by (auto simp: sys_def case_prod_beta)
  have n: "n \<le> length (content (outputBuffer conn))" if "r = Inr n" for n
    using write_specD(2)[OF spec] k that by blast
  note eq = handleWrite_eq[OF p conn ch t parts up out w1 n]
  show ?thesis
  proof (cases r)
    case (Inl err)
    then show ?thesis
      using eq write_specD(1)[OF spec] k frame by (auto intro!: sends_from_kernel[OF ok conn])
  next
    case (Inr m)
    then obtain b where b: "buffer_inv b" "content b = drop m (content (outputBuffer conn))"
      and run: "handleWrite os cur p w = Inr (if content b = []
          then drained os cur p (conn\<lparr>outputBuffer := b\<rparr>) ch w1 else put_conn p (conn\<lparr>outputBuffer := b\<rparr>) w1)"
        (is "_ = Inr ?w'")
      using eq by auto
    have wfd: "wakeupfd w1 \<noteq> sockfd (conn\<lparr>outputBuffer := b\<rparr>)" using parts frame by (simp add: conn_parts_ok_def)
    have "sent (kernel w1) (sockfd conn) = sent (kernel w) (sockfd conn) @ take m (content (outputBuffer conn))"
      using write_specD(2)[OF spec] k Inr by fastforce
    then have "out_stream sent p ?w' = out_stream sent p w"
      using b conn sent_drained[OF spec wfd] by (simp add: out_stream_def)
    moreover have "conn_ok p ?w'"
      by (rule conn_okI[OF p, where conn = "conn\<lparr>outputBuffer := b\<rparr>" and ch = "if content b = []
          then ch\<lparr>ch_events := ch_events ch AND NOT EPOLLOUT, pooling := True\<rparr> else ch"])
        (use ch frame parts up b conn_parts_up[OF parts up] clear_OUT_nonzero out in
          \<open>auto simp: conn_parts_ok_def isWriting_bit\<close>)
    ultimately show ?thesis
      using run conn frame by (simp add: sends_from_def state_of_def)
  qed
qed

section \<open>The stream\<close>

text \<open>What happens to the sending side: the user sends, and the kernel reports EPOLLOUT, which it
  does only while the channel watches it.\<close>

datatype send_op = Send "byte list" | WriteReady

fun run_send_op :: "'k os \<Rightarrow> nat \<Rightarrow> nat \<Rightarrow> send_op \<Rightarrow> ('k, 'z) conn_op" where
  "run_send_op os cur p (Send data) w = conn_send os cur p data w"
| "run_send_op os cur p WriteReady w =
     rbind (deref (conns w) p) (\<lambda>conn.
     rbind (deref (channels w) (conn_channel conn)) (\<lambda>ch.
     if isWriting ch then handleWrite os cur p w else Inr w))"

fun sends :: "send_op list \<Rightarrow> byte list list" where
  "sends [] = []"
| "sends (Send data # ops) = data # sends ops"
| "sends (WriteReady # ops) = sends ops"

lemma conn_send_ok:
  assumes "write_spec os sent" "tid w = cur" "conn_ok p w" "length data \<le> max_size"
  shows "result_in {LengthError} (conn_send os cur p data w)
    (\<lambda>w'. send_post os sent p data w w' \<or> state_of p w \<noteq> kConnected \<and> w' = w)"
proof -
  from assms(3) obtain conn where "p \<noteq> 0" "conns w p = Some conn" by (rule conn_okE)
  then show ?thesis
    using sendInLoop_ok[OF assms(1-3) _ assms(4)] assms(2)
    by (auto simp: conn_send_def isInLoopThread_def state_of_def elim!: result_in_mono)
qed

text \<open>
  Of a list of messages, those that are not given up enter the stream, whole and in order; all
  of them do while the connection is up and no write says that the peer is gone.
\<close>

definition delivers ::
  "'k os \<Rightarrow> ('k \<Rightarrow> int \<Rightarrow> byte list) \<Rightarrow> nat \<Rightarrow> byte list list \<Rightarrow>
   ('k, 'z) conn_world_scheme \<Rightarrow> ('k, 'z) conn_world_scheme \<Rightarrow> bool"
where
  "delivers os sent p msgs w w' \<longleftrightarrow>
     (\<exists>ds. subseq ds msgs \<and> sends_from sent p (concat ds) w w' \<and>
        (state_of p w = kConnected \<and> (\<forall>fd d k. \<not> write_broken os fd d k) \<longrightarrow> ds = msgs))"

lemma delivers_none: "sends_from sent p [] w w' \<Longrightarrow> delivers os sent p [] w w'"
  unfolding delivers_def by (rule exI[of _ "[]"]) simp

lemma delivers_all: "sends_from sent p data w w' \<Longrightarrow> delivers os sent p [data] w w'"
  unfolding delivers_def by (rule exI[of _ "[data]"]) simp

lemma delivers_lost:
  "sends_from sent p [] w w' \<Longrightarrow> state_of p w \<noteq> kConnected \<or> write_broken os fd d k \<Longrightarrow>
    delivers os sent p [data] w w'"
  unfolding delivers_def by (rule exI[of _ "[]"]) auto

lemma delivers_trans:
  assumes "delivers os sent p m1 w w1" "delivers os sent p m2 w1 w2"
  shows "delivers os sent p (m1 @ m2) w w2"
proof -
  obtain ds where ds: "subseq ds m1" "sends_from sent p (concat ds) w w1"
    "state_of p w = kConnected \<and> (\<forall>fd d k. \<not> write_broken os fd d k) \<longrightarrow> ds = m1"
    using assms(1) by (auto simp: delivers_def)
  obtain es where es: "subseq es m2" "sends_from sent p (concat es) w1 w2"
    "state_of p w1 = kConnected \<and> (\<forall>fd d k. \<not> write_broken os fd d k) \<longrightarrow> es = m2"
    using assms(2) by (auto simp: delivers_def)
  have "state_of p w1 = state_of p w" using ds(2) by (simp add: sends_from_def)
  then show ?thesis
    using ds es sends_from_trans[OF ds(2) es(2)] unfolding delivers_def
    by (intro exI[of _ "ds @ es"]) (simp add: list_emb_append_mono)
qed

lemma send_post_delivers: "send_post os sent p data w w' \<Longrightarrow> delivers os sent p [data] w w'"
  unfolding send_post_def by (auto intro: delivers_all delivers_lost split: option.splits)

lemma run_send_op_ok:
  assumes "write_spec os sent" "tid w = cur" "conn_ok p w" "\<And>data. op = Send data \<Longrightarrow> length data \<le> max_size"
  shows "result_in {LengthError} (run_send_op os cur p op w) (delivers os sent p (sends [op]) w)"
proof -
  have same: "sends_from sent p [] w w" using assms(3) by (simp add: sends_from_def)
  show ?thesis
  proof (cases op)
    case (Send data)
    have "delivers os sent p [data] w w" if "state_of p w \<noteq> kConnected"
      using delivers_lost[OF same] that by blast
    then show ?thesis
      using conn_send_ok[OF assms(1-3) assms(4)] Send
      by (auto elim!: result_in_mono intro: send_post_delivers)
  next
    case WriteReady
    from assms(3) obtain conn ch where c: "p \<noteq> 0" "conns w p = Some conn" "channels w (conn_channel conn) = Some ch"
      "conn_parts_ok (wakeupfd w) conn ch" by (rule conn_okE)
    have ready: "conn_state conn \<noteq> kConnecting \<and> content (outputBuffer conn) \<noteq> []" if "isWriting ch"
      using that c(4) by (auto simp: conn_parts_ok_def isWriting_def split: ConnectState.splits)
    have "conn_channel conn \<noteq> 0" using c(4) by (simp add: conn_parts_ok_def)
    then show ?thesis
      using handleWrite_ok[OF assms(1-3) c(2)] ready WriteReady c(1-3) same
      by (auto simp: returns_iff delivers_none)
  qed
qed

lemma run_send_ops_ok:
  assumes "write_spec os sent" "tid w = cur" "conn_ok p w" "\<And>data. Send data \<in> set ops \<Longrightarrow> length data \<le> max_size"
  shows "result_in {LengthError} (rfold (run_send_op os cur p) ops w) (delivers os sent p (sends ops) w)"
  using assms(2,3,4)
proof (induction ops arbitrary: w)
  case Nil
  then show ?case by (auto intro!: delivers_none simp: sends_from_def)
next
  case (Cons op ops)
  have split: "sends (op # ops) = sends [op] @ sends ops" by (cases op) auto
  have step: "result_in {LengthError} (run_send_op os cur p op w) (delivers os sent p (sends [op]) w)"
    using run_send_op_ok[OF assms(1) Cons.prems(1,2), of op] Cons.prems(3) by simp
  have "result_in {LengthError} (rfold (run_send_op os cur p) ops w1) (delivers os sent p (sends (op # ops)) w)"
    if w1: "delivers os sent p (sends [op]) w w1" for w1
  proof -
    have "tid w1 = cur" "conn_ok p w1" using w1 Cons.prems(1) by (auto simp: delivers_def sends_from_def)
    from Cons.IH[OF this] show ?thesis
      using Cons.prems(3) delivers_trans[OF w1] by (auto simp: split elim!: result_in_mono)
  qed
  with step show ?case unfolding rfold.simps by (rule result_in_rbind)
qed

section \<open>Properties\<close>

text \<open>
  C2. The bytes given to \<open>send\<close> reach the socket once, whole and in order. Whatever the kernel
  takes of each write, after any sequence of sends and EPOLLOUT events in the loop's thread the
  socket has taken a prefix of, and the output buffer holds the rest of, what was in the
  stream before followed by the messages sent: all of them while no write reports
  that the peer is gone (EPIPE or ECONNRESET), and otherwise a subsequence of whole messages.
  No assertion of \<open>sendInLoop\<close> or \<open>handleWrite\<close> fails, and EPOLLOUT is watched exactly while
  output is waiting. The only other outcome is that the output buffer cannot grow any more.
\<close>

theorem stream_in_order:
  assumes "write_spec os sent" and "tid w = cur" and "conn_ok p w" and "state_of p w = kConnected"
    and "\<forall>data \<in> set (sends ops). length data \<le> max_size"
  shows "result_in {LengthError} (rfold (run_send_op os cur p) ops w) (\<lambda>w'.
    conn_ok p w' \<and> (\<exists>ds. subseq ds (sends ops) \<and> out_stream sent p w' = out_stream sent p w @ concat ds \<and>
      ((\<forall>fd d k. \<not> write_broken os fd d k) \<longrightarrow> ds = sends ops)))"
proof -
  have mem: "data \<in> set (sends ops)" if "Send data \<in> set ops" for data
    using that by (induction ops rule: sends.induct) auto
  have "result_in {LengthError} (rfold (run_send_op os cur p) ops w) (delivers os sent p (sends ops) w)"
    using run_send_ops_ok[OF assms(1-3)] mem assms(5) by blast
  then show ?thesis
    using assms(4) by (auto simp: delivers_def sends_from_def elim!: result_in_mono)
qed

text \<open>A connection that is up, on the sample kernel, whose socket takes four more bytes.\<close>

definition sample_conn :: TcpConnection where
  "sample_conn = \<lparr>sockfd = 7, conn_channel = 21, conn_state = kConnected,
     conn_local = InetAddress_new 80 True, conn_peer = InetAddress_new 9000 True,
     inputBuffer = sample_buffer, outputBuffer = sample_buffer, highWaterMark = 0, conn_context = None,
     messageCallback = Some DefaultMessageCallback, writeCompleteCallback = None,
     highWaterMarkCallback = None, closeCallback = Some (UserConnCallback 1)\<rparr>"

definition sample_world :: "sample_kernel conn_world" where
  "sample_world = put_conn 20 sample_conn
     (put_channel 21 ((Channel_new 7)\<lparr>pooling := True, ch_events := EPOLLIN OR EPOLLPRI\<rparr>)
       (EventLoop.extend sample_loop (conn_world.fields Map.empty)))"

lemma sample_world_simps [simp]:
  "conns sample_world 20 = Some sample_conn" "tid sample_world = 1" "wakeupfd sample_world = 4"
  "channels sample_world 21 = Some ((Channel_new 7)\<lparr>pooling := True, ch_events := EPOLLIN OR EPOLLPRI\<rparr>)"
  "kernel sample_world = sample_state"
  by (simp_all add: sample_world_def put_channel_def put_conn_def EventLoop.extend_def sample_loop_def conn_world.defs)

lemma sample_buffer_empty: "content sample_buffer = []"
  by (simp add: content_def sample_buffer_def)

lemma sample_world_ok: "conn_ok 20 sample_world" "state_of 20 sample_world = kConnected"
  by (simp_all add: conn_ok_def state_of_def sample_conn_def conn_parts_ok_def sample_buffer_inv
      Channel_new_def isWriting_def epoll_masks sample_buffer_empty)

lemma sample_not_broken: "\<not> write_broken sample_os fd d k"
  by (auto simp: write_broken_def sample_write_def EAGAIN_def EPIPE_def ECONNRESET_def Let_def)

theorem stream_in_order_witness:
  "\<exists>w'. rfold (run_send_op sample_os 1 20) [Send [1, 2, 3], Send [4, 5, 6], WriteReady] sample_world = Inr w'
    \<and> out_stream sk_sent 20 w' = out_stream sk_sent 20 sample_world @ [1, 2, 3, 4, 5, 6]"
proof -
  let ?ops = "[Send [1, 2, 3], Send [4, 5, 6], WriteReady]"
  have "result_in {LengthError} (rfold (run_send_op sample_os 1 20) ?ops sample_world)
      (\<lambda>w'. out_stream sk_sent 20 w' = out_stream sk_sent 20 sample_world @ [1, 2, 3, 4, 5, 6])"
    by (rule result_in_mono[OF stream_in_order[OF sample_os_write _ sample_world_ok, of 1 ?ops]])
      (auto simp: max_size_def sample_not_broken)
  moreover have "\<exists>w'. rfold (run_send_op sample_os 1 20) ?ops sample_world = Inr w'"
    by (simp add: conn_send_def isInLoopThread_def sample_conn_def sendInLoop_def Channel_new_def isWriting_def
        epoll_masks sendInLoop_write_def sys_def sample_write_def sample_state_def size_sub_def SIZE_T_def
        queue_writeComplete_def readableBytes_def sample_buffer_def sendInLoop_buffer_def Buffer_append_def
        ensureWritableBytes_def writableBytes_def vec_write_def beginWrite_def blit_def hasWritten_def size_add_def
        enableWrite.interest_eq handleWrite_def vec_read_def peek_def Let_def EAGAIN_def sample_epoll_ctl_def)
  ultimately show ?thesis by auto
qed

section \<open>Orderly shutdown\<close>

text \<open>
  shutdown(2): \<open>shut k fd\<close> says that the write side was shut down; the other calls a
  connection makes do not shut anything down.
\<close>

definition shutdown_spec :: "'k os \<Rightarrow> ('k \<Rightarrow> int \<Rightarrow> bool) \<Rightarrow> bool" where
  "shutdown_spec os shut \<longleftrightarrow>
     (\<forall>fd k. shut (snd (sys_shutdown_wr os fd k)) = (shut k)(fd := True)) \<and>
     (\<forall>fd d k. shut (snd (sys_write os fd d k)) = shut k) \<and>
     (\<forall>op fd ev c k. shut (snd (sys_epoll_ctl os op fd ev c k)) = shut k)"

lemma shutdown_specD:
  assumes "shutdown_spec os shut"
  shows "shut (snd (sys_shutdown_wr os fd k)) = (shut k)(fd := True)"
    and "shut (snd (sys_write os fd d k)) = shut k"
    and "shut (snd (sys_epoll_ctl os op fd ev c k)) = shut k"
  using assms by (simp_all add: shutdown_spec_def)

lemma shut_queue_writeComplete:
  "shutdown_spec os shut \<Longrightarrow> shut (kernel (queue_writeComplete os cur p conn w)) = shut (kernel w)"
  by (simp add: shutdown_specD queue_writeComplete_def queueInLoop_def queueInLoop_wake_def
      EventLoop_wakeup_def split: option.splits)

lemma shut_drained:
  assumes "shutdown_spec os shut"
  shows "shut (kernel (drained os cur p conn ch w)) =
    (if conn_state conn = kDisconnecting then (shut (kernel w))(sockfd conn := True) else shut (kernel w))"
  by (simp add: drained_def Let_def shut_queue_writeComplete[OF assms] shutdown_specD[OF assms])

text \<open>
  A connection that is shutting down: FIN has been sent exactly when no output is waiting.
\<close>

definition closing :: "('k \<Rightarrow> int \<Rightarrow> bool) \<Rightarrow> nat \<Rightarrow> ('k, 'z) conn_world_scheme \<Rightarrow> bool" where
  "closing shut p w \<longleftrightarrow> state_of p w = kDisconnecting \<and>
     (case conns w p of None \<Rightarrow> False
      | Some conn \<Rightarrow> shut (kernel w) (sockfd conn) \<longleftrightarrow> content (outputBuffer conn) = [])"

text \<open>EPOLLOUT is reported \<open>n\<close> times (it is only reported while it is watched).\<close>

fun drain :: "'k os \<Rightarrow> nat \<Rightarrow> nat \<Rightarrow> nat \<Rightarrow> ('k, 'z) conn_op" where
  "drain os cur p 0 w = Inr w"
| "drain os cur p (Suc n) w = rbind (run_send_op os cur p WriteReady w) (drain os cur p n)"

lemma closing_handleWrite:
  assumes spec: "shutdown_spec os shut" "write_spec os sent" and t: "tid w = cur" and ok: "conn_ok p w"
    and cl: "closing shut p w" and conn: "conns w p = Some conn" and out: "content (outputBuffer conn) \<noteq> []"
  shows "returns (handleWrite os cur p w) (closing shut p)"
proof -
  have up: "conn_state conn = kDisconnecting" and fin: "\<not> shut (kernel w) (sockfd conn)"
    using cl conn out by (auto simp: closing_def state_of_def)
  from ok conn obtain ch where p: "p \<noteq> 0" and ch: "channels w (conn_channel conn) = Some ch"
    and parts: "conn_parts_ok (wakeupfd w) conn ch" by (auto elim: conn_okE)
  obtain r w1 where w1: "sys (sys_write os (sockfd conn) (content (outputBuffer conn))) w = (r, w1)" by fastforce
  then have k: "sys_write os (sockfd conn) (content (outputBuffer conn)) (kernel w) = (r, kernel w1)"
    and frame: "conns w1 = conns w"
    by (auto simp: sys_def case_prod_beta)
  have shut1: "shut (kernel w1) = shut (kernel w)"
    using shutdown_specD(2)[OF spec(1), of "sockfd conn" "content (outputBuffer conn)" "kernel w"] k by simp
  have n: "n \<le> length (content (outputBuffer conn))" if "r = Inr n" for n
    using write_specD(2)[OF spec(2)] k that by blast
  note eq = handleWrite_eq[OF p conn ch t parts disjI2[OF up] out w1 n]
  show ?thesis
  proof (cases r)
    case (Inl err)
    then show ?thesis using eq cl shut1 frame conn by (simp add: closing_def state_of_def)
  next
    case (Inr m)
    then obtain b where "handleWrite os cur p w = Inr (if content b = []
        then drained os cur p (conn\<lparr>outputBuffer := b\<rparr>) ch w1 else put_conn p (conn\<lparr>outputBuffer := b\<rparr>) w1)"
      using eq by auto
    then show ?thesis
      using up fin shut1 by (simp add: closing_def state_of_def shut_drained[OF spec(1)])
  qed
qed

lemma drain_ok:
  assumes spec: "shutdown_spec os shut" "write_spec os sent"
  shows "tid w = cur \<Longrightarrow> conn_ok p w \<Longrightarrow> closing shut p w \<Longrightarrow>
    returns (drain os cur p n w) (\<lambda>w'. conn_ok p w' \<and> closing shut p w' \<and> out_stream sent p w' = out_stream sent p w)"
proof (induction n arbitrary: w)
  case (Suc n)
  from Suc.prems(2) obtain conn ch where c: "p \<noteq> 0" "conns w p = Some conn" "channels w (conn_channel conn) = Some ch"
    "conn_parts_ok (wakeupfd w) conn ch" by (rule conn_okE)
  have c0: "conn_channel conn \<noteq> 0" using c(4) by (simp add: conn_parts_ok_def)
  have up: "conn_state conn = kDisconnecting" using Suc.prems(3) c(2) by (simp add: closing_def state_of_def)
  have wr: "isWriting ch \<longleftrightarrow> content (outputBuffer conn) \<noteq> []" using conn_parts_up(3)[OF c(4)] up by simp
  have "returns (run_send_op os cur p WriteReady w) (\<lambda>w1. sends_from sent p [] w w1 \<and> closing shut p w1)"
    using handleWrite_ok[OF spec(2) Suc.prems(1,2) c(2)] closing_handleWrite[OF spec Suc.prems c(2)]
      c c0 up wr Suc.prems(2,3)
    by (cases "isWriting ch") (auto simp: returns_iff sends_from_def)
  then obtain w1 where w1: "run_send_op os cur p WriteReady w = Inr w1" "sends_from sent p [] w w1" "closing shut p w1"
    by (auto simp: returns_iff)
  then have "tid w1 = cur" "conn_ok p w1" "out_stream sent p w1 = out_stream sent p w"
    using Suc.prems(1) by (auto simp: sends_from_def)
  with Suc.IH[OF this(1,2) w1(3)] w1(1) show ?case by simp
qed simp

text \<open>
  C10. Shutting down is orderly: \<open>shutdown\<close> in the loop's thread on a connection that is up,
  followed by any number of EPOLLOUT events, neither faults nor loses a byte, and at every
  moment FIN has been sent exactly when the output buffer is empty. So FIN comes after
  everything that was sent before \<open>shutdown\<close>, and as soon as that is out.
\<close>

theorem orderly_shutdown:
  assumes "write_spec os sent" and "shutdown_spec os shut" and "tid w = cur" and "conn_ok p w"
    and "conns w p = Some conn" and "conn_state conn = kConnected" and "\<not> shut (kernel w) (sockfd conn)"
  shows "returns (rbind (conn_shutdown os cur p w) (drain os cur p n)) (\<lambda>w'.
    closing shut p w' \<and> out_stream sent p w' = out_stream sent p w)"
proof -
  from assms(4,5) obtain ch where p: "p \<noteq> 0" and ch: "channels w (conn_channel conn) = Some ch"
    and parts: "conn_parts_ok (wakeupfd w) conn ch" by (auto elim: conn_okE)
  let ?conn = "conn\<lparr>conn_state := kDisconnecting\<rparr>"
  let ?w1 = "put_conn p ?conn w"
  let ?w2 = "if isWriting ch then ?w1 else snd (sys (sys_shutdown_wr os (sockfd conn)) ?w1)"
  have c: "conn_channel conn \<noteq> 0" using parts by (simp add: conn_parts_ok_def)
  have run: "conn_shutdown os cur p w = Inr ?w2"
    using p assms(3,5,6) shutdownInLoop_eq[of p ?w1 ?conn ch cur os] c ch
    by (simp add: conn_shutdown_def stateAtomicGetAndSet_def isInLoopThread_def)
  have wr: "isWriting ch \<longleftrightarrow> content (outputBuffer conn) \<noteq> []" using conn_parts_up(3)[OF parts] assms(6) by simp
  have "conn_ok p ?w2"
    by (rule conn_okI[OF p, where conn = ?conn and ch = ch])
      (use ch parts assms(6) in \<open>auto simp: conn_parts_ok_def\<close>)
  moreover have "closing shut p ?w2"
    using wr assms(7) by (auto simp: closing_def state_of_def shutdown_specD[OF assms(2)])
  moreover have "out_stream sent p ?w2 = out_stream sent p w"
    using assms(5) write_specD(4)[OF assms(1)] by (simp add: out_stream_def)
  ultimately show ?thesis
    using run drain_ok[OF assms(2,1), of ?w2 cur p n] assms(3) by (auto simp: returns_iff)
qed

lemma sample_os_shutdown: "shutdown_spec sample_os sk_shut"
  by (auto simp: shutdown_spec_def sample_write_def sample_epoll_ctl_def Let_def)

theorem orderly_shutdown_witness:
  "returns (rbind (conn_shutdown sample_os 1 20 sample_world) (drain sample_os 1 20 2)) (\<lambda>w'.
     closing sk_shut 20 w' \<and> out_stream sk_sent 20 w' = out_stream sk_sent 20 sample_world)"
  by (rule orderly_shutdown[OF sample_os_write sample_os_shutdown _ sample_world_ok(1), where conn = sample_conn])
    (simp_all add: sample_conn_def sample_state_def)

section \<open>Every handler keeps the invariant\<close>

text \<open>The invariant holds and the state has not moved back.\<close>

definition conn_forward :: "nat \<Rightarrow> ('k, 'z) conn_world_scheme \<Rightarrow> ('k, 'z) conn_world_scheme \<Rightarrow> bool" where
  "conn_forward p w w' \<longleftrightarrow> conn_ok p w' \<and> tid w' = tid w \<and>
     state_of p w \<le> state_of p w'"

text \<open>
  What user callbacks may do with the connection: whatever keeps its invariant and moves it
  forward (sending, shutting down, closing by force), or end in one of the faults \<open>E\<close>.
\<close>

definition good_callbacks :: "fault set \<Rightarrow> nat \<Rightarrow> nat \<Rightarrow> ('k, 'z) conn_call \<Rightarrow> bool" where
  "good_callbacks E cur p call \<longleftrightarrow>
     (\<forall>cb w. conn_ok p w \<and> tid w = cur \<longrightarrow> result_in E (call cb p w) (conn_forward p w))"

text \<open>readv(2) never delivers more than it was asked for.\<close>

definition readv_spec :: "'k os \<Rightarrow> bool" where
  "readv_spec os \<longleftrightarrow> (\<forall>fd n k. case sys_readv os fd n k of (Inl _, _) \<Rightarrow> True | (Inr data, _) \<Rightarrow> length data \<le> n)"

lemma conn_forward_trans: "conn_forward p w w1 \<Longrightarrow> conn_forward p w1 w2 \<Longrightarrow> conn_forward p w w2"
  by (auto simp: conn_forward_def)

lemma conn_forward_same:
  "conn_ok p w \<Longrightarrow> conns w' = conns w \<Longrightarrow> channels w' = channels w \<Longrightarrow> tid w' = tid w \<Longrightarrow>
    wakeupfd w' = wakeupfd w \<Longrightarrow> conn_forward p w w'"
  using conn_ok_cong[of w' p w] by (simp add: conn_forward_def state_of_def)

lemma call_conn_ok:
  assumes "good_callbacks E cur p call" "conn_ok p w" "tid w = cur" "cb \<noteq> None"
  shows "result_in E (call_conn call cb p w) (conn_forward p w)"
  using assms by (auto simp: good_callbacks_def call_conn_def)

text \<open>Closing: the channel leaves the interest list, then the close callback runs.\<close>

lemma handleClose_ok:
  assumes call: "good_callbacks E cur p call" and ok: "conn_ok p w" and t: "tid w = cur"
    and up: "state_of p w = kConnected \<or> state_of p w = kDisconnecting"
  shows "result_in E (handleClose os call cur p w) (\<lambda>w'. conn_forward p w w' \<and> state_of p w' = kDisconnected)"
proof -
  from ok obtain conn ch where p: "p \<noteq> 0" and conn: "conns w p = Some conn"
    and ch: "channels w (conn_channel conn) = Some ch"
    and parts: "conn_parts_ok (wakeupfd w) conn ch" by (rule conn_okE)
  have st: "conn_state conn = kConnected \<or> conn_state conn = kDisconnecting" using up conn by (simp add: state_of_def)
  let ?conn = "conn\<lparr>conn_state := kDisconnected\<rparr>"
  let ?w1 = "put_conn p ?conn w"
  let ?w2 = "with_interest os (conn_channel conn) ch 0 ?w1"
  have c: "conn_channel conn \<noteq> 0" "closeCallback conn \<noteq> None" using parts by (simp_all add: conn_parts_ok_def)
  have rm: "EventLoop_removeChannel os cur (conn_channel conn) ?w1 = Inr ?w2"
    using disableAll.interest_ok[of ?w1 cur "conn_channel conn" ch os] c ch t conn_parts_up(1)[OF parts st]
    by (simp add: removeChannel_eq)
  have ok2: "conn_ok p ?w2"
    by (rule conn_okI[OF p, where conn = ?conn and ch = "ch\<lparr>ch_events := 0, pooling := False\<rparr>"])
      (use parts in \<open>auto simp: conn_parts_ok_def\<close>)
  have fwd: "conn_forward p w ?w2" and st2: "state_of p ?w2 = kDisconnected"
    using ok2 st conn by (auto simp: conn_forward_def state_of_def)
  have "result_in E (call_conn call (closeCallback conn) p ?w2)
      (\<lambda>w'. conn_forward p w w' \<and> state_of p w' = kDisconnected)"
    by (rule result_in_mono[OF call_conn_ok[OF call ok2 _ c(2)] order_refl])
      (use t st2 conn_forward_trans[OF fwd] in
        \<open>auto simp: conn_forward_def\<close>)
  then show ?thesis using p conn t st rm by (simp add: handleClose_def)
qed

lemma conn_upE:
  assumes "conn_ok p w" "state_of p w = kConnected \<or> state_of p w = kDisconnecting"
  obtains conn ch where "p \<noteq> 0" "conns w p = Some conn" "channels w (conn_channel conn) = Some ch"
    "conn_parts_ok (wakeupfd w) conn ch" "conn_channel conn \<noteq> 0"
    "conn_state conn = kConnected \<or> conn_state conn = kDisconnecting"
proof -
  obtain conn ch where c: "p \<noteq> 0" "conns w p = Some conn" "channels w (conn_channel conn) = Some ch"
    "conn_parts_ok (wakeupfd w) conn ch" using conn_okE[OF assms(1)] .
  then show thesis using that[OF c] assms(2) by (simp add: conn_parts_ok_def state_of_def)
qed

lemma handleRead_ok:
  assumes call: "good_callbacks E cur p call" and readv: "readv_spec os" and ok: "conn_ok p w" and t: "tid w = cur"
    and up: "state_of p w = kConnected \<or> state_of p w = kDisconnecting"
  shows "result_in (insert LengthError E) (handleRead os call cur p w) (conn_forward p w)"
proof -
  obtain conn ch where p: "p \<noteq> 0" and conn: "conns w p = Some conn" and ch: "channels w (conn_channel conn) = Some ch"
    and parts: "conn_parts_ok (wakeupfd w) conn ch" and c: "conn_channel conn \<noteq> 0"
    and st: "conn_state conn = kConnected \<or> conn_state conn = kDisconnecting"
    using conn_upE[OF ok up] .
  obtain rv w1 where w1: "sys (sys_readv os (sockfd conn) (readFd_capacity (inputBuffer conn))) w = (rv, w1)" by fastforce
  then have frame: "conns w1 = conns w" "channels w1 = channels w" "tid w1 = tid w" "wakeupfd w1 = wakeupfd w"
    by (auto simp: sys_def case_prod_beta)
  have inv: "buffer_inv (inputBuffer conn)" "messageCallback conn \<noteq> None" using parts by (simp_all add: conn_parts_ok_def)
  have got: "conn_ok p (put_conn p (conn\<lparr>inputBuffer := b\<rparr>) w1)"
      "conn_forward p w (put_conn p (conn\<lparr>inputBuffer := b\<rparr>) w1)"
      "state_of p (put_conn p (conn\<lparr>inputBuffer := b\<rparr>) w1) = state_of p w" if "buffer_inv b" for b
  proof -
    show *: "conn_ok p (put_conn p (conn\<lparr>inputBuffer := b\<rparr>) w1)"
      by (rule conn_okI[OF p, where conn = "conn\<lparr>inputBuffer := b\<rparr>" and ch = ch])
        (use parts ch frame that st in \<open>auto simp: conn_parts_ok_def\<close>)
    show "conn_forward p w (put_conn p (conn\<lparr>inputBuffer := b\<rparr>) w1)"
      "state_of p (put_conn p (conn\<lparr>inputBuffer := b\<rparr>) w1) = state_of p w"
      using * conn frame by (simp_all add: conn_forward_def state_of_def)
  qed
  note start = handleRead_def Let_def
  show ?thesis
  proof (cases rv)
    case (Inl err)
    have "conn_forward p w (snd (sys (sys_so_error os (sockfd conn)) (put_conn p (conn\<lparr>inputBuffer := inputBuffer conn\<rparr>) w1)))"
      by (rule conn_forward_trans[OF got(2)[OF inv(1)] conn_forward_same[OF got(1)[OF inv(1)]]]) simp_all
    then show ?thesis using Inl p conn t st w1 by (auto simp: start readFd_def handleError_def)
  next
    case (Inr data)
    have "length data \<le> readFd_capacity (inputBuffer conn)"
      using readv w1 Inr unfolding readv_spec_def sys_def by (fastforce simp: case_prod_beta split: prod.splits sum.splits)
    note rd = readFd_result[OF inv(1) this]
    have "result_in (insert LengthError E)
        (if int (length data) = 0 then handleClose os call cur p (put_conn p (conn\<lparr>inputBuffer := b\<rparr>) w1)
         else call_conn call (messageCallback conn) p (put_conn p (conn\<lparr>inputBuffer := b\<rparr>) w1)) (conn_forward p w)"
      if b: "buffer_inv b" for b
      using handleClose_ok[OF call got(1)[OF b], of os] call_conn_ok[OF call got(1)[OF b] _ inv(2)]
        got(3)[OF b] up t frame conn_forward_trans[OF got(2)[OF b]]
      by (auto elim!: result_in_mono)
    then show ?thesis
      using rd Inr p conn t st w1
      by (cases "readFd (Inr data) (inputBuffer conn)") (auto simp: start split: prod.splits)
  qed
qed

lemma setRead_ok:
  assumes ok: "conn_ok p w" and t: "tid w = cur"
    and up: "state_of p w = kConnected \<or> state_of p w = kDisconnecting"
  shows "returns (stopReadInLoop os cur p w) (conn_forward p w)"
    and "returns (startReadInLoop os cur p w) (conn_forward p w)"
proof -
  obtain conn ch where c: "p \<noteq> 0" "conns w p = Some conn" "channels w (conn_channel conn) = Some ch"
    and parts: "conn_parts_ok (wakeupfd w) conn ch" and c4: "conn_channel conn \<noteq> 0"
    and st: "conn_state conn = kConnected \<or> conn_state conn = kDisconnecting"
    using conn_upE[OF ok up] .
  note up' = conn_parts_up[OF parts st]
  have new: "conn_forward p w (with_interest os (conn_channel conn) ch ev w)"
    if "bit ev 1" "bit ev 2 = bit (ch_events ch) 2" for ev
  proof -
    have "conn_ok p (with_interest os (conn_channel conn) ch ev w)"
      by (rule conn_okI[OF c(1), where conn = conn and ch = "ch\<lparr>ch_events := ev, pooling := True\<rparr>"])
        (use c parts st that up' bit_nonzero[OF that(1)] in \<open>auto simp: conn_parts_ok_def isWriting_bit\<close>)
    then show ?thesis by (simp add: conn_forward_def state_of_def)
  qed
  have same: "conn_forward p w w" using ok by (simp add: conn_forward_def)
  show "returns (stopReadInLoop os cur p w) (conn_forward p w)"
    using c c4 clear_IN_nonzero disableRead.interest_ok[OF t c(3) c4, of os] up' same new[of "ch_events ch AND NOT EPOLLIN"]
    by (simp add: stopReadInLoop_def)
  show "returns (startReadInLoop os cur p w) (conn_forward p w)"
    using c c4 enableRead.interest_ok[OF t c(3) c4, of os] up' same new[of "ch_events ch OR (EPOLLIN OR EPOLLPRI)"]
    by (simp add: startReadInLoop_def)
qed

lemma closing_calls_ok:
  assumes ok: "conn_ok p w" and t: "tid w = cur" and st: "state_of p w \<noteq> kConnecting"
  shows "returns (forceClose os cur p w) (conn_forward p w)"
    and "state_of p w \<noteq> kDisconnected \<Longrightarrow> returns (conn_shutdown os cur p w) (conn_forward p w)"
    and "returns (shutdownInLoop os cur p w) (conn_forward p w)"
proof -
  obtain conn ch where p: "p \<noteq> 0" and conn: "conns w p = Some conn" and ch: "channels w (conn_channel conn) = Some ch"
    and parts: "conn_parts_ok (wakeupfd w) conn ch" using conn_okE[OF ok] .
  let ?w1 = "put_conn p (conn\<lparr>conn_state := kDisconnecting\<rparr>) w"
  have c: "conn_channel conn \<noteq> 0" using parts by (simp add: conn_parts_ok_def)
  have w1: "conn_ok p ?w1" "conn_forward p w ?w1" if "state_of p w \<noteq> kDisconnected"
  proof -
    show *: "conn_ok p ?w1"
      by (rule conn_okI[OF p, where conn = "conn\<lparr>conn_state := kDisconnecting\<rparr>" and ch = ch])
        (use that parts ch st conn in \<open>auto simp: conn_parts_ok_def state_of_def split: ConnectState.splits\<close>)
    have "conn_state conn \<le> kDisconnecting"
      using that conn by (cases "conn_state conn") (simp_all add: state_of_def less_eq_ConnectState_def)
    then show "conn_forward p w ?w1" using * conn by (simp add: conn_forward_def state_of_def)
  qed
  have same: "conn_forward p w w" using ok by (simp add: conn_forward_def)
  have sd: "returns (shutdownInLoop os cur p v) (conn_forward p v)"
    if v: "conn_ok p v" "tid v = cur" for v :: "('a, 'b) conn_world_scheme"
  proof -
    obtain conn ch where "p \<noteq> 0" "conns v p = Some conn" "channels v (conn_channel conn) = Some ch"
      "conn_parts_ok (wakeupfd v) conn ch" using conn_okE[OF v(1)] .
    then show ?thesis
      using shutdownInLoop_eq[of p v conn ch cur os] v conn_forward_same[OF v(1)]
      by (simp add: conn_parts_ok_def)
  qed
  show "returns (shutdownInLoop os cur p w) (conn_forward p w)" by (rule sd[OF ok t])
  show "returns (forceClose os cur p w) (conn_forward p w)"
    using p conn same w1 conn_forward_trans[OF w1(2) conn_forward_same[OF w1(1)]]
    by (simp add: forceClose_def stateAtomicGetAndSet_def state_of_def)
  show "returns (conn_shutdown os cur p w) (conn_forward p w)" if "state_of p w \<noteq> kDisconnected"
    using p conn w1[OF that] sd[OF w1(1)[OF that]] that t conn_forward_trans[OF w1(2)[OF that]]
    by (auto simp: conn_shutdown_def stateAtomicGetAndSet_def state_of_def isInLoopThread_def returns_iff Let_def)
qed

text \<open>
  Everything the loop runs on a connection: the events of its channel, the tasks queued for it,
  and calls from user code in the loop's thread; and when each can occur. Nothing is
  reported for a channel that is not registered, so events other than a late EPOLLOUT come
  while the connection is up; \<open>shutdown\<close>, \<open>startRead\<close> and \<open>stopRead\<close> belong to a connection that
  is up as well.
\<close>

datatype conn_event =
    ReadEvent
  | WriteEvent
  | CloseEvent
  | ErrorEvent
  | SendTask "byte list"
  | ShutdownTask
  | ForceCloseTask
  | ShutdownCall
  | ForceCloseCall
  | StopReadTask
  | StartReadTask

fun run_conn_event :: "'k os \<Rightarrow> ('k, 'z) conn_call \<Rightarrow> nat \<Rightarrow> nat \<Rightarrow> conn_event \<Rightarrow> ('k, 'z) conn_op" where
  "run_conn_event os call cur p ReadEvent = handleRead os call cur p"
| "run_conn_event os call cur p WriteEvent = handleWrite os cur p"
| "run_conn_event os call cur p CloseEvent = handleClose os call cur p"
| "run_conn_event os call cur p ErrorEvent = handleError os p"
| "run_conn_event os call cur p (SendTask data) = sendInLoop os cur p data"
| "run_conn_event os call cur p ShutdownTask = shutdownInLoop os cur p"
| "run_conn_event os call cur p ForceCloseTask = forceCloseInLoop os call cur p"
| "run_conn_event os call cur p ShutdownCall = conn_shutdown os cur p"
| "run_conn_event os call cur p ForceCloseCall = forceClose os cur p"
| "run_conn_event os call cur p StopReadTask = stopReadInLoop os cur p"
| "run_conn_event os call cur p StartReadTask = startReadInLoop os cur p"

definition is_up :: "ConnectState \<Rightarrow> bool" where
  "is_up s \<longleftrightarrow> s = kConnected \<or> s = kDisconnecting"

fun may_occur :: "conn_event \<Rightarrow> TcpConnection \<Rightarrow> bool" where
  "may_occur WriteEvent conn \<longleftrightarrow> conn_state conn = kDisconnected \<or>
     is_up (conn_state conn) \<and> content (outputBuffer conn) \<noteq> []"
| "may_occur (SendTask data) conn \<longleftrightarrow> conn_state conn \<noteq> kConnecting \<and> length data \<le> max_size"
| "may_occur ErrorEvent conn \<longleftrightarrow> True"
| "may_occur ShutdownTask conn \<longleftrightarrow> conn_state conn \<noteq> kConnecting"
| "may_occur ForceCloseTask conn \<longleftrightarrow> conn_state conn \<noteq> kConnecting"
| "may_occur ForceCloseCall conn \<longleftrightarrow> conn_state conn \<noteq> kConnecting"
| "may_occur _ conn \<longleftrightarrow> is_up (conn_state conn)"

lemma returns_result_in: "returns r P \<Longrightarrow> result_in E r P"
  by (cases r) auto


text \<open>Witness: the peer of the sample connection has closed; the close callback adds nothing.\<close>

lemma sample_readv: "readv_spec sample_os"
  by (simp add: readv_spec_def)

lemma sample_callbacks: "good_callbacks {} 1 20 (\<lambda>cb p w. Inr w)"
  by (simp add: good_callbacks_def conn_forward_def)


section \<open>The two overloads of send\<close>

lemma conn_send_Buffer_eq:
  assumes "buffer_inv b"
  shows "conn_send_Buffer os cur p b w =
    rbind (deref (conns w) p) (\<lambda>conn.
      if conn_state conn = kConnected
      then rbind (conn_send os cur p (content b) w) (\<lambda>w'. Inr (retrieveAll b, w'))
      else Inr (b, w))"
proof -
  have str: "retrieveAllAsString b = Inr (content b, retrieveAll b)"
    using vec_read_content[OF assms] by (simp add: retrieveAllAsString_def retrieveAsString_def retrieve_def)
  show ?thesis
  proof (cases "deref (conns w) p")
    case (Inr conn)
    then show ?thesis
      using vec_read_content[OF assms] str by (simp add: conn_send_Buffer_def conn_send_def)
  qed (simp add: conn_send_Buffer_def)
qed

text \<open>
  C19. \<open>send(Buffer&)\<close> is \<open>send(string_view)\<close> of the content of the buffer, in the loop's thread and in
  any other, faults included; the buffer is emptied exactly when the connection is up, and kept
  otherwise.
\<close>

theorem send_overloads_agree:
  assumes "buffer_inv b"
  shows "conn_send_Buffer os cur p b w =
    rbind (deref (conns w) p) (\<lambda>conn.
      if conn_state conn = kConnected
      then rbind (conn_send os cur p (content b) w) (\<lambda>w'. Inr (retrieveAll b, w'))
      else Inr (b, w))"
  by (rule conn_send_Buffer_eq[OF assms])

theorem send_overloads_agree_witness:
  "conn_send_Buffer sample_os 2 20 sample_buffer sample_world =
    Inr (retrieveAll sample_buffer, queueInLoop sample_os 2 (TcpConnection_sendInLoop_fn 20 []) sample_world)"
  using send_overloads_agree[OF sample_buffer_inv, of sample_os 2 20 sample_world]
  by (simp add: conn_send_def sample_conn_def sample_buffer_empty isInLoopThread_def)

section \<open>Where the conditions are needed\<close>

text \<open>
  \<open>startRead\<close> on a connection that is already closed puts its channel back on the
  interest list (the code does not look at the state), and the next readable event then
  fails the assertion of \<open>handleRead\<close>.
\<close>

theorem startRead_after_close:
  assumes "conn_ok p w" and "tid w = cur" and "conns w p = Some conn" and "conn_state conn = kDisconnected"
  shows "returns (startRead os cur p w) (\<lambda>w'.
    (\<exists>ch. channels w' (conn_channel conn) = Some ch \<and> pooling ch \<and> ch_events ch = EPOLLIN OR EPOLLPRI) \<and>
    handleRead os call cur p w' = Inl AssertFailed)"
proof -
  obtain ch where p: "p \<noteq> 0" and ch: "channels w (conn_channel conn) = Some ch"
    and parts: "conn_parts_ok (wakeupfd w) conn ch" using assms(1,3) by (auto elim: conn_okE)
  have c: "conn_channel conn \<noteq> 0" and ev: "ch_events ch = 0"
    using parts assms(4) by (simp_all add: conn_parts_ok_def)
  let ?w' = "with_interest os (conn_channel conn) ch (EPOLLIN OR EPOLLPRI) w"
  have "startRead os cur p w = Inr ?w'"
    using enableRead.interest_ok[OF assms(2) ch c, of os] p assms(2,3) ch c ev mask_nonzero(1)[of 0]
    by (simp add: startRead_def runInLoop_def isInLoopThread_def startReadInLoop_def isReading_def)
  moreover have "handleRead os call cur p ?w' = Inl AssertFailed"
    using p assms by (simp add: handleRead_def assertInLoopThread_def isInLoopThread_def)
  ultimately show ?thesis using mask_nonzero(1)[of 0] by simp
qed

definition sample_closed :: "sample_kernel conn_world" where
  "sample_closed = put_channel 21 (Channel_new 7) (put_conn 20 (sample_conn\<lparr>conn_state := kDisconnected\<rparr>) sample_world)"

theorem startRead_after_close_witness:
  "returns (startRead sample_os 1 20 sample_closed) (\<lambda>w'.
    (\<exists>ch. channels w' 21 = Some ch \<and> pooling ch \<and> ch_events ch = EPOLLIN OR EPOLLPRI) \<and>
    handleRead sample_os (\<lambda>cb p w. Inr w) 1 20 w' = Inl AssertFailed)"
proof -
  let ?conn = "sample_conn\<lparr>conn_state := kDisconnected\<rparr>"
  have "conn_ok 20 sample_closed"
    by (simp add: conn_ok_def sample_closed_def sample_conn_def conn_parts_ok_def sample_buffer_inv Channel_new_def)
  moreover have "tid sample_closed = 1" "conns sample_closed 20 = Some ?conn" "conn_state ?conn = kDisconnected"
    "conn_channel ?conn = 21"
    by (simp_all add: sample_closed_def sample_conn_def)
  ultimately show ?thesis using startRead_after_close[of 20 sample_closed 1 ?conn] by simp
qed

text \<open>
  C33. A hang-up that is reported together with urgent data (EPOLLHUP and EPOLLPRI without
  EPOLLIN) fails an assertion: the dispatch of the channel first closes the connection and
  then, in the same pass, calls \<open>handleRead\<close>, which requires that it is not closed.
\<close>

theorem hangup_with_urgent_data:
  assumes "conn_ok p w" and "tid w = cur" and "conns w p = Some conn" and "is_up (conn_state conn)"
    and "c = conn_channel conn" and "channels w c = Some ch" and "ch_revents ch = EPOLLHUP OR EPOLLPRI"
    and "ch_closeCallback ch = Some (TcpConnection_handleClose_fn p)"
    and "ch_readCallback ch = Some (TcpConnection_handleRead_fn p)"
    and "closeCallback conn = Some cb" and "\<And>v. call cb p v = Inr v"
  shows "handleEventWithGuard (conn_invoke os call hwm other cur) c w = Inl AssertFailed"
proof -
  have p: "p \<noteq> 0" and parts: "conn_parts_ok (wakeupfd w) conn ch"
    using assms(1,3,5,6) by (auto elim!: conn_okE)
  have st: "conn_state conn = kConnected \<or> conn_state conn = kDisconnecting" using assms(4) by (simp add: is_up_def)
  have c: "c \<noteq> 0" using parts assms(5) by (simp add: conn_parts_ok_def)
  let ?ch1 = "ch\<lparr>ch_handlingEvents := True\<rparr>"
  let ?w1 = "put_channel c ?ch1 w"
  let ?conn = "conn\<lparr>conn_state := kDisconnected\<rparr>"
  let ?w2 = "with_interest os c ?ch1 0 (put_conn p ?conn ?w1)"
  have close: "handleClose os call cur p ?w1 = Inr ?w2"
    using p assms(2,3,5,10,11) st c conn_parts_up(1)[OF parts st]
      disableAll.interest_ok[of "put_conn p ?conn ?w1" cur c ?ch1 os]
    by (simp add: handleClose_def removeChannel_eq call_conn_def)
  have rd: "handleRead os call cur p ?w2 = Inl AssertFailed"
    using p assms(2) by (simp add: handleRead_def assertInLoopThread_def isInLoopThread_def)
  show ?thesis
    using assms(6-9) c close rd
    by (simp add: handleEventWithGuard_def dispatch_if_def conn_invoke_def epoll_masks)
qed

definition sample_hangup :: "sample_kernel conn_world" where
  "sample_hangup = put_channel 21 ((Channel_new 7)\<lparr>pooling := True, ch_events := EPOLLIN OR EPOLLPRI,
     ch_revents := EPOLLHUP OR EPOLLPRI, ch_closeCallback := Some (TcpConnection_handleClose_fn 20),
     ch_readCallback := Some (TcpConnection_handleRead_fn 20)\<rparr>) sample_world"

theorem hangup_with_urgent_data_witness:
  "handleEventWithGuard (conn_invoke sample_os (\<lambda>cb p w. Inr w) (\<lambda>cb p n w. Inr w) (\<lambda>f w. Inr w) 1) 21 sample_hangup
    = Inl AssertFailed"
proof (rule hangup_with_urgent_data[where conn = sample_conn])
  show "conn_ok 20 sample_hangup"
    by (simp add: conn_ok_def sample_hangup_def sample_conn_def conn_parts_ok_def sample_buffer_inv
        Channel_new_def isWriting_def epoll_masks sample_buffer_empty)
  show "channels sample_hangup 21 = Some ((Channel_new 7)\<lparr>pooling := True, ch_events := EPOLLIN OR EPOLLPRI,
     ch_revents := EPOLLHUP OR EPOLLPRI, ch_closeCallback := Some (TcpConnection_handleClose_fn 20),
     ch_readCallback := Some (TcpConnection_handleRead_fn 20)\<rparr>)"
    by (simp add: sample_hangup_def)
qed (simp_all add: sample_hangup_def sample_conn_def is_up_def)

lemma pendingTasks_drained: "set (pendingTasks w) \<subseteq> set (pendingTasks (drained os cur p conn ch w))"
  by (auto simp: drained_def Let_def queue_writeComplete_def split: option.splits)

text \<open>
  C34. \<open>shutdown\<close> from another thread can overtake what that thread has sent before: the message and
  the shutdown are tasks, but the state is \<open>kDisconnecting\<close> at once. When output is waiting
  and EPOLLOUT comes before the tasks run, \<open>handleWrite\<close> finds the buffer drained and the
  state \<open>kDisconnecting\<close> and sends FIN, while the message is still in the queue: the socket has taken
  what was waiting and nothing of the message. (In the thread of the loop \<open>shutdown\<close> is orderly.)
\<close>

theorem shutdown_overtakes_send:
  assumes "write_spec os sent" and "shutdown_spec os shut" and "conn_ok p w" and "conns w p = Some conn"
    and "conn_state conn = kConnected" and "content (outputBuffer conn) \<noteq> []" and "me \<noteq> tid w"
    and "\<And>k. fst (sys_write os (sockfd conn) (content (outputBuffer conn)) k) = Inr (length (content (outputBuffer conn)))"
  shows "returns (rbind (conn_send os me p data w) (\<lambda>w1. rbind (conn_shutdown os me p w1) (handleWrite os (tid w) p)))
    (\<lambda>w'. shut (kernel w') (sockfd conn) \<and> sent (kernel w') (sockfd conn) = out_stream sent p w \<and>
      TcpConnection_sendInLoop_fn p data \<in> set (pendingTasks w'))"
proof -
  obtain ch where p: "p \<noteq> 0" and ch: "channels w (conn_channel conn) = Some ch" and parts: "conn_parts_ok (wakeupfd w) conn ch"
    using assms(3,4) by (auto elim: conn_okE)
  let ?out = "content (outputBuffer conn)" and ?conn = "conn\<lparr>conn_state := kDisconnecting\<rparr>"
  let ?w1 = "queueInLoop os me (TcpConnection_sendInLoop_fn p data) w"
  let ?w2 = "queueInLoop os me (TcpConnection_shutdownInLoop_fn p) (put_conn p ?conn ?w1)"
  obtain r w3 where w3: "sys (sys_write os (sockfd ?conn) (content (outputBuffer ?conn))) ?w2 = (r, w3)" by fastforce
  have fd: "wakeupfd w \<noteq> sockfd conn" using parts by (simp add: conn_parts_ok_def)
  have r: "r = Inr (length ?out)" using w3 assms(8)[of "kernel ?w2"] by (auto simp: sys_def case_prod_beta)
  have frame: "conns w3 = conns ?w2" "channels w3 = channels w" "tid w3 = tid w" "wakeupfd w3 = wakeupfd w"
    "pendingTasks w3 = pendingTasks ?w2" using w3 by (auto simp: sys_def case_prod_beta)
  have k: "sys_write os (sockfd conn) ?out (kernel ?w2) = (Inr (length ?out), kernel w3)"
    using w3 r by (auto simp: sys_def case_prod_beta prod_eq_iff)
  have sent3: "sent (kernel w3) (sockfd conn) = sent (kernel w) (sockfd conn) @ ?out"
    using write_specD(2)[OF assms(1) k] fd by (simp add: sent_queueInLoop[OF assms(1)])
  have calls: "conn_send os me p data w = Inr ?w1" "conn_shutdown os me p ?w1 = Inr ?w2"
    using p assms(4,5,7) by (simp_all add: conn_send_def conn_shutdown_def stateAtomicGetAndSet_def isInLoopThread_def)
  obtain b where b: "content b = []" "handleWrite os (tid w) p ?w2 = Inr (drained os (tid w) p (?conn\<lparr>outputBuffer := b\<rparr>) ch w3)"
    using handleWrite_eq[of p ?w2 ?conn ch "tid w" os r w3] p ch parts assms(5,6) r w3 frame
    by (auto simp: conn_parts_ok_def)
  have "shut (kernel (drained os (tid w) p (?conn\<lparr>outputBuffer := b\<rparr>) ch w3)) (sockfd conn)"
    by (simp add: shut_drained[OF assms(2)])
  moreover have "sent (kernel (drained os (tid w) p (?conn\<lparr>outputBuffer := b\<rparr>) ch w3)) (sockfd conn) = out_stream sent p w"
    using sent_drained[OF assms(1), of w3 "?conn\<lparr>outputBuffer := b\<rparr>"] fd frame sent3 assms(4) by (simp add: out_stream_def)
  moreover have "TcpConnection_sendInLoop_fn p data \<in> set (pendingTasks w3)" using frame(5) by simp
  ultimately show ?thesis
    using calls b by (auto simp: returns_iff intro: subsetD[OF pendingTasks_drained])
qed

text \<open>Witness: two bytes wait; the socket takes them, and the message \<open>[65]\<close> stays behind FIN.\<close>

definition roomy_os :: "sample_kernel os" where
  "roomy_os = sample_os\<lparr>sys_write := (\<lambda>fd d k. (Inr (length d), k\<lparr>sk_sent := (sk_sent k)(fd := sk_sent k fd @ d)\<rparr>))\<rparr>"

definition sample_waiting :: "sample_kernel conn_world" where
  "sample_waiting = put_channel 21 ((Channel_new 7)\<lparr>pooling := True, ch_events := EPOLLIN OR EPOLLPRI OR EPOLLOUT\<rparr>)
     (put_conn 20 (sample_conn\<lparr>outputBuffer := sample_buffer\<lparr>writerIndex := writerIndex sample_buffer + 2\<rparr>\<rparr>) sample_world)"

lemma roomy_os_specs: "write_spec roomy_os sk_sent" "shutdown_spec roomy_os sk_shut"
  by (auto simp: write_spec_def shutdown_spec_def roomy_os_def sample_epoll_ctl_def Let_def)

theorem shutdown_overtakes_send_witness:
  "returns (rbind (conn_send roomy_os 2 20 [65] sample_waiting) (\<lambda>w1. rbind (conn_shutdown roomy_os 2 20 w1) (handleWrite roomy_os 1 20)))
    (\<lambda>w'. sk_shut (kernel w') 7 \<and> sk_sent (kernel w') 7 = [0, 0] \<and> TcpConnection_sendInLoop_fn 20 [65] \<in> set (pendingTasks w'))"
proof -
  let ?conn = "sample_conn\<lparr>outputBuffer := sample_buffer\<lparr>writerIndex := writerIndex sample_buffer + 2\<rparr>\<rparr>"
  have facts: "conns sample_waiting 20 = Some ?conn" "tid sample_waiting = 1" "kernel sample_waiting = sample_state"
    "content (outputBuffer ?conn) = [0, 0]"
    by (simp_all add: sample_waiting_def sample_conn_def sample_buffer_def content_def)
  have "conn_ok 20 sample_waiting"
    by (simp add: conn_ok_def sample_waiting_def sample_conn_def conn_parts_ok_def sample_buffer_inv Channel_new_def isWriting_def epoll_masks)
      (simp add: buffer_inv_def content_def sample_buffer_def kCheapPrepend_def max_size_def)
  from shutdown_overtakes_send[OF roomy_os_specs this facts(1), of 2 "[65]"] facts show ?thesis
    by (simp add: roomy_os_def sample_conn_def out_stream_def sample_state_def)
qed

end
