(* ===== verification/TcpServerSingle.thy ===== *)
theory TcpServerSingle
  imports TcpConnection_Safety
begin

unbundle bit_operations_syntax

text \<open>
  \<open>Acceptor\<close> (\<open>Acceptor.cc\<close>) and \<open>TcpServerSingle\<close> (\<open>TcpServerSingle.cc\<close>), the server of one
  loop: the acceptor hands over a descriptor, the server makes a connection of it, keeps the
  connection in its set and drops it from there when it closes. Addresses of new objects are
  parameters: \<open>p\<close> the connection that \<open>make_shared\<close> returns, \<open>c\<close> its channel.
\<close>

section \<open>State\<close>

datatype new_conn_callback = TcpServerSingle_newConnection_cb | TcpClient_newConnection_cb

record Acceptor =
  listening :: bool
  acceptfd :: int
  acceptChannel :: nat
  acceptor_local :: InetAddress
  newConnectionCallback :: "new_conn_callback option"

record TcpServerSingle =
  server_acceptor :: Acceptor
  connections :: "nat set"
  server_connectionCallback :: "conn_callback option"
  server_messageCallback :: "conn_callback option"
  server_writeCompleteCallback :: "conn_callback option"

record 'k server_world = "'k conn_world" +
  server :: TcpServerSingle

type_synonym ('k, 'z) server_op = "('k, 'z) server_world_scheme \<Rightarrow> ('k, 'z) server_world_scheme result"

definition acceptor :: "('k, 'z) server_world_scheme \<Rightarrow> Acceptor" where
  "acceptor w = server_acceptor (server w)"

definition set_acceptor :: "Acceptor \<Rightarrow> ('k, 'z) server_world_scheme \<Rightarrow> ('k, 'z) server_world_scheme" where
  "set_acceptor a w = w\<lparr>server := (server w)\<lparr>server_acceptor := a\<rparr>\<rparr>"

section \<open>Acceptor\<close>

text \<open>\<open>createSocket\<close>: a failing \<open>socket\<close> call is fatal.\<close>

definition createSocket :: "'k os \<Rightarrow> ('k, 'z) EventLoop_scheme \<Rightarrow> (int \<times> ('k, 'z) EventLoop_scheme) result" where
  "createSocket os l =
     (let (fd, l1) = sys (sys_socket os) l in rbind (ensure (fd \<noteq> -1) Aborted) (\<lambda>_. Inr (fd, l1)))"

text \<open>A system call whose failure is \<open>SYSFATAL\<close>.\<close>

definition sys_or_fatal :: "('k \<Rightarrow> bool \<times> 'k) \<Rightarrow> ('k, 'z) EventLoop_scheme \<Rightarrow> ('k, 'z) EventLoop_scheme result" where
  "sys_or_fatal call l = (let (ok, l1) = sys call l in rbind (ensure ok Aborted) (\<lambda>_. Inr l1))"

definition Acceptor_new :: "'k os \<Rightarrow> nat \<Rightarrow> InetAddress \<Rightarrow> ('k, 'z) server_op" where
  "Acceptor_new os c local w =
     rbind (createSocket os w) (\<lambda>(fd, w1).
     rbind (sys_or_fatal (sys_setsockopt os fd ''SO_REUSEADDR'')
        (set_acceptor \<lparr>listening = False, acceptfd = fd, acceptChannel = c, acceptor_local = local,
            newConnectionCallback = None\<rparr> (put_channel c (Channel_new fd) w1))) (\<lambda>w2.
     rbind (sys_or_fatal (sys_setsockopt os fd ''SO_REUSEPORT'') w2)
       (sys_or_fatal (sys_bind os fd (getSockaddr local)))))"

definition Acceptor_destroy :: "'k os \<Rightarrow> ('k, 'z) server_op" where
  "Acceptor_destroy os w =
     Channel_destroy (acceptChannel (acceptor w)) (snd (sys (sys_close os (acceptfd (acceptor w))) w))"

definition Acceptor_listening :: "('k, 'z) server_world_scheme \<Rightarrow> bool" where
  "Acceptor_listening w = listening (acceptor w)"

definition Acceptor_listen :: "'k os \<Rightarrow> nat \<Rightarrow> ('k, 'z) server_op" where
  "Acceptor_listen os cur w =
     rbind (assertInLoopThread cur w) (\<lambda>_.
     rbind (sys_or_fatal (sys_listen os (acceptfd (acceptor w))) w) (\<lambda>w1.
     rbind (modify_channel (acceptChannel (acceptor w1)) (Channel.setReadCallback Acceptor_handleRead_fn) w1)
       (enableRead os cur (acceptChannel (acceptor w)))))"

definition setNewConnectionCallback :: "new_conn_callback \<Rightarrow> ('k, 'z) server_world_scheme \<Rightarrow> ('k, 'z) server_world_scheme" where
  "setNewConnectionCallback cb w = set_acceptor ((acceptor w)\<lparr>newConnectionCallback := Some cb\<rparr>) w"

text \<open>
  \<open>handleRead\<close>: \<open>accept4\<close> fails with an errno (and leaves \<open>addr\<close> as it was) or returns a
  descriptor and the peer's address. Errors other than ECONNABORTED and EMFILE are fatal;
  after those two the code goes on with the descriptor -1.
\<close>

definition Acceptor_handleRead ::
  "'k os \<Rightarrow> (new_conn_callback \<Rightarrow> int \<Rightarrow> InetAddress \<Rightarrow> InetAddress \<Rightarrow> ('k, 'z) server_op) \<Rightarrow> nat \<Rightarrow> ('k, 'z) server_op"
where
  "Acceptor_handleRead os newConn cur w =
     rbind (assertInLoopThread cur w) (\<lambda>_.
     let (r, w1) = sys (sys_accept4 os (acceptfd (acceptor w))) w;
         (connfd, address) = (case r of Inl (err, a) \<Rightarrow> (-1, a) | Inr (fd, a) \<Rightarrow> (fd, a))
     in rbind (ensure (case r of Inl (err, _) \<Rightarrow> err = ECONNABORTED \<or> err = EMFILE | Inr _ \<Rightarrow> True) Aborted) (\<lambda>_.
        case newConnectionCallback (acceptor w1) of
          None \<Rightarrow> Inr (snd (sys (sys_close os connfd) w1))
        | Some cb \<Rightarrow>
            newConn cb connfd (acceptor_local (acceptor w1)) (setAddress address (InetAddress_new 0 False)) w1))"

section \<open>TcpServerSingle\<close>

definition TcpServerSingle_new :: "'k os \<Rightarrow> nat \<Rightarrow> InetAddress \<Rightarrow> ('k, 'z) server_op" where
  "TcpServerSingle_new os c local w =
     rbind (Acceptor_new os c local (w\<lparr>server := (server w)\<lparr>connections := {}, server_connectionCallback := None,
        server_messageCallback := None, server_writeCompleteCallback := None\<rparr>\<rparr>)) (\<lambda>w1.
     Inr (setNewConnectionCallback TcpServerSingle_newConnection_cb w1))"

definition server_setConnectionCallback :: "conn_callback option \<Rightarrow> TcpServerSingle \<Rightarrow> TcpServerSingle" where
  "server_setConnectionCallback cb s = s\<lparr>server_connectionCallback := cb\<rparr>"
definition server_setMessageCallback :: "conn_callback option \<Rightarrow> TcpServerSingle \<Rightarrow> TcpServerSingle" where
  "server_setMessageCallback cb s = s\<lparr>server_messageCallback := cb\<rparr>"
definition server_setWriteCompleteCallback :: "conn_callback option \<Rightarrow> TcpServerSingle \<Rightarrow> TcpServerSingle" where
  "server_setWriteCompleteCallback cb s = s\<lparr>server_writeCompleteCallback := cb\<rparr>"

definition TcpServerSingle_start :: "'k os \<Rightarrow> nat \<Rightarrow> ('k, 'z) server_op" where
  "TcpServerSingle_start os cur = Acceptor_listen os cur"

definition newConnection ::
  "'k os \<Rightarrow> ('k, 'z server_world_ext) conn_call \<Rightarrow> nat \<Rightarrow> nat \<Rightarrow> nat \<Rightarrow> int \<Rightarrow> InetAddress \<Rightarrow> InetAddress \<Rightarrow>
   ('k, 'z) server_op"
where
  "newConnection os call cur p c connfd local peer w =
     rbind (assertInLoopThread cur w) (\<lambda>_.
     rbind (TcpConnection_new p c connfd local peer w) (\<lambda>w1.
     let w2 = w1\<lparr>server := (server w1)\<lparr>connections := insert p (connections (server w1))\<rparr>\<rparr>
     in rbind (modify_conn p (setMessageCallback (server_messageCallback (server w2))) w2) (\<lambda>w3.
        rbind (modify_conn p (setWriteCompleteCallback (server_writeCompleteCallback (server w3))) w3) (\<lambda>w4.
        rbind (modify_conn p (conn_setCloseCallback (Some TcpServerSingle_closeConnection_cb)) w4) (\<lambda>w5.
        rbind (connectEstablished os cur p w5) (\<lambda>w6.
        call_conn call (server_connectionCallback (server w6)) p w6))))))"

definition closeConnection ::
  "('k, 'z server_world_ext) conn_call \<Rightarrow> nat \<Rightarrow> nat \<Rightarrow> ('k, 'z) server_op"
where
  "closeConnection call cur p w =
     rbind (assertInLoopThread cur w) (\<lambda>_.
     rbind (ensure (p \<in> connections (server w)) Aborted) (\<lambda>_.
     let w1 = w\<lparr>server := (server w)\<lparr>connections := connections (server w) - {p}\<rparr>\<rparr>
     in call_conn call (server_connectionCallback (server w1)) p w1))"

text \<open>
  The callbacks of a connection of the server: those of the application (\<open>user\<close> runs them by
  number) and the library's defaults, and the server's own \<open>closeConnection\<close>.
\<close>

definition app_call :: "(nat \<Rightarrow> nat \<Rightarrow> ('k, 'z) conn_op) \<Rightarrow> ('k, 'z) conn_call" where
  "app_call user cb p =
     (case cb of
        DefaultConnectionCallback \<Rightarrow> defaultConnectionCallback p
      | DefaultMessageCallback \<Rightarrow> defaultMessageCallback p
      | UserConnCallback n \<Rightarrow> user n p
      | _ \<Rightarrow> (\<lambda>w. Inl BadFunctionCall))"

definition server_call ::
  "(nat \<Rightarrow> nat \<Rightarrow> ('k, 'z) server_op) \<Rightarrow> nat \<Rightarrow> ('k, 'z server_world_ext) conn_call"
where
  "server_call user cur cb p =
     (case cb of
        TcpServerSingle_closeConnection_cb \<Rightarrow> closeConnection (app_call user) cur p
      | _ \<Rightarrow> app_call user cb p)"

section \<open>Invariant\<close>

lemma server_frame [simp]:
  "server (put_conn p conn w) = server w" "server (put_channel c ch w) = server w"
  "server (snd (sys f w)) = server w" "server (with_interest os c ch ev w) = server w"
  by (simp_all add: put_conn_def put_channel_def sys_def with_interest_def case_prod_beta)

definition set_connections :: "nat set \<Rightarrow> ('k, 'z) server_world_scheme \<Rightarrow> ('k, 'z) server_world_scheme" where
  "set_connections ps w = w\<lparr>server := (server w)\<lparr>connections := ps\<rparr>\<rparr>"

lemma set_connections_simps [simp]:
  "server (set_connections ps w) = (server w)\<lparr>connections := ps\<rparr>"
  "conns (set_connections ps w) = conns w" "channels (set_connections ps w) = channels w"
  "tid (set_connections ps w) = tid w" "wakeupfd (set_connections ps w) = wakeupfd w"
  "kernel (set_connections ps w) = kernel w"
  by (simp_all add: set_connections_def)

text \<open>
  Every connection of the set is alive, up, satisfies its own invariant and has a channel of
  its own; its close callback is the server's. The application has set the callbacks.
\<close>

definition channel_of :: "nat \<Rightarrow> ('k, 'z) conn_world_scheme \<Rightarrow> nat" where
  "channel_of p w = (case conns w p of None \<Rightarrow> 0 | Some conn \<Rightarrow> conn_channel conn)"

definition closes_with :: "conn_callback \<Rightarrow> nat \<Rightarrow> ('k, 'z) conn_world_scheme \<Rightarrow> bool" where
  "closes_with cb p w = (case conns w p of None \<Rightarrow> False | Some conn \<Rightarrow> closeCallback conn = Some cb)"

definition app_callback :: "conn_callback option \<Rightarrow> bool" where
  "app_callback cb = (case cb of Some DefaultConnectionCallback \<Rightarrow> True | Some (UserConnCallback n) \<Rightarrow> True | _ \<Rightarrow> False)"

definition server_ok :: "('k, 'z) server_world_scheme \<Rightarrow> bool" where
  "server_ok w \<longleftrightarrow>
     app_callback (server_connectionCallback (server w)) \<and> server_messageCallback (server w) \<noteq> None \<and>
     (\<forall>p \<in> connections (server w). conn_ok p w \<and> is_up (state_of p w) \<and>
        closes_with TcpServerSingle_closeConnection_cb p w) \<and>
     inj_on (\<lambda>p. channel_of p w) (connections (server w))"

text \<open>What the application may do in a connection callback.\<close>

definition good_user :: "fault set \<Rightarrow> nat \<Rightarrow> (nat \<Rightarrow> nat \<Rightarrow> ('k, 'z) server_op) \<Rightarrow> bool" where
  "good_user E cur user \<longleftrightarrow>
     (\<forall>n p w. server_ok w \<and> tid w = cur \<longrightarrow>
        result_in E (user n p w) (\<lambda>w'. server_ok w' \<and> tid w' = tid w \<and>
          connections (server w') = connections (server w) \<and>
          (\<forall>q. state_of q w = kDisconnected \<longrightarrow> state_of q w' = kDisconnected)))"

text \<open>A connection that no step touches keeps its part of the invariant.\<close>

lemma conn_ok_frame:
  assumes "conn_ok q w" "conns w' q = conns w q" "channels w' (channel_of q w) = channels w (channel_of q w)"
    "wakeupfd w' = wakeupfd w"
  shows "conn_ok q w'"
  using assms by (auto simp: conn_ok_def channel_of_def split: option.splits)

lemma server_okI:
  assumes "server_ok w" "server_connectionCallback (server w') = server_connectionCallback (server w)"
    "server_messageCallback (server w') = server_messageCallback (server w)" "wakeupfd w' = wakeupfd w"
    and old: "\<And>q. q \<in> connections (server w') \<Longrightarrow> q \<noteq> p \<Longrightarrow> q \<in> connections (server w) \<and>
      conns w' q = conns w q \<and> channels w' (channel_of q w) = channels w (channel_of q w)"
    and new: "p \<in> connections (server w') \<Longrightarrow> conn_ok p w' \<and> is_up (state_of p w') \<and>
      closes_with TcpServerSingle_closeConnection_cb p w' \<and>
      (\<forall>q \<in> connections (server w'). q \<noteq> p \<longrightarrow> channel_of q w \<noteq> channel_of p w')"
  shows "server_ok w'"
proof -
  have oldq: "conn_ok q w' \<and> is_up (state_of q w') \<and> closes_with TcpServerSingle_closeConnection_cb q w' \<and>
      channel_of q w' = channel_of q w" if "q \<in> connections (server w')" "q \<noteq> p" for q
    using old[OF that] assms(1,4) conn_ok_frame[of q w w']
    by (auto simp: server_ok_def state_of_def closes_with_def channel_of_def)
  moreover have "inj_on (\<lambda>q. channel_of q w') (connections (server w'))"
  proof (rule inj_onI)
    fix a b assume ab: "a \<in> connections (server w')" "b \<in> connections (server w')"
      "channel_of a w' = channel_of b w'"
    have inj: "inj_on (\<lambda>q. channel_of q w) (connections (server w))" using assms(1) by (simp add: server_ok_def)
    show "a = b"
    proof (cases "a = p \<or> b = p")
      case True
      then show ?thesis using ab new oldq by metis
    next
      case False
      then show ?thesis using ab oldq old inj by (metis inj_onD)
    qed
  qed
  ultimately show ?thesis using assms(1-3) new by (auto simp: server_ok_def)
qed

lemma app_call_ok:
  assumes "good_user E cur user" "server_ok w" "tid w = cur" "app_callback cb" "conns w p \<noteq> None" "p \<noteq> 0"
  shows "result_in E (call_conn (app_call user) cb p w) (\<lambda>w'. server_ok w' \<and> tid w' = tid w \<and>
    connections (server w') = connections (server w) \<and>
    (\<forall>q. state_of q w = kDisconnected \<longrightarrow> state_of q w' = kDisconnected))"
  using assms unfolding good_user_def
  by (auto simp: app_callback_def call_conn_def app_call_def defaultConnectionCallback_def
      split: option.splits conn_callback.splits)

lemma server_call_app: "app_callback cb \<Longrightarrow> call_conn (server_call user cur) cb = call_conn (app_call user) cb"
  by (auto simp: app_callback_def call_conn_def server_call_def fun_eq_iff
      split: option.splits conn_callback.splits)

text \<open>The connection, its channel and the world at the time \<open>newConnection\<close> tells the application.\<close>

definition new_conn :: "nat \<Rightarrow> int \<Rightarrow> InetAddress \<Rightarrow> InetAddress \<Rightarrow> Buffer \<Rightarrow> TcpServerSingle \<Rightarrow> TcpConnection" where
  "new_conn c connfd loc peer b s =
     \<lparr>sockfd = connfd, conn_channel = c, conn_state = kConnected, conn_local = loc, conn_peer = peer,
      inputBuffer = b, outputBuffer = b, highWaterMark = 0, conn_context = None,
      messageCallback = server_messageCallback s, writeCompleteCallback = server_writeCompleteCallback s,
      highWaterMarkCallback = None, closeCallback = Some TcpServerSingle_closeConnection_cb\<rparr>"

definition new_channel :: "nat \<Rightarrow> int \<Rightarrow> Channel" where
  "new_channel p connfd = (Channel_new connfd)\<lparr>ch_tie := Some p, ch_tied := True,
     ch_readCallback := Some (TcpConnection_handleRead_fn p), ch_writeCallback := Some (TcpConnection_handleWrite_fn p),
     ch_closeCallback := Some (TcpConnection_handleClose_fn p), ch_errorCallback := Some (TcpConnection_handleError_fn p)\<rparr>"

definition established ::
  "'k os \<Rightarrow> nat \<Rightarrow> nat \<Rightarrow> int \<Rightarrow> InetAddress \<Rightarrow> InetAddress \<Rightarrow> Buffer \<Rightarrow> ('k, 'z) server_world_scheme \<Rightarrow> ('k, 'z) server_world_scheme"
where
  "established os p c connfd loc peer b w =
     with_interest os c (new_channel p connfd) (EPOLLIN OR EPOLLPRI)
       (put_channel c (new_channel p connfd)
         (put_conn p (new_conn c connfd loc peer b (server w)) (set_connections (insert p (connections (server w))) w)))"

lemma established_simps [simp]:
  "conns (established os p c connfd loc peer b w) = (conns w)(p \<mapsto> new_conn c connfd loc peer b (server w))"
  "channels (established os p c connfd loc peer b w) = (channels w)(c \<mapsto>
     (new_channel p connfd)\<lparr>ch_events := EPOLLIN OR EPOLLPRI, pooling := True\<rparr>)"
  "server (established os p c connfd loc peer b w) = (server w)\<lparr>connections := insert p (connections (server w))\<rparr>"
  "tid (established os p c connfd loc peer b w) = tid w" "wakeupfd (established os p c connfd loc peer b w) = wakeupfd w"
  using mask_nonzero(1)[of 0] by (simp_all add: established_def)

lemma newConnection_run:
  assumes "tid w = cur" "p \<noteq> 0" "c \<noteq> 0"
  obtains b where "buffer_inv b" "content b = []"
    "newConnection os call cur p c connfd loc peer w =
      call_conn call (server_connectionCallback (server w)) p (established os p c connfd loc peer b w)"
proof -
  obtain b where b: "Buffer_new kInitialSize = Inr b" "buffer_inv b" "content b = []"
    using Buffer_new_ok[of kInitialSize] by (auto simp: returns_iff kInitialSize_def kCheapPrepend_def max_size_def)
  let ?conn = "new_conn c connfd loc peer b (server w)" and ?ch = "new_channel p connfd"
  let ?w4 = "put_conn p (?conn\<lparr>conn_state := kConnecting\<rparr>) (set_connections (insert p (connections (server w)))
    (put_channel c (?ch\<lparr>ch_tie := None, ch_tied := False\<rparr>) w))"
  let ?w5 = "put_channel c ?ch (put_conn p ?conn (set_connections (insert p (connections (server w))) w))"
  have "newConnection os call cur p c connfd loc peer w =
      rbind (connectEstablished os cur p ?w4) (\<lambda>w6. call_conn call (server_connectionCallback (server w6)) p w6)"
    using assms(1,2) b(1)
    by (simp add: newConnection_def TcpConnection_new_def modify_conn_def set_connections_def put_conn_def new_conn_def
        new_channel_def put_channel_def setMessageCallback_def setWriteCompleteCallback_def conn_setCloseCallback_def
        Channel.setErrorCallback_def Channel.setCloseCallback_def Channel.setWriteCallback_def
        Channel.setReadCallback_def Channel_new_def Let_def)
  moreover have "connectEstablished os cur p ?w4 = enableRead os cur c ?w5"
    using assms(2,3)
    by (simp add: connectEstablished_def modify_channel_def Channel_tie_def put_conn_def put_channel_def
        set_connections_def Channel_new_def new_conn_def new_channel_def)
  moreover have "enableRead os cur c ?w5 = Inr (established os p c connfd loc peer b w)"
    using enableRead.interest_ok[of ?w5 cur c ?ch os] assms(1,3) mask_nonzero(1)[of 0]
    by (simp add: Channel_new_def new_channel_def established_def)
  ultimately show thesis using b(2,3) that by simp
qed

lemma established_ok:
  assumes "p \<noteq> 0" "c \<noteq> 0" "connfd \<noteq> wakeupfd w" "server_messageCallback (server w) \<noteq> None" "buffer_inv b" "content b = []"
  shows "conn_ok p (established os p c connfd loc peer b w)"
  by (rule conn_okI[OF assms(1), where conn = "new_conn c connfd loc peer b (server w)"
        and ch = "(new_channel p connfd)\<lparr>ch_events := EPOLLIN OR EPOLLPRI, pooling := True\<rparr>"])
    (use assms mask_nonzero(1)[of 0] in
      \<open>auto simp: conn_parts_ok_def Channel_new_def isWriting_def epoll_masks new_conn_def new_channel_def\<close>)

text \<open>
  A new connection is set up completely before the application sees it: with fresh
  addresses and a descriptor other than the loop's eventfd, \<open>newConnection\<close> ends in the
  server's invariant with the connection added to the set.
\<close>

lemma server_new_connection_ok:
  assumes "server_ok w" and "tid w = cur" and "good_user E cur user" and "p \<noteq> 0" and "c \<noteq> 0"
    and "conns w p = None" and "channels w c = None" and "connfd \<noteq> wakeupfd w"
  shows "result_in E (newConnection os (server_call user cur) cur p c connfd loc peer w) (\<lambda>w'.
    server_ok w' \<and> connections (server w') = insert p (connections (server w)))"
proof -
  have app: "app_callback (server_connectionCallback (server w))" and msg: "server_messageCallback (server w) \<noteq> None"
    using assms(1) by (simp_all add: server_ok_def)
  obtain b where b: "buffer_inv b" "content b = []" and run: "newConnection os (server_call user cur) cur p c connfd loc peer w =
      call_conn (server_call user cur) (server_connectionCallback (server w)) p (established os p c connfd loc peer b w)"
    using newConnection_run[OF assms(2,4,5), of os "server_call user cur" connfd loc peer] by metis
  let ?w6 = "established os p c connfd loc peer b w"
  have fresh: "channel_of q w \<noteq> c" if "q \<in> connections (server w)" for q
  proof -
    have "conn_ok q w" using assms(1) that by (simp add: server_ok_def)
    then show ?thesis using assms(7) by (auto simp: channel_of_def elim: conn_okE)
  qed
  have np: "p \<notin> connections (server w)"
    using assms(1,6) by (auto simp: server_ok_def conn_ok_def)
  have ok6: "server_ok ?w6"
    by (rule server_okI[OF assms(1), where p = p])
      (use fresh np established_ok[OF assms(4,5,8) msg b, of os] in
        \<open>auto simp: state_of_def is_up_def closes_with_def channel_of_def new_conn_def\<close>)
  show ?thesis
    unfolding run server_call_app[OF app]
    by (rule result_in_mono[OF app_call_ok[OF assms(3) ok6] order_refl]) (use app assms(2,4) in auto)
qed

section \<open>Properties\<close>

text \<open>
  C12. Closing a connection of the server takes exactly this connection out of the server's
  set: \<open>handleClose\<close> on a connection of the set, with the server's close callback, ends in
  the server's invariant with the set less this connection, which is then disconnected, as its
  destructor requires; the fatal error of \<open>closeConnection\<close> (a connection that is not in the
  set) cannot happen. Other faults than those of the application are impossible.
\<close>

theorem server_close:
  assumes "server_ok w" and "tid w = cur" and "p \<in> connections (server w)" and "good_user E cur user"
  shows "result_in E (handleClose os (server_call user cur) cur p w) (\<lambda>w'.
    server_ok w' \<and> connections (server w') = connections (server w) - {p} \<and> state_of p w' = kDisconnected)"
proof -
  have ok: "conn_ok p w" and up: "is_up (state_of p w)" and cb: "closes_with TcpServerSingle_closeConnection_cb p w"
    using assms(1,3) by (auto simp: server_ok_def)
  obtain conn ch where p: "p \<noteq> 0" and conn: "conns w p = Some conn" and ch: "channels w (conn_channel conn) = Some ch"
    and parts: "conn_parts_ok (wakeupfd w) conn ch" and c: "conn_channel conn \<noteq> 0"
    and st: "conn_state conn = kConnected \<or> conn_state conn = kDisconnecting"
    using conn_upE[OF ok up[unfolded is_up_def]] .
  let ?conn = "conn\<lparr>conn_state := kDisconnected\<rparr>"
  let ?w1 = "put_conn p ?conn w"
  let ?w2 = "with_interest os (conn_channel conn) ch 0 ?w1"
  let ?w3 = "set_connections (connections (server w) - {p}) ?w2"
  have rm: "EventLoop_removeChannel os cur (conn_channel conn) ?w1 = Inr ?w2"
    using disableAll.interest_ok[of ?w1 cur "conn_channel conn" ch os] c ch assms(2) conn_parts_up(1)[OF parts st]
    by (simp add: removeChannel_eq)
  have inj: "channel_of q w \<noteq> conn_channel conn" if "q \<in> connections (server w)" "q \<noteq> p" for q
  proof -
    have "inj_on (\<lambda>p. channel_of p w) (connections (server w))" using assms(1) by (simp add: server_ok_def)
    from inj_onD[OF this _ that(1) assms(3)] show ?thesis using that(2) conn by (auto simp: channel_of_def)
  qed
  have ok3: "server_ok ?w3"
    by (rule server_okI[OF assms(1), where p = p]) (use inj in auto)
  have app: "app_callback (server_connectionCallback (server w))" using assms(1) by (simp add: server_ok_def)
  have st3: "state_of p ?w3 = kDisconnected" by (simp add: state_of_def)
  have "result_in E (call_conn (app_call user) (server_connectionCallback (server ?w3)) p ?w3)
      (\<lambda>w'. server_ok w' \<and> connections (server w') = connections (server w) - {p} \<and> state_of p w' = kDisconnected)"
    by (rule result_in_mono[OF app_call_ok[OF assms(4) ok3] order_refl]) (use app assms(2) p st3 in auto)
  then show ?thesis
    using p conn assms(2,3) st rm cb
    by (simp add: handleClose_def call_conn_def[of "server_call user cur"] closes_with_def server_call_def
        closeConnection_def set_connections_def)
qed

text \<open>Witnesses: a server on the sample kernel with one connection.\<close>

definition sample_server :: "sample_kernel server_world" where
  "sample_server =
     put_conn 20 (sample_conn\<lparr>closeCallback := Some TcpServerSingle_closeConnection_cb\<rparr>)
       (conn_world.extend sample_world (server_world.fields
         \<lparr>server_acceptor = \<lparr>listening = False, acceptfd = 9, acceptChannel = 10,
              acceptor_local = InetAddress_new 80 True,
              newConnectionCallback = Some TcpServerSingle_newConnection_cb\<rparr>,
          connections = {20}, server_connectionCallback = Some DefaultConnectionCallback,
          server_messageCallback = Some DefaultMessageCallback, server_writeCompleteCallback = None\<rparr>))"

lemma sample_server_simps [simp]:
  "connections (server sample_server) = {20}" "tid sample_server = 1" "wakeupfd sample_server = 4"
  "conns sample_server = [20 \<mapsto> sample_conn\<lparr>closeCallback := Some TcpServerSingle_closeConnection_cb\<rparr>]"
  "channels sample_server = [21 \<mapsto> (Channel_new 7)\<lparr>pooling := True, ch_events := EPOLLIN OR EPOLLPRI\<rparr>]"
  "server_connectionCallback (server sample_server) = Some DefaultConnectionCallback"
  "server_messageCallback (server sample_server) = Some DefaultMessageCallback"
  "acceptor sample_server = \<lparr>listening = False, acceptfd = 9, acceptChannel = 10,
     acceptor_local = InetAddress_new 80 True, newConnectionCallback = Some TcpServerSingle_newConnection_cb\<rparr>"
  by (simp_all add: sample_server_def acceptor_def conn_world.defs server_world.defs put_conn_def sample_world_def
      put_channel_def EventLoop.extend_def sample_loop_def)

lemma sample_server_ok: "server_ok sample_server"
  by (simp add: server_ok_def app_callback_def conn_ok_def state_of_def is_up_def closes_with_def sample_conn_def
      conn_parts_ok_def sample_buffer_inv Channel_new_def isWriting_def epoll_masks sample_buffer_empty)

lemma sample_user: "good_user {} 1 (\<lambda>n p w. Inr w)"
  by (simp add: good_user_def)

theorem server_close_witness:
  "result_in {} (handleClose sample_os (server_call (\<lambda>n p w. Inr w) 1) 1 20 sample_server) (\<lambda>w'.
    server_ok w' \<and> connections (server w') = {} \<and> state_of 20 w' = kDisconnected)"
  using server_close[OF sample_server_ok _ _ sample_user, of 20 sample_os] by simp



end
