(* ===== verification/TcpServer.thy ===== *)
theory TcpServer
  imports TcpServerSingle
begin

text \<open>
  \<open>TcpServer\<close> (\<open>TcpServer.cc\<close>): one \<open>TcpServerSingle\<close> in the base loop and one in each of
  \<open>numThreads - 1\<close> threads with a loop of its own, all listening on the same address. The
  operations on the object itself are functions; \<open>startInLoop\<close>, \<open>runInThread\<close> and the destructor
  run in several threads and are a step relation, cut at the lock, at the condition variable
  and at the accesses to \<open>eventLoops_\<close> and to \<open>quit_\<close>. Thread 0 is the one of the base loop; every
  loop has its own descriptors, so the kernel state is kept per loop.
\<close>

section \<open>The object\<close>

record TcpServer =
  numThreads :: nat
  ts_started :: bool
  ts_local :: InetAddress
  eventLoops :: "nat option list"
  ts_threads :: "nat list"
  ts_threadInitCallback :: "nat option"
  ts_connectionCallback :: "conn_callback option"
  ts_messageCallback :: "conn_callback option"
  ts_writeCompleteCallback :: "conn_callback option"

text \<open>
  A pointer in \<open>eventLoops_\<close> is \<open>None\<close> or the thread whose loop it points to. The number of the
  user's \<open>threadInitCallback_\<close> is \<open>None\<close> for the default one, which only logs.
\<close>

definition TcpServer_new :: "InetAddress \<Rightarrow> TcpServer" where
  "TcpServer_new local = \<lparr>numThreads = 1, ts_started = False, ts_local = local, eventLoops = [], ts_threads = [],
     ts_threadInitCallback = None, ts_connectionCallback = Some DefaultConnectionCallback,
     ts_messageCallback = Some DefaultMessageCallback, ts_writeCompleteCallback = None\<rparr>"

definition vector_resize :: "nat \<Rightarrow> 'a \<Rightarrow> 'a list \<Rightarrow> 'a list" where
  "vector_resize n x xs = take n xs @ replicate (n - length xs) x"

definition setNumThread :: "nat \<Rightarrow> nat \<Rightarrow> ('k, 'z) EventLoop_scheme \<Rightarrow> TcpServer \<Rightarrow> TcpServer result" where
  "setNumThread cur n base s =
     rbind (assertInLoopThread cur base) (\<lambda>_.
     if n > 0
     then rbind (ensure (8 * n \<le> max_size) LengthError) (\<lambda>_.
          Inr (s\<lparr>numThreads := n, eventLoops := vector_resize n None (eventLoops s)\<rparr>))
     else Inr s)"

definition ts_start ::
  "'k os \<Rightarrow> nat \<Rightarrow> (closure \<Rightarrow> ('k, 'z) EventLoop_scheme \<Rightarrow> ('k, 'z) EventLoop_scheme result) \<Rightarrow>
   TcpServer \<Rightarrow> ('k, 'z) EventLoop_scheme \<Rightarrow> (TcpServer \<times> ('k, 'z) EventLoop_scheme) result"
where
  "ts_start os cur exec s base =
     (if ts_started s then Inr (s, base)
      else rbind (runInLoop os cur exec TcpServer_startInLoop_fn base) (\<lambda>b. Inr (s\<lparr>ts_started := True\<rparr>, b)))"

definition setThreadInitCallback :: "nat option \<Rightarrow> TcpServer \<Rightarrow> TcpServer" where
  "setThreadInitCallback cb s = s\<lparr>ts_threadInitCallback := cb\<rparr>"
definition ts_setConnectionCallback :: "conn_callback option \<Rightarrow> TcpServer \<Rightarrow> TcpServer" where
  "ts_setConnectionCallback cb s = s\<lparr>ts_connectionCallback := cb\<rparr>"
definition ts_setMessageCallback :: "conn_callback option \<Rightarrow> TcpServer \<Rightarrow> TcpServer" where
  "ts_setMessageCallback cb s = s\<lparr>ts_messageCallback := cb\<rparr>"
definition ts_setWriteCompleteCallback :: "conn_callback option \<Rightarrow> TcpServer \<Rightarrow> TcpServer" where
  "ts_setWriteCompleteCallback cb s = s\<lparr>ts_writeCompleteCallback := cb\<rparr>"

section \<open>What each thread does to its own loop\<close>

text \<open>The server of a thread: construction and the three callbacks. \<open>c\<close> is the acceptor's channel.\<close>

definition make_server :: "'k os \<Rightarrow> nat \<Rightarrow> TcpServer \<Rightarrow> 'k server_world \<Rightarrow> 'k server_world result" where
  "make_server os c s w =
     rbind (TcpServerSingle_new os c (ts_local s) w) (\<lambda>w1.
     Inr (w1\<lparr>server := server_setWriteCompleteCallback (ts_writeCompleteCallback s)
               (server_setMessageCallback (ts_messageCallback s)
               (server_setConnectionCallback (ts_connectionCallback s) (server w1)))\<rparr>))"

text \<open>\<open>threadInitCallback_(index)\<close> and \<open>server.start()\<close>; \<open>init\<close> runs the user's callback.\<close>

definition begin_service ::
  "'k os \<Rightarrow> (nat \<Rightarrow> nat \<Rightarrow> 'k server_world \<Rightarrow> 'k server_world result) \<Rightarrow> TcpServer \<Rightarrow> nat \<Rightarrow>
   'k server_world \<Rightarrow> 'k server_world result"
where
  "begin_service os init s i w =
     rbind (case ts_threadInitCallback s of None \<Rightarrow> Inr w | Some n \<Rightarrow> init n i w) (TcpServerSingle_start os i)"

text \<open>
  The first two lines of \<open>runInThread\<close>: the loop on the thread's stack and the server in it. The
  numbers the kernel and the allocator hand out are given by \<open>fresh\<close>: the descriptors of epoll,
  eventfd and timerfd, the channels of the last two and of the acceptor.
\<close>

record fresh_loop =
  f_epfd :: int
  f_evfd :: int
  f_tfd :: int
  f_wakeup :: nat
  f_timer :: nat
  f_accept :: nat

definition thread_world :: "'k os \<Rightarrow> fresh_loop \<Rightarrow> TcpServer \<Rightarrow> nat \<Rightarrow> 'k \<Rightarrow> 'k server_world result" where
  "thread_world os f s i k =
     rbind (EventLoop_new os i False (f_epfd f) (f_evfd f) (f_tfd f) (f_wakeup f) (f_timer f) k) (\<lambda>l.
     make_server os (f_accept f) s
       (conn_world.extend (EventLoop.extend l (conn_world.fields Map.empty))
         (server_world.fields
           \<lparr>server_acceptor = \<lparr>listening = False, acceptfd = -1, acceptChannel = 0, acceptor_local = ts_local s,
                newConnectionCallback = None\<rparr>,
            connections = {}, server_connectionCallback = None, server_messageCallback = None,
            server_writeCompleteCallback = None\<rparr>)))"

section \<open>The threads\<close>

text \<open>
  The base thread: \<open>M_idle\<close> before \<open>startInLoop\<close>; \<open>M_for i\<close> at the head of its loop, \<open>M_wait i\<close> waiting
  for the loop of thread i; \<open>M_run\<close> in the base loop; in the destructor, \<open>M_quit i\<close> and \<open>M_call i j\<close>
  before and after the test of the pointer, \<open>M_join k\<close> before the join of the k-th thread. The
  thread i: \<open>W_new\<close>, \<open>W_publish\<close>, \<open>W_init\<close>, \<open>W_enter\<close> follow \<open>runInThread\<close>, \<open>W_while\<close> is the test of
  the loop, \<open>W_leave\<close> stands before the last statement.
\<close>

datatype main_pc = M_idle | M_for nat | M_wait nat | M_run | M_quit nat | M_call nat nat | M_join nat | M_done
datatype worker_pc = W_none | W_new | W_publish | W_init | W_enter | W_while | W_leave | W_exit

record 'k server_system =
  ts :: TcpServer
  worlds :: "nat \<Rightarrow> 'k server_world"
  main :: main_pc
  worker :: "nat \<Rightarrow> worker_pc"
  halted :: "fault option"

text \<open>A thread changes its own world and goes on, or the fault ends the process.\<close>

definition commit ::
  "nat \<Rightarrow> 'k server_world result \<Rightarrow> ('k server_system \<Rightarrow> 'k server_system) \<Rightarrow> 'k server_system \<Rightarrow> 'k server_system"
where
  "commit i r goto s =
     (case r of Inl e \<Rightarrow> s\<lparr>halted := Some e\<rparr> | Inr w \<Rightarrow> goto (s\<lparr>worlds := (worlds s)(i := w)\<rparr>))"

definition goto_main :: "main_pc \<Rightarrow> 'k server_system \<Rightarrow> 'k server_system" where
  "goto_main pc s = s\<lparr>main := pc\<rparr>"

definition goto_worker :: "nat \<Rightarrow> worker_pc \<Rightarrow> 'k server_system \<Rightarrow> 'k server_system" where
  "goto_worker i pc s = s\<lparr>worker := (worker s)(i := pc)\<rparr>"

text \<open>\<open>eventLoops_[i]\<close>, read and written; an index outside the vector is a fault.\<close>

definition loop_at :: "nat \<Rightarrow> TcpServer \<Rightarrow> nat option result" where
  "loop_at i s = rbind (ensure (i < length (eventLoops s)) OutOfBounds) (\<lambda>_. Inr (eventLoops s ! i))"

definition set_loop_at :: "nat \<Rightarrow> nat option \<Rightarrow> 'k server_system \<Rightarrow> 'k server_system" where
  "set_loop_at i p s =
     (if i < length (eventLoops (ts s)) then s\<lparr>ts := (ts s)\<lparr>eventLoops := (eventLoops (ts s))[i := p]\<rparr>\<rparr>
      else s\<lparr>halted := Some OutOfBounds\<rparr>)"

text \<open>The steps of the base thread.\<close>

definition start_step ::
  "'k os \<Rightarrow> (nat \<Rightarrow> fresh_loop) \<Rightarrow> (nat \<Rightarrow> nat \<Rightarrow> 'k server_world \<Rightarrow> 'k server_world result) \<Rightarrow>
   'k server_system \<Rightarrow> 'k server_system"
where
  "start_step os fresh init s =
     commit 0 (rbind (make_server os (f_accept (fresh 0)) (ts s) (worlds s 0)) (begin_service os init (ts s) 0))
       (goto_main (M_for 1)) s"

definition for_step :: "nat \<Rightarrow> 'k server_system \<Rightarrow> 'k server_system" where
  "for_step i s =
     (if i < numThreads (ts s) then goto_worker i W_new (goto_main (M_wait i) s) else goto_main M_run s)"

definition wait_step :: "nat \<Rightarrow> 'k server_system \<Rightarrow> 'k server_system" where
  "wait_step i s =
     (case loop_at i (ts s) of
        Inl e \<Rightarrow> s\<lparr>halted := Some e\<rparr>
      | Inr None \<Rightarrow> s
      | Inr (Some _) \<Rightarrow> goto_main (M_for (Suc i)) (s\<lparr>ts := (ts s)\<lparr>ts_threads := ts_threads (ts s) @ [i]\<rparr>\<rparr>))"

text \<open>
  The destructor. It reads \<open>eventLoops_\<close> without the lock; \<open>quit\<close> is then called on a loop that
  lives on the stack of its thread, which is gone once the thread has left \<open>runInThread\<close>.
\<close>

definition quit_step :: "nat \<Rightarrow> 'k server_system \<Rightarrow> 'k server_system" where
  "quit_step i s =
     (if i < length (eventLoops (ts s))
      then (case eventLoops (ts s) ! i of
              None \<Rightarrow> goto_main (M_quit (Suc i)) s
            | Some j \<Rightarrow> goto_main (M_call i j) s)
      else goto_main (M_join 0) s)"

definition call_step :: "'k os \<Rightarrow> nat \<Rightarrow> nat \<Rightarrow> 'k server_system \<Rightarrow> 'k server_system" where
  "call_step os i j s =
     commit j (if worker s j = W_exit then Inl UseAfterFree else EventLoop_quit os 0 (worlds s j))
       (goto_main (M_quit (Suc i))) s"

definition join_step :: "nat \<Rightarrow> 'k server_system \<Rightarrow> 'k server_system" where
  "join_step k s =
     (if k < length (ts_threads (ts s))
      then if worker s (ts_threads (ts s) ! k) = W_exit then goto_main (M_join (Suc k)) s else s
      else goto_main M_done s)"

text \<open>The steps of thread i.\<close>

definition worker_act ::
  "'k os \<Rightarrow> (nat \<Rightarrow> fresh_loop) \<Rightarrow> (nat \<Rightarrow> nat \<Rightarrow> 'k server_world \<Rightarrow> 'k server_world result) \<Rightarrow>
   (nat \<Rightarrow> 'k server_world \<Rightarrow> bool) \<Rightarrow> (nat \<Rightarrow> closure \<Rightarrow> 'k server_world \<Rightarrow> 'k server_world result) \<Rightarrow>
   nat \<Rightarrow> 'k server_system \<Rightarrow> 'k server_system"
where
  "worker_act os fresh init alive invoke i s =
     (case worker s i of
        W_new \<Rightarrow> commit i (thread_world os (fresh i) (ts s) i (kernel (worlds s i))) (goto_worker i W_publish) s
      | W_publish \<Rightarrow> goto_worker i W_init (set_loop_at i (Some i) s)
      | W_init \<Rightarrow> commit i (begin_service os init (ts s) i (worlds s i)) (goto_worker i W_enter) s
      | W_enter \<Rightarrow>
          commit i (rbind (assertInLoopThread i (worlds s i)) (\<lambda>_. Inr ((worlds s i)\<lparr>quit := False\<rparr>)))
            (goto_worker i W_while) s
      | W_while \<Rightarrow>
          if quit (worlds s i) then goto_worker i W_leave s
          else commit i (EventLoop_iteration os alive (invoke i) i (worlds s i)) (goto_worker i W_while) s
      | W_leave \<Rightarrow> goto_worker i W_exit (set_loop_at i None s)
      | _ \<Rightarrow> s)"

inductive server_step ::
  "'k os \<Rightarrow> (nat \<Rightarrow> fresh_loop) \<Rightarrow> (nat \<Rightarrow> nat \<Rightarrow> 'k server_world \<Rightarrow> 'k server_world result) \<Rightarrow>
   (nat \<Rightarrow> 'k server_world \<Rightarrow> bool) \<Rightarrow> (nat \<Rightarrow> closure \<Rightarrow> 'k server_world \<Rightarrow> 'k server_world result) \<Rightarrow>
   'k server_system \<Rightarrow> 'k server_system \<Rightarrow> bool"
  for os fresh init alive invoke
where
  startInLoop_step: "halted s = None \<Longrightarrow> main s = M_idle \<Longrightarrow>
     server_step os fresh init alive invoke s (start_step os fresh init s)"
| startInLoop_for: "halted s = None \<Longrightarrow> main s = M_for i \<Longrightarrow> server_step os fresh init alive invoke s (for_step i s)"
| startInLoop_wait: "halted s = None \<Longrightarrow> main s = M_wait i \<Longrightarrow> server_step os fresh init alive invoke s (wait_step i s)"
| base_loop: "halted s = None \<Longrightarrow> main s = M_run \<Longrightarrow>
     server_step os fresh init alive invoke s
       (commit 0 (EventLoop_iteration os alive (invoke 0) 0 (worlds s 0)) (goto_main M_run) s)"
| destroy: "halted s = None \<Longrightarrow> main s = M_idle \<or> main s = M_run \<Longrightarrow>
     server_step os fresh init alive invoke s (goto_main (M_quit 0) s)"
| destroy_quit: "halted s = None \<Longrightarrow> main s = M_quit i \<Longrightarrow> server_step os fresh init alive invoke s (quit_step i s)"
| destroy_call: "halted s = None \<Longrightarrow> main s = M_call i j \<Longrightarrow> server_step os fresh init alive invoke s (call_step os i j s)"
| destroy_join: "halted s = None \<Longrightarrow> main s = M_join k \<Longrightarrow> server_step os fresh init alive invoke s (join_step k s)"
| thread_step: "halted s = None \<Longrightarrow> 0 < i \<Longrightarrow>
     server_step os fresh init alive invoke s (worker_act os fresh init alive invoke i s)"

end
