(* ===== verification/Connection_Dispatch.thy ===== *)
theory Connection_Dispatch
  imports TcpConnection_Safety
begin

unbundle bit_operations_syntax

text \<open>
  \<open>Channel::handleEvents\<close> on the channel of a connection: the handlers run one after the other on
  the same \<open>revents_\<close>, and an earlier one may close the connection or change what is watched
  before a later one runs. The composition of \<open>Channel\<close> and \<open>TcpConnection\<close>: one whole
  dispatch keeps the invariant of the connection and runs into no assertion.
\<close>

section \<open>What a handler leaves for the next one\<close>

text \<open>The channel of a connection with what the dispatch reads of it; waiting output.\<close>

definition chan_view where
  "chan_view ch = (ch_tied ch, ch_tie ch, dispatch_view ch)"

lemma chan_view_fields:
  assumes "chan_view ch = chan_view org"
  shows "dispatch_view ch = dispatch_view org" "ch_tied ch = ch_tied org" "ch_tie ch = ch_tie org" "ch_revents ch = ch_revents org"
  using assms by (simp_all add: chan_view_def dispatch_view_def)

definition view_of where
  "view_of p w =
     (case conns w p of
        None \<Rightarrow> None
      | Some conn \<Rightarrow> map_option (\<lambda>ch. (conn_channel conn, chan_view ch)) (channels w (conn_channel conn)))"

definition has_output :: "nat \<Rightarrow> ('k, 'z) conn_world_scheme \<Rightarrow> bool" where
  "has_output p w = (case conns w p of None \<Rightarrow> False | Some conn \<Rightarrow> content (outputBuffer conn) \<noteq> [])"

text \<open>
  One step of a dispatch: the invariant holds and the state has not moved back, the channel's callbacks and
  \<open>revents_\<close> are as before, output that waits is only dropped by closing. What else a component relies
  on is \<open>K\<close>.
\<close>

definition dispatch_step ::
  "(nat \<Rightarrow> ('k, 'z) conn_world_scheme \<Rightarrow> ('k, 'z) conn_world_scheme \<Rightarrow> bool) \<Rightarrow>
   nat \<Rightarrow> ('k, 'z) conn_world_scheme \<Rightarrow> ('k, 'z) conn_world_scheme \<Rightarrow> bool"
where
  "dispatch_step K p w w' \<longleftrightarrow> conn_forward p w w' \<and> view_of p w' = view_of p w \<and>
     (state_of p w' = kDisconnected \<or> (has_output p w \<longrightarrow> has_output p w')) \<and> K p w w'"

lemma dispatch_step_same:
  assumes "conn_ok p w" "conns w' = conns w" "channels w' = channels w" "tid w' = tid w" "wakeupfd w' = wakeupfd w" "K p w w'"
  shows "dispatch_step K p w w'"
  using conn_forward_same[OF assms(1-5)] assms(2,3,6)
  by (simp add: dispatch_step_def view_of_def has_output_def split: option.splits)

text \<open>
  What is asked of the callbacks of a connection in a world where \<open>J\<close> holds: the message callback makes a
  step of the dispatch (it may \<open>send\<close>, \<open>shutdown\<close>, \<open>forceClose\<close>, \<open>stopRead\<close> and so on) or ends in a fault
  of \<open>E\<close>, and closing, close callback included, is such a step too.
\<close>

definition tame ::
  "(nat \<Rightarrow> ('k, 'z) conn_world_scheme \<Rightarrow> bool) \<Rightarrow>
   (nat \<Rightarrow> ('k, 'z) conn_world_scheme \<Rightarrow> ('k, 'z) conn_world_scheme \<Rightarrow> bool) \<Rightarrow>
   fault set \<Rightarrow> 'k os \<Rightarrow> nat \<Rightarrow> nat \<Rightarrow> ('k, 'z) conn_call \<Rightarrow> bool"
where
  "tame J K E os cur p call \<longleftrightarrow>
     (\<forall>w. conn_ok p w \<and> tid w = cur \<and> J p w \<and> is_up (state_of p w) \<longrightarrow>
        result_in E (handleClose os call cur p w) (\<lambda>w'. dispatch_step K p w w' \<and> state_of p w' = kDisconnected) \<and>
        (\<forall>conn. conns w p = Some conn \<longrightarrow>
           result_in E (call_conn call (messageCallback conn) p w) (dispatch_step K p w)))"

lemma tameD:
  assumes "tame J K E os cur p call" "conn_ok p w" "tid w = cur" "J p w" "is_up (state_of p w)"
  shows "result_in E (handleClose os call cur p w) (\<lambda>w'. dispatch_step K p w w' \<and> state_of p w' = kDisconnected)"
    and "conns w p = Some conn \<Longrightarrow> result_in E (call_conn call (messageCallback conn) p w) (dispatch_step K p w)"
  using assms unfolding tame_def by blast+

text \<open>
  The contract between the dispatch and a component that uses connections: \<open>J\<close> is what the component
  requires of a connection, \<open>K\<close> how it may change; the changes the handlers make themselves are among them.
\<close>

locale dispatch_frame =
  fixes J :: "nat \<Rightarrow> ('k, 'z) conn_world_scheme \<Rightarrow> bool"
    and K :: "nat \<Rightarrow> ('k, 'z) conn_world_scheme \<Rightarrow> ('k, 'z) conn_world_scheme \<Rightarrow> bool"
  assumes K_trans: "K p w w1 \<Longrightarrow> K p w1 w2 \<Longrightarrow> K p w w2"
    and K_J: "K p w w' \<Longrightarrow> J p w \<Longrightarrow> J p w'"
    and K_kernel: "K p w (w\<lparr>kernel := k\<rparr>)"
    and K_input: "conns w p = Some conn \<Longrightarrow> K p w (put_conn p (conn\<lparr>inputBuffer := b\<rparr>) w)"
    and K_handling: "conns w p = Some conn \<Longrightarrow> channels w (conn_channel conn) = Some ch \<Longrightarrow>
      K p w (put_channel (conn_channel conn) (ch\<lparr>ch_handlingEvents := x\<rparr>) w)"
    and K_write: "write_spec os sent \<Longrightarrow> conn_ok p w \<Longrightarrow> J p w \<Longrightarrow> tid w = cur \<Longrightarrow> conns w p = Some conn \<Longrightarrow>
      conn_state conn = kDisconnected \<or> conn_state conn \<noteq> kConnecting \<and> content (outputBuffer conn) \<noteq> [] \<Longrightarrow>
      handleWrite os cur p w = Inr w' \<Longrightarrow> K p w w'"
begin

lemma K_sys: "K p w (snd (sys f w))"
  using K_kernel by (simp add: sys_def case_prod_beta)

lemma dispatch_step_trans: "dispatch_step K p w w1 \<Longrightarrow> dispatch_step K p w1 w2 \<Longrightarrow> dispatch_step K p w w2"
  by (auto simp: dispatch_step_def conn_forward_def intro: K_trans)

lemma read_step:
  assumes ok: "conn_ok p w" and conn: "conns w p = Some conn" "is_up (conn_state conn)" and inv: "buffer_inv b"
  shows "dispatch_step K p w (put_conn p (conn\<lparr>inputBuffer := b\<rparr>) (snd (sys f w)))" (is "dispatch_step K p w ?w")
proof -
  obtain ch where p: "p \<noteq> 0" and ch: "channels w (conn_channel conn) = Some ch" and parts: "conn_parts_ok (wakeupfd w) conn ch"
    using ok conn(1) by (auto elim!: conn_okE)
  have "conn_ok p ?w"
    by (rule conn_okI[OF p, where conn = "conn\<lparr>inputBuffer := b\<rparr>" and ch = ch])
      (use parts ch inv conn(2) in \<open>auto simp: conn_parts_ok_def is_up_def\<close>)
  moreover have "K p w ?w" using K_trans[OF K_sys K_input] conn(1) by simp
  ultimately show ?thesis
    using conn ch by (simp add: dispatch_step_def conn_forward_def view_of_def has_output_def state_of_def)
qed

lemma handleRead_step:
  assumes tame: "tame J K E os cur p call" and readv: "readv_spec os" and ok: "conn_ok p w" and t: "tid w = cur" and j: "J p w"
    and up: "is_up (state_of p w)"
  shows "result_in (insert LengthError E) (handleRead os call cur p w) (dispatch_step K p w)"
proof -
  obtain conn ch where p: "p \<noteq> 0" and conn: "conns w p = Some conn" and parts: "conn_parts_ok (wakeupfd w) conn ch"
    using conn_okE[OF ok] .
  have up': "is_up (conn_state conn)" and inv: "buffer_inv (inputBuffer conn)"
    using up conn parts by (simp_all add: state_of_def conn_parts_ok_def)
  let ?f = "sys_readv os (sockfd conn) (readFd_capacity (inputBuffer conn))"
  let ?v = "\<lambda>b. put_conn p (conn\<lparr>inputBuffer := b\<rparr>) (snd (sys ?f w))"
  have step: "dispatch_step K p w (?v b)" if "buffer_inv b" for b by (rule read_step[OF ok conn up' that])
  have facts: "conn_ok p (?v b)" "tid (?v b) = cur" "J p (?v b)" "is_up (state_of p (?v b))" if "buffer_inv b" for b
    using step[OF that] K_J[of p w "?v b"] j t up' by (auto simp: dispatch_step_def conn_forward_def state_of_def)
  have close: "result_in E (handleClose os call cur p (?v b)) (dispatch_step K p w)" if "buffer_inv b" for b
    by (rule result_in_mono[OF tameD(1)[OF tame facts[OF that]]]) (auto intro: dispatch_step_trans[OF step[OF that]])
  have msg: "result_in E (call_conn call (messageCallback conn) p (?v b)) (dispatch_step K p w)" if "buffer_inv b" for b
    by (rule result_in_mono[OF tameD(2)[OF tame facts[OF that], of "conn\<lparr>inputBuffer := b\<rparr>", simplified]])
      (auto intro: dispatch_step_trans[OF step[OF that]])
  have st: "conn_state conn \<noteq> kDisconnected" using up' by (auto simp: is_up_def)
  obtain rv where rv: "fst (sys ?f w) = rv" by simp
  show ?thesis
  proof (cases rv)
    case (Inl err)
    have "dispatch_step K p (?v (inputBuffer conn)) (snd (sys (sys_so_error os (sockfd conn)) (?v (inputBuffer conn))))"
      by (rule dispatch_step_same) (use facts[OF inv] K_sys in simp_all)
    from dispatch_step_trans[OF step[OF inv] this] show ?thesis
      using rv Inl p conn t st by (simp add: handleRead_def readFd_def handleError_def case_prod_beta)
  next
    case (Inr data)
    have "length data \<le> readFd_capacity (inputBuffer conn)"
      using readv rv Inr unfolding readv_spec_def sys_def by (fastforce simp: case_prod_beta split: prod.splits sum.splits)
    note rd = readFd_result[OF inv this]
    show ?thesis
    proof (cases "readFd (Inr data) (inputBuffer conn)")
      case (Inl e)
      then show ?thesis using rd rv \<open>rv = Inr data\<close> p conn t st by (simp add: handleRead_def case_prod_beta)
    next
      case (Inr r)
      obtain n err b where r: "r = (n, err, b)" by (cases r)
      have nb: "n = int (length data)" "buffer_inv b" using rd Inr r by auto
      have "handleRead os call cur p w = (if data = [] then handleClose os call cur p (?v b)
          else call_conn call (messageCallback conn) p (?v b))"
        using rv \<open>rv = Inr data\<close> Inr r nb(1) p conn t st by (simp add: handleRead_def case_prod_beta)
      then show ?thesis using close[OF nb(2)] msg[OF nb(2)] by (auto elim!: result_in_mono)
    qed
  qed
qed

end

section \<open>One dispatch\<close>

text \<open>
  The channel calls the handlers of its connection and is tied to it, as the constructor and
  \<open>connectEstablished\<close> leave it. \<open>reported\<close>: epoll reports EPOLLOUT only while it is watched; a
  hang-up without EPOLLIN does not come with EPOLLPRI or EPOLLRDHUP.
\<close>

definition wired :: "nat \<Rightarrow> Channel \<Rightarrow> bool" where
  "wired p ch \<longleftrightarrow> ch_closeCallback ch = Some (TcpConnection_handleClose_fn p) \<and>
     ch_errorCallback ch = Some (TcpConnection_handleError_fn p) \<and>
     ch_readCallback ch = Some (TcpConnection_handleRead_fn p) \<and>
     ch_writeCallback ch = Some (TcpConnection_handleWrite_fn p) \<and> ch_tied ch \<and> ch_tie ch = Some p"

definition hangs_up :: "32 word \<Rightarrow> bool" where
  "hangs_up r \<longleftrightarrow> r AND EPOLLHUP \<noteq> 0 \<and> r AND EPOLLIN = 0"

definition reported :: "Channel \<Rightarrow> bool" where
  "reported ch \<longleftrightarrow> (ch_revents ch AND EPOLLOUT \<noteq> 0 \<longrightarrow> isWriting ch) \<and>
     (hangs_up (ch_revents ch) \<longrightarrow> ch_revents ch AND (EPOLLIN OR EPOLLPRI OR EPOLLRDHUP) = 0)"

text \<open>The state between two handlers of the dispatch that began in \<open>w0\<close>.\<close>

definition amid ::
  "(nat \<Rightarrow> ('k, 'z) conn_world_scheme \<Rightarrow> ('k, 'z) conn_world_scheme \<Rightarrow> bool) \<Rightarrow>
   nat \<Rightarrow> nat \<Rightarrow> Channel \<Rightarrow> ('k, 'z) conn_world_scheme \<Rightarrow> ('k, 'z) conn_world_scheme \<Rightarrow> bool"
where
  "amid K p c org w0 w \<longleftrightarrow> conn_forward p w0 w \<and> K p w0 w \<and> view_of p w = Some (c, chan_view org) \<and>
     (ch_revents org AND EPOLLOUT \<noteq> 0 \<longrightarrow> state_of p w = kDisconnected \<or> has_output p w)"

lemma amid_channel:
  assumes "amid K p c org w0 w"
  obtains conn ch where "conns w p = Some conn" "conn_channel conn = c" "channels w c = Some ch" "chan_view ch = chan_view org"
    "p \<noteq> 0" "c \<noteq> 0" "conn_ok p w" "conn_parts_ok (wakeupfd w) conn ch"
proof -
  have ok: "conn_ok p w" and v: "view_of p w = Some (c, chan_view org)" using assms by (simp_all add: amid_def conn_forward_def)
  obtain conn ch where c: "p \<noteq> 0" "conns w p = Some conn" "channels w (conn_channel conn) = Some ch"
    "conn_parts_ok (wakeupfd w) conn ch" using conn_okE[OF ok] .
  then show thesis using that[of conn ch] v ok by (simp add: view_of_def conn_parts_ok_def)
qed

text \<open>One conditional call: what runs is the callback of the channel the dispatch began with.\<close>

lemma dispatch_if_amid:
  assumes am: "amid K p c org w0 w" and f: "\<And>ch. chan_view ch = chan_view org \<Longrightarrow> callback ch = Some f"
    and run: "test (ch_revents org) \<Longrightarrow> result_in E (invoke f w) Q" and skip: "\<not> test (ch_revents org) \<Longrightarrow> Q w"
  shows "result_in E (dispatch_if invoke c test callback w) Q"
proof -
  obtain ch where ch: "channels w c = Some ch" "chan_view ch = chan_view org" "c \<noteq> 0"
    using amid_channel[OF am] by metis
  then have "ch_revents ch = ch_revents org" "callback ch = Some f" using f chan_view_fields(4) by blast+
  then show ?thesis using ch run skip by (simp add: dispatch_if_def)
qed

lemma handleWrite_view:
  assumes ok: "conn_ok p w" and t: "tid w = cur" and spec: "write_spec os sent" and conn: "conns w p = Some conn"
    and ready: "conn_state conn = kDisconnected \<or> conn_state conn \<noteq> kConnecting \<and> content (outputBuffer conn) \<noteq> []"
    and run: "handleWrite os cur p w = Inr w'"
  shows "view_of p w' = view_of p w"
proof (cases "conn_state conn = kDisconnected")
  case True
  have "p \<noteq> 0" using ok by (auto elim: conn_okE)
  then show ?thesis using True conn run by (simp add: handleWrite_def)
next
  case False
  then have up: "conn_state conn = kConnected \<or> conn_state conn = kDisconnecting" and out: "content (outputBuffer conn) \<noteq> []"
    using ready by (cases "conn_state conn", auto)+
  from ok conn obtain ch where p: "p \<noteq> 0" and ch: "channels w (conn_channel conn) = Some ch"
    and parts: "conn_parts_ok (wakeupfd w) conn ch" by (auto elim: conn_okE)
  obtain r w1 where w1: "sys (sys_write os (sockfd conn) (content (outputBuffer conn))) w = (r, w1)" by fastforce
  then have k: "sys_write os (sockfd conn) (content (outputBuffer conn)) (kernel w) = (r, kernel w1)"
    and frame: "conns w1 = conns w" "channels w1 = channels w" by (auto simp: sys_def case_prod_beta)
  have n: "n \<le> length (content (outputBuffer conn))" if "r = Inr n" for n
    using write_specD(2)[OF spec] k that by blast
  show ?thesis
    using handleWrite_eq[OF p conn ch t parts up out w1 n] run conn ch frame
    by (cases r) (auto simp: view_of_def chan_view_def dispatch_view_def split: if_splits)
qed

lemma conn_forward_handling:
  assumes fwd: "conn_forward p w0 w" and v: "view_of p w = Some (c, d)"
  shows "returns (modify_channel c (\<lambda>ch. ch\<lparr>ch_handlingEvents := b\<rparr>) w) (\<lambda>w'.
    conn_forward p w0 w' \<and> view_of p w' = Some (c, d) \<and> (\<exists>conn ch. conns w p = Some conn \<and> conn_channel conn = c \<and> channels w c = Some ch \<and> w' = put_channel c (ch\<lparr>ch_handlingEvents := b\<rparr>) w) \<and> state_of p w' = state_of p w \<and> has_output p w' = has_output p w)"
proof -
  have ok: "conn_ok p w" using fwd by (simp add: conn_forward_def)
  obtain conn ch where c: "p \<noteq> 0" "conns w p = Some conn" "channels w (conn_channel conn) = Some ch"
    "conn_parts_ok (wakeupfd w) conn ch" using conn_okE[OF ok] .
  have cc: "conn_channel conn = c" "c \<noteq> 0" using c v by (auto simp: view_of_def conn_parts_ok_def)
  let ?w = "put_channel c (ch\<lparr>ch_handlingEvents := b\<rparr>) w"
  have "conn_ok p ?w"
    by (rule conn_okI[OF c(1), where conn = conn and ch = "ch\<lparr>ch_handlingEvents := b\<rparr>"])
      (use c cc in \<open>auto simp: conn_parts_ok_def isWriting_def split: ConnectState.splits\<close>)
  then show ?thesis
    using c cc fwd v by (simp add: conn_forward_def state_of_def has_output_def view_of_def chan_view_def dispatch_view_def)
qed

text \<open>The four conditional calls, one after the other. \<open>closed\<close>: a hang-up has been dispatched.\<close>

definition after_close ::
  "(nat \<Rightarrow> ('k, 'z) conn_world_scheme \<Rightarrow> ('k, 'z) conn_world_scheme \<Rightarrow> bool) \<Rightarrow>
   nat \<Rightarrow> nat \<Rightarrow> Channel \<Rightarrow> ('k, 'z) conn_world_scheme \<Rightarrow> ('k, 'z) conn_world_scheme \<Rightarrow> bool"
where
  "after_close K p c org w0 w \<longleftrightarrow> amid K p c org w0 w \<and>
     (if hangs_up (ch_revents org) then state_of p w = kDisconnected else is_up (state_of p w))"

lemma wired_view:
  assumes "wired p org" "chan_view ch = chan_view org"
  shows "ch_closeCallback ch = Some (TcpConnection_handleClose_fn p)" "ch_errorCallback ch = Some (TcpConnection_handleError_fn p)"
    "ch_readCallback ch = Some (TcpConnection_handleRead_fn p)" "ch_writeCallback ch = Some (TcpConnection_handleWrite_fn p)"
  using assms(1) dispatch_view_fields[OF chan_view_fields(1)[OF assms(2)]] by (simp_all add: wired_def)

lemma amid_ok: "amid K p c org w0 w \<Longrightarrow> conn_ok p w" "amid K p c org w0 w \<Longrightarrow> tid w = tid w0"
  by (simp_all add: amid_def conn_forward_def)

text \<open>The world in which \<open>handleClose\<close> calls the close callback.\<close>

lemma handleClose_prefix:
  fixes os :: "'k os" and w :: "('k, 'z) conn_world_scheme"
  assumes p: "p \<noteq> 0" and conn: "conns w p = Some conn" and ch: "channels w (conn_channel conn) = Some ch" and c: "conn_channel conn \<noteq> 0"
    and t: "tid w = cur" and parts: "conn_parts_ok (wakeupfd w) conn ch" and st: "conn_state conn = kConnected \<or> conn_state conn = kDisconnecting"
  defines "w2 \<equiv> with_interest os (conn_channel conn) ch 0 (put_conn p (conn\<lparr>conn_state := kDisconnected\<rparr>) w)"
  shows "handleClose os call cur p w = call_conn call (closeCallback conn) p w2" "conn_ok p w2" "view_of p w2 = view_of p w" "tid w2 = tid w"
proof -
  have rm: "EventLoop_removeChannel os cur (conn_channel conn) (put_conn p (conn\<lparr>conn_state := kDisconnected\<rparr>) w) = Inr w2"
    unfolding w2_def using disableAll.interest_ok[of "put_conn p (conn\<lparr>conn_state := kDisconnected\<rparr>) w" cur "conn_channel conn" ch os]
      c ch t conn_parts_up(1)[OF parts st] by (simp add: removeChannel_eq)
  then show "handleClose os call cur p w = call_conn call (closeCallback conn) p w2" using p conn t st by (simp add: handleClose_def)
  show "conn_ok p w2"
    by (rule conn_okI[OF p, where conn = "conn\<lparr>conn_state := kDisconnected\<rparr>" and ch = "ch\<lparr>ch_events := 0, pooling := False\<rparr>"])
      (use parts in \<open>auto simp: conn_parts_ok_def w2_def\<close>)
  show "view_of p w2 = view_of p w" using conn ch by (simp add: w2_def view_of_def chan_view_def dispatch_view_def)
  show "tid w2 = tid w" by (simp add: w2_def)
qed

text \<open>The four conditional calls in any component that keeps the contract.\<close>

context dispatch_frame
begin

lemma amid_step: "amid K p c org w0 w \<Longrightarrow> dispatch_step K p w w' \<Longrightarrow> amid K p c org w0 w'"
  by (auto simp: amid_def dispatch_step_def conn_forward_def intro: K_trans)

lemma amid_J: "amid K p c org w0 w \<Longrightarrow> J p w0 \<Longrightarrow> J p w"
  using K_J by (auto simp: amid_def)

lemma handleWrite_amid:
  assumes am: "amid K p c org w0 w" and spec: "write_spec os sent" and t: "tid w0 = cur" and j: "J p w0" and st: "state_of p w0 \<noteq> kConnecting"
    and out: "ch_revents org AND EPOLLOUT \<noteq> 0"
  shows "result_in E (handleWrite os cur p w) (\<lambda>w'. conn_forward p w0 w' \<and> K p w0 w' \<and> view_of p w' = view_of p w)"
proof -
  obtain conn where conn: "conns w p = Some conn" and ok: "conn_ok p w" using amid_channel[OF am] by metis
  have fwd: "conn_forward p w0 w" and k: "K p w0 w" using am by (simp_all add: amid_def)
  then have t': "tid w = cur" and "state_of p w \<noteq> kConnecting"
    using t st by (auto simp: conn_forward_def less_eq_ConnectState_def) (cases "state_of p w0"; simp)
  then have ready: "conn_state conn = kDisconnected \<or> conn_state conn \<noteq> kConnecting \<and> content (outputBuffer conn) \<noteq> []"
    using am out conn by (auto simp: amid_def state_of_def has_output_def)
  obtain w' where w': "handleWrite os cur p w = Inr w'" "sends_from sent p [] w w'"
    using handleWrite_ok[OF spec t' ok conn ready] by (auto simp: returns_iff)
  then have "conn_forward p w0 w'" using fwd by (auto simp: conn_forward_def sends_from_def)
  moreover have "K p w0 w'" by (rule K_trans[OF k K_write[OF spec ok amid_J[OF am j] t' conn ready w'(1)]])
  ultimately show ?thesis using w'(1) handleWrite_view[OF ok t' spec conn ready w'(1)] by simp
qed

lemma dispatch_close:
  assumes am: "amid K p c org w0 w" and up: "is_up (state_of p w)" and wi: "wired p org" and j: "J p w0"
    and tame: "tame J K E os (tid w0) p call"
  shows "result_in (insert LengthError E) (dispatch_if (conn_invoke os call hwm other (tid w0)) c
    (\<lambda>r. r AND EPOLLHUP \<noteq> 0 \<and> r AND EPOLLIN = 0) ch_closeCallback w) (after_close K p c org w0)"
proof (rule dispatch_if_amid[OF am wired_view(1)[OF wi]])
  have "result_in E (handleClose os call (tid w0) p w) (\<lambda>w'. dispatch_step K p w w' \<and> state_of p w' = kDisconnected)"
    by (rule tameD(1)[OF tame amid_ok[OF am] amid_J[OF am j] up])
  then show "result_in (insert LengthError E) (conn_invoke os call hwm other (tid w0) (TcpConnection_handleClose_fn p) w)
      (after_close K p c org w0)" if "ch_revents org AND EPOLLHUP \<noteq> 0 \<and> ch_revents org AND EPOLLIN = 0"
    using that
    by (auto simp: conn_invoke_def hangs_up_def after_close_def elim!: result_in_mono intro: amid_step[OF am])
qed (use am up in \<open>auto simp: hangs_up_def after_close_def\<close>)

lemma dispatch_error:
  assumes ac: "after_close K p c org w0 w" and wi: "wired p org"
  shows "result_in E (dispatch_if (conn_invoke os call hwm other (tid w0)) c (\<lambda>r. r AND EPOLLERR \<noteq> 0) ch_errorCallback w)
    (after_close K p c org w0)"
proof -
  have am: "amid K p c org w0 w" using ac by (simp add: after_close_def)
  obtain conn where conn: "conns w p = Some conn" "p \<noteq> 0" using amid_channel[OF am] by metis
  let ?w = "snd (sys (sys_so_error os (sockfd conn)) w)"
  have "dispatch_step K p w ?w" by (rule dispatch_step_same[OF amid_ok(1)[OF am]]) (simp_all add: K_sys)
  moreover have "state_of p ?w = state_of p w" by (simp add: state_of_def)
  ultimately have "after_close K p c org w0 ?w" using ac amid_step[OF am] by (simp add: after_close_def)
  then show ?thesis
    by (intro dispatch_if_amid[OF am wired_view(2)[OF wi]]) (use conn ac in \<open>simp_all add: conn_invoke_def handleError_def\<close>)
qed

lemma dispatch_read:
  assumes ac: "after_close K p c org w0 w" and wi: "wired p org" and rep: "reported org" and j: "J p w0"
    and tame: "tame J K E os (tid w0) p call" and readv: "readv_spec os"
  shows "result_in (insert LengthError E) (dispatch_if (conn_invoke os call hwm other (tid w0)) c
    (\<lambda>r. r AND (EPOLLIN OR EPOLLPRI OR EPOLLRDHUP) \<noteq> 0) ch_readCallback w) (amid K p c org w0)"
proof -
  have am: "amid K p c org w0 w" using ac by (simp add: after_close_def)
  show ?thesis
  proof (rule dispatch_if_amid[OF am wired_view(3)[OF wi]])
    assume "ch_revents org AND (EPOLLIN OR EPOLLPRI OR EPOLLRDHUP) \<noteq> 0"
    then have "is_up (state_of p w)" using ac rep by (auto simp: reported_def after_close_def)
    from handleRead_step[OF tame readv amid_ok[OF am] amid_J[OF am j] this]
    show "result_in (insert LengthError E) (conn_invoke os call hwm other (tid w0) (TcpConnection_handleRead_fn p) w)
        (amid K p c org w0)"
      by (auto simp: conn_invoke_def elim!: result_in_mono intro: amid_step[OF am])
  qed (use am in auto)
qed

lemma dispatch_write:
  assumes am: "amid K p c org w0 w" and wi: "wired p org" and spec: "write_spec os sent" and j: "J p w0" and st: "state_of p w0 \<noteq> kConnecting"
  shows "result_in E (dispatch_if (conn_invoke os call hwm other (tid w0)) c (\<lambda>r. r AND EPOLLOUT \<noteq> 0) ch_writeCallback w)
    (\<lambda>w'. conn_forward p w0 w' \<and> K p w0 w' \<and> view_of p w' = Some (c, chan_view org))"
  by (rule dispatch_if_amid[OF am wired_view(4)[OF wi]])
    (use handleWrite_amid[OF am spec refl j st] am in \<open>auto simp: conn_invoke_def amid_def\<close>)

lemma handling_ok:
  assumes "conn_forward p w0 w" "K p w0 w" "view_of p w = Some (c, d)"
  shows "returns (modify_channel c (\<lambda>ch. ch\<lparr>ch_handlingEvents := b\<rparr>) w) (\<lambda>w'. conn_forward p w0 w' \<and> K p w0 w' \<and>
    view_of p w' = Some (c, d) \<and> state_of p w' = state_of p w \<and> has_output p w' = has_output p w)"
  using conn_forward_handling[OF assms(1,3), of b] K_trans[OF assms(2) K_handling] by (auto simp: returns_iff)

lemma dispatch_ok:
  assumes "write_spec os sent" and "readv_spec os" and "tame J K E os cur p call" and "tid w = cur" and "conn_ok p w" and "J p w"
    and "conns w p = Some conn" and "is_up (conn_state conn)" and "channels w (conn_channel conn) = Some ch"
    and "wired p ch" and "reported ch"
  shows "result_in (insert LengthError E)
    (handleEvents (\<lambda>q v. conns v q \<noteq> None) (conn_invoke os call hwm other cur) cur (conn_channel conn) w)
    (\<lambda>w'. conn_forward p w w' \<and> K p w w' \<and> view_of p w' = view_of p w)"
proof -
  let ?c = "conn_channel conn" and ?E = "insert LengthError E"
  let ?Q = "\<lambda>v. conn_forward p w v \<and> K p w v \<and> view_of p v = Some (?c, chan_view ch)"
  have parts: "conn_parts_ok (wakeupfd w) conn ch" using assms(5,7,9) by (auto elim: conn_okE)
  have up: "is_up (state_of p w)" using assms(7,8) by (simp add: state_of_def)
  have out: "ch_revents ch AND EPOLLOUT \<noteq> 0 \<longrightarrow> has_output p w"
    using assms(7,8,11) conn_parts_up(3)[OF parts] by (auto simp: reported_def has_output_def is_up_def)
  have start: "conn_forward p w w" "K p w w" "view_of p w = Some (?c, chan_view ch)"
    using assms(5,7,9) K_kernel[of p w "kernel w"] by (simp_all add: conn_forward_def view_of_def)
  have begin_ok: "result_in ?E (modify_channel ?c (\<lambda>ch. ch\<lparr>ch_handlingEvents := True\<rparr>) w)
      (\<lambda>v. amid K p ?c ch w v \<and> is_up (state_of p v))"
    using handling_ok[OF start, of True] out up by (auto simp: returns_iff amid_def)
  have end_ok: "result_in ?E (modify_channel ?c (\<lambda>ch. ch\<lparr>ch_handlingEvents := False\<rparr>) v) ?Q" if "?Q v" for v
    using handling_ok[of p w v ?c "chan_view ch" False] that by (auto simp: returns_iff)
  have st: "state_of p w \<noteq> kConnecting" using up by (auto simp: is_up_def)
  have tame: "tame J K E os (tid w) p call" using assms(3,4) by simp
  have "result_in ?E (handleEventWithGuard (conn_invoke os call hwm other (tid w)) ?c w) ?Q"
    unfolding handleEventWithGuard_def
    by (rule result_in_rbind[OF begin_ok], rule result_in_rbind[OF dispatch_close[OF _ _ assms(10,6) tame]], blast, blast,
        rule result_in_rbind[OF dispatch_error[OF _ assms(10)]], assumption,
        rule result_in_rbind[OF dispatch_read[OF _ assms(10,11,6) tame assms(2)]], assumption,
        rule result_in_rbind[OF dispatch_write[OF _ assms(10,1,6) st]], assumption, rule end_ok)
  then show ?thesis
    using assms(4,7,9,10) parts start(3) by (simp add: handleEvents_def wired_def conn_parts_ok_def)
qed

end

section \<open>A connection by itself\<close>

text \<open>With nothing more asked of connections, the contract holds trivially.\<close>

interpretation alone: dispatch_frame "\<lambda>p w. True" "\<lambda>p w w'. True"
  by unfold_locales simp_all

text \<open>Then callbacks are tame when each of them makes a step of the dispatch.\<close>

definition tame_callbacks :: "fault set \<Rightarrow> nat \<Rightarrow> nat \<Rightarrow> ('k, 'z) conn_call \<Rightarrow> bool" where
  "tame_callbacks E cur p call \<longleftrightarrow>
     (\<forall>cb w. conn_ok p w \<and> tid w = cur \<longrightarrow> result_in E (call cb p w) (dispatch_step (\<lambda>_ _ _. True) p w))"

lemma tame_good: "tame_callbacks E cur p call \<Longrightarrow> good_callbacks E cur p call"
  unfolding tame_callbacks_def good_callbacks_def dispatch_step_def
  by (blast intro: result_in_mono)

lemma tame_call:
  assumes "tame_callbacks E cur p call" "conn_ok p w" "tid w = cur" "cb \<noteq> None"
  shows "result_in E (call_conn call cb p w) (dispatch_step (\<lambda>_ _ _. True) p w)"
  using assms by (auto simp: tame_callbacks_def call_conn_def)

lemma handleClose_step:
  assumes tame: "tame_callbacks E cur p call" and ok: "conn_ok p w" and t: "tid w = cur" and up: "is_up (state_of p w)"
  shows "result_in E (handleClose os call cur p w) (\<lambda>w'. dispatch_step (\<lambda>_ _ _. True) p w w' \<and> state_of p w' = kDisconnected)"
proof -
  have up': "state_of p w = kConnected \<or> state_of p w = kDisconnecting" using up by (simp add: is_up_def)
  obtain conn ch where p: "p \<noteq> 0" and conn: "conns w p = Some conn" and ch: "channels w (conn_channel conn) = Some ch"
    and parts: "conn_parts_ok (wakeupfd w) conn ch" and c: "conn_channel conn \<noteq> 0"
    and st: "conn_state conn = kConnected \<or> conn_state conn = kDisconnecting"
    using conn_upE[OF ok up'] .
  note close = handleClose_prefix[OF p conn ch c t parts st, where os = os]
  have cb: "closeCallback conn \<noteq> None" using parts by (simp add: conn_parts_ok_def)
  have "dispatch_step (\<lambda>_ _ _. True) p w w'" if "handleClose os call cur p w = Inr w'" "conn_forward p w w'" "state_of p w' = kDisconnected" for w'
    using tame_call[OF tame close(2) _ cb] that t close(1,3) by (simp add: dispatch_step_def)
  then show ?thesis
    by (intro result_in_mono[OF handleClose_ok[OF tame_good[OF tame] ok t up', of os] order_refl]) simp
qed

lemma conn_ok_message: "conn_ok p w \<Longrightarrow> conns w p = Some conn \<Longrightarrow> messageCallback conn \<noteq> None"
  by (auto elim!: conn_okE simp: conn_parts_ok_def)

lemma tame_callbacks_tame:
  assumes "tame_callbacks E cur p call"
  shows "tame (\<lambda>_ _. True) (\<lambda>_ _ _. True) E os cur p call"
  unfolding tame_def
  by (intro allI impI conjI; elim conjE) (rule handleClose_step[OF assms] tame_call[OF assms]; simp add: conn_ok_message)+


text \<open>A connection is wired once it is established.\<close>

lemma connection_wired:
  assumes "rbind (TcpConnection_new p c fd loc peer w) (connectEstablished os cur p) = Inr w'" and "tid w = cur" and "c \<noteq> 0" and "p \<noteq> 0"
  shows "\<exists>ch. channels w' c = Some ch \<and> wired p ch"
  using assms enableRead.interest_ok
  by (auto simp: TcpConnection_new_def connectEstablished_def rbind_eq_Inr wired_def Channel_tie_def
      Channel.setErrorCallback_def Channel.setCloseCallback_def Channel.setWriteCallback_def Channel.setReadCallback_def
      enableRead.interest_ok)

text \<open>Witness: the peer has closed and an error is pending; one dispatch closes the connection.\<close>

definition readable_channel :: Channel where
  "readable_channel = (Channel_new 7)\<lparr>pooling := True, ch_events := EPOLLIN OR EPOLLPRI,
     ch_revents := EPOLLIN OR EPOLLHUP OR EPOLLERR, ch_closeCallback := Some (TcpConnection_handleClose_fn 20),
     ch_errorCallback := Some (TcpConnection_handleError_fn 20), ch_readCallback := Some (TcpConnection_handleRead_fn 20),
     ch_writeCallback := Some (TcpConnection_handleWrite_fn 20), ch_tied := True, ch_tie := Some 20\<rparr>"

definition sample_readable :: "sample_kernel conn_world" where
  "sample_readable = put_channel 21 readable_channel sample_world"

lemma sample_readable_ok: "conn_ok 20 sample_readable" "wired 20 readable_channel" "reported readable_channel"
  by (simp_all add: conn_ok_def sample_readable_def readable_channel_def sample_conn_def conn_parts_ok_def sample_buffer_inv
      Channel_new_def isWriting_def epoll_masks sample_buffer_empty wired_def reported_def hangs_up_def)

lemma sample_tame: "tame_callbacks {} 1 20 (\<lambda>cb p w. Inr w)"
  by (simp add: tame_callbacks_def dispatch_step_def conn_forward_def)


end
