(* ===== verification/ThreadPool.thy ===== *)
theory ThreadPool
  imports Prelude
begin

text \<open>
  The class \<open>ThreadPool\<close> (\<open>ThreadPool.cc\<close>): a bounded queue of tasks, workers that take from it,
  callers of \<open>runTask\<close> that may block while it is full, and \<open>stop\<close>. The threads interleave: a
  step is one critical section under \<open>mutex_\<close>, or one access to the atomic \<open>running_\<close> outside
  it. Waiting on a condition variable gives the mutex up in the same step, and a woken thread
  tests its condition again; threads may wake up spuriously. \<open>pushed\<close>, \<open>taken\<close> and \<open>finished\<close>
  record the history. Tasks are callable (an empty \<open>std::function\<close> is not submitted).
\<close>

section \<open>State\<close>

datatype 'a worker = W_init | W_loop | W_take | W_wait | W_run 'a | W_exit
datatype 'a producer = P_idle | P_push 'a | P_wait 'a
datatype stopper = S_idle | S_notify | S_join | S_done

record 'a pool =
  taskQueue :: "'a list"
  maxQueueSize :: nat
  running :: bool
  threads :: nat
  workers :: "nat \<Rightarrow> 'a worker"
  producers :: "nat \<Rightarrow> 'a producer"
  stopper :: stopper
  pushed :: "'a list"
  taken :: "'a list"
  finished :: "'a list"

definition ThreadPool_new :: "nat \<Rightarrow> nat \<Rightarrow> 'a pool result" where
  "ThreadPool_new threadNum maxSize =
     rbind (ensure (maxSize > 0) AssertFailed) (\<lambda>_.
     Inr \<lparr>taskQueue = [], maxQueueSize = maxSize, running = True, threads = threadNum,
          workers = (\<lambda>_. W_init), producers = (\<lambda>_. P_idle), stopper = S_idle,
          pushed = [], taken = [], finished = []\<rparr>)"

section \<open>Critical sections\<close>

definition set_worker :: "nat \<Rightarrow> 'a worker \<Rightarrow> 'a pool \<Rightarrow> 'a pool" where
  "set_worker i v s = s\<lparr>workers := (workers s)(i := v)\<rparr>"

definition set_producer :: "nat \<Rightarrow> 'a producer \<Rightarrow> 'a pool \<Rightarrow> 'a pool" where
  "set_producer j v s = s\<lparr>producers := (producers s)(j := v)\<rparr>"

text \<open>\<open>notify_one\<close> wakes one of the threads that wait, whichever it is; none if nobody waits.\<close>

definition notifies :: "(nat \<Rightarrow> bool) \<Rightarrow> nat option \<Rightarrow> bool" where
  "notifies waiting k = (case k of None \<Rightarrow> \<forall>j. \<not> waiting j | Some j \<Rightarrow> waiting j)"

definition worker_waits :: "'a pool \<Rightarrow> nat \<Rightarrow> bool" where
  "worker_waits s i \<longleftrightarrow> i < threads s \<and> workers s i = W_wait"

definition producer_waits :: "'a pool \<Rightarrow> nat \<Rightarrow> bool" where
  "producer_waits s j = (case producers s j of P_wait t \<Rightarrow> True | _ \<Rightarrow> False)"

definition wake_worker :: "nat option \<Rightarrow> 'a pool \<Rightarrow> 'a pool" where
  "wake_worker k s = (case k of None \<Rightarrow> s | Some i \<Rightarrow> set_worker i W_take s)"

definition wake_producer :: "nat option \<Rightarrow> 'a pool \<Rightarrow> 'a pool" where
  "wake_producer k s =
     (case k of
        None \<Rightarrow> s
      | Some j \<Rightarrow> (case producers s j of P_wait t \<Rightarrow> set_producer j (P_push t) s | _ \<Rightarrow> s))"

text \<open>\<open>runTask\<close> under the mutex: wait while the queue is full, else push and notify a worker.\<close>

definition runTask_section :: "nat \<Rightarrow> nat option \<Rightarrow> 'a \<Rightarrow> 'a pool \<Rightarrow> 'a pool" where
  "runTask_section j k t s =
     (if length (taskQueue s) \<ge> maxQueueSize s then set_producer j (P_wait t) s
      else wake_worker k (set_producer j P_idle
             (s\<lparr>taskQueue := taskQueue s @ [t], pushed := pushed s @ [t]\<rparr>)))"

text \<open>\<open>take\<close> under the mutex: wait while there is nothing and the pool runs, else pop the first
  task and notify a caller; the empty task sends the worker back to its loop.\<close>

definition take_section :: "nat \<Rightarrow> nat option \<Rightarrow> 'a pool \<Rightarrow> 'a pool" where
  "take_section i k s =
     (case taskQueue s of
        [] \<Rightarrow> set_worker i (if running s then W_wait else W_loop) s
      | t # ts \<Rightarrow> wake_producer k (set_worker i (W_run t) (s\<lparr>taskQueue := ts, taken := taken s @ [t]\<rparr>)))"

definition stop_section :: "'a pool \<Rightarrow> 'a pool" where
  "stop_section s = s\<lparr>workers := (\<lambda>i. if workers s i = W_wait then W_take else workers s i), stopper := S_join\<rparr>"

section \<open>Interleaving\<close>

text \<open>The steps of worker \<open>i\<close> (\<open>runInThread\<close>).\<close>

inductive worker_step :: "nat \<Rightarrow> 'a pool \<Rightarrow> 'a pool \<Rightarrow> bool" where
  w_init: "i < threads s \<Longrightarrow> workers s i = W_init \<Longrightarrow> worker_step i s (set_worker i W_loop s)"
| w_loop: "i < threads s \<Longrightarrow> workers s i = W_loop \<Longrightarrow>
     worker_step i s (set_worker i (if running s then W_take else W_exit) s)"
| w_take: "i < threads s \<Longrightarrow> workers s i = W_take \<Longrightarrow> notifies (producer_waits s) k \<Longrightarrow>
     worker_step i s (take_section i k s)"
| w_run: "i < threads s \<Longrightarrow> workers s i = W_run t \<Longrightarrow>
     worker_step i s (set_worker i W_loop (s\<lparr>finished := finished s @ [t]\<rparr>))"

text \<open>The steps of the callers of \<open>runTask\<close>, of \<open>stop\<close>, and spurious wake-ups.\<close>

inductive pool_step :: "'a pool \<Rightarrow> 'a pool \<Rightarrow> bool" where
  p_worker: "worker_step i s s' \<Longrightarrow> pool_step s s'"
| p_call: "running s \<Longrightarrow> threads s \<noteq> 0 \<Longrightarrow> producers s j = P_idle \<Longrightarrow> pool_step s (set_producer j (P_push t) s)"
| p_inline: "running s \<Longrightarrow> threads s = 0 \<Longrightarrow> pool_step s (s\<lparr>finished := finished s @ [t]\<rparr>)"
| p_push: "producers s j = P_push t \<Longrightarrow> notifies (worker_waits s) k \<Longrightarrow> pool_step s (runTask_section j k t s)"
| p_spurious: "producers s j = P_wait t \<Longrightarrow> pool_step s (set_producer j (P_push t) s)"
| w_spurious: "worker_waits s i \<Longrightarrow> pool_step s (set_worker i W_take s)"
| s_stop: "running s \<Longrightarrow> stopper s = S_idle \<Longrightarrow> pool_step s (s\<lparr>running := False, stopper := S_notify\<rparr>)"
| s_notify: "stopper s = S_notify \<Longrightarrow> pool_step s (stop_section s)"
| s_join: "stopper s = S_join \<Longrightarrow> \<forall>i < threads s. workers s i = W_exit \<Longrightarrow> pool_step s (s\<lparr>stopper := S_done\<rparr>)"

inductive_cases worker_stepE: "worker_step i s s'"

definition pool_start :: "nat \<Rightarrow> nat \<Rightarrow> 'a pool \<Rightarrow> bool" where
  "pool_start n m s \<longleftrightarrow> ThreadPool_new n m = Inr s"

section \<open>Invariant\<close>

text \<open>
  The queue is bounded and holds what was pushed and not yet taken, in order; while the pool
  runs, a task in the queue is never left to sleeping workers; once \<open>stop\<close> has notified, no
  worker sleeps.
\<close>

definition pool_inv :: "nat \<Rightarrow> nat \<Rightarrow> 'a pool \<Rightarrow> bool" where
  "pool_inv n m s \<longleftrightarrow> threads s = n \<and> maxQueueSize s = m \<and> m > 0 \<and>
     length (taskQueue s) \<le> m \<and> taken s @ taskQueue s = pushed s \<and>
     (running s \<longleftrightarrow> stopper s = S_idle) \<and>
     (running s \<longrightarrow> (\<forall>i < n. workers s i \<noteq> W_exit)) \<and>
     (stopper s = S_join \<or> stopper s = S_done \<longrightarrow> (\<forall>i < n. workers s i \<noteq> W_wait)) \<and>
     (taskQueue s \<noteq> [] \<and> running s \<longrightarrow> (\<exists>i < n. workers s i \<noteq> W_wait)) \<and>
     (n = 0 \<longrightarrow> (\<forall>j. producers s j = P_idle))"

lemma pool_simps [simp]:
  "taskQueue (set_worker i v s) = taskQueue s" "maxQueueSize (set_worker i v s) = maxQueueSize s"
  "running (set_worker i v s) = running s" "threads (set_worker i v s) = threads s"
  "workers (set_worker i v s) = (workers s)(i := v)" "producers (set_worker i v s) = producers s"
  "stopper (set_worker i v s) = stopper s" "pushed (set_worker i v s) = pushed s"
  "taken (set_worker i v s) = taken s" "finished (set_worker i v s) = finished s"
  "taskQueue (set_producer j u s) = taskQueue s" "maxQueueSize (set_producer j u s) = maxQueueSize s"
  "running (set_producer j u s) = running s" "threads (set_producer j u s) = threads s"
  "workers (set_producer j u s) = workers s" "producers (set_producer j u s) = (producers s)(j := u)"
  "stopper (set_producer j u s) = stopper s" "pushed (set_producer j u s) = pushed s"
  "taken (set_producer j u s) = taken s" "finished (set_producer j u s) = finished s"
  by (simp_all add: set_worker_def set_producer_def)

lemma wake_producer_simps [simp]:
  "taskQueue (wake_producer k s) = taskQueue s" "maxQueueSize (wake_producer k s) = maxQueueSize s"
  "running (wake_producer k s) = running s" "threads (wake_producer k s) = threads s"
  "workers (wake_producer k s) = workers s" "stopper (wake_producer k s) = stopper s"
  "pushed (wake_producer k s) = pushed s" "taken (wake_producer k s) = taken s"
  "finished (wake_producer k s) = finished s"
  "producers s j = P_idle \<Longrightarrow> producers (wake_producer k s) j = P_idle"
  by (auto simp: wake_producer_def split: option.splits producer.splits)

lemma wake_worker_simps [simp]:
  "taskQueue (wake_worker k s) = taskQueue s" "maxQueueSize (wake_worker k s) = maxQueueSize s"
  "running (wake_worker k s) = running s" "threads (wake_worker k s) = threads s"
  "producers (wake_worker k s) = producers s" "stopper (wake_worker k s) = stopper s"
  "pushed (wake_worker k s) = pushed s" "taken (wake_worker k s) = taken s"
  "finished (wake_worker k s) = finished s"
  "workers (wake_worker k s) = (case k of None \<Rightarrow> workers s | Some i \<Rightarrow> (workers s)(i := W_take))"
  by (auto simp: wake_worker_def split: option.splits)

lemma worker_step_inv:
  assumes inv: "pool_inv n m s" and step: "worker_step i s s'"
  shows "pool_inv n m s'"
  using step
proof cases
  case w_init
  then show ?thesis using inv by (auto simp: pool_inv_def)
next
  case w_loop
  then show ?thesis using inv by (auto simp: pool_inv_def)
next
  case (w_take k)
  then show ?thesis
    using inv by (auto simp: pool_inv_def take_section_def split: list.splits)
next
  case (w_run t)
  then show ?thesis using inv by (auto simp: pool_inv_def)
qed

lemma push_inv:
  assumes inv: "pool_inv n m s" and p: "producers s j = P_push t" and k: "notifies (worker_waits s) k"
  shows "pool_inv n m (runTask_section j k t s)"
proof (cases "length (taskQueue s) \<ge> maxQueueSize s")
  case True
  then show ?thesis using inv p by (auto simp: pool_inv_def runTask_section_def)
next
  case False
  have n: "n \<noteq> 0" using inv p by (auto simp: pool_inv_def)
  then have awake: "\<exists>i < n. (case k of None \<Rightarrow> workers s | Some i \<Rightarrow> (workers s)(i := W_take)) i \<noteq> W_wait"
    using k inv by (cases k) (auto simp: notifies_def worker_waits_def pool_inv_def intro: exI[of _ 0])
  define ws where "ws = (case k of None \<Rightarrow> workers s | Some i \<Rightarrow> (workers s)(i := W_take))"
  have kept: "ws i = W_exit \<Longrightarrow> workers s i = W_exit" "ws i = W_wait \<Longrightarrow> workers s i = W_wait" for i
    by (auto simp: ws_def split: option.splits if_splits)
  have "running s \<longrightarrow> (\<forall>i < n. ws i \<noteq> W_exit)"
    using inv kept(1) unfolding pool_inv_def by blast
  moreover have "stopper s = S_join \<or> stopper s = S_done \<longrightarrow> (\<forall>i < n. ws i \<noteq> W_wait)"
    using inv kept(2) unfolding pool_inv_def by blast
  moreover have "length (taskQueue s @ [t]) \<le> m" "taken s @ taskQueue s @ [t] = pushed s @ [t]"
    using inv False by (simp_all add: pool_inv_def flip: append_assoc)
  moreover have "workers (wake_worker k (set_producer j P_idle
      (s\<lparr>taskQueue := taskQueue s @ [t], pushed := pushed s @ [t]\<rparr>))) = ws"
    by (cases k) (simp_all add: ws_def)
  ultimately have "pool_inv n m (wake_worker k (set_producer j P_idle
      (s\<lparr>taskQueue := taskQueue s @ [t], pushed := pushed s @ [t]\<rparr>)))"
    using inv awake n unfolding ws_def[symmetric] by (simp add: pool_inv_def del: wake_worker_simps(10))
  then show ?thesis using False by (simp add: runTask_section_def)
qed

lemma pool_step_inv:
  assumes inv: "pool_inv n m s" and step: "pool_step s s'"
  shows "pool_inv n m s'"
  using step
proof cases
  case (p_worker i)
  then show ?thesis using worker_step_inv[OF inv] by blast
next
  case (p_push j t k)
  then show ?thesis using push_inv[OF inv] by simp
next
  case (w_spurious i)
  then show ?thesis using inv by (auto simp: pool_inv_def worker_waits_def)
next
  case s_notify
  then show ?thesis using inv by (auto simp: pool_inv_def stop_section_def)
qed (use inv in \<open>auto simp: pool_inv_def\<close>)

interpretation pool: inductive_invariant "pool_start n m" pool_step "pool_inv n m" for n m
proof unfold_locales
  fix s :: "'a pool"
  assume "pool_start n m s"
  then show "pool_inv n m s"
    by (auto simp: pool_start_def ThreadPool_new_def pool_inv_def rbind_eq_Inr)
qed (rule pool_step_inv)

section \<open>Stopping\<close>

text \<open>What a worker still has to do once the pool is stopped.\<close>

fun worker_rank :: "'a worker \<Rightarrow> nat" where
  "worker_rank W_exit = 0"
| "worker_rank W_loop = 1"
| "worker_rank (W_run t) = 2"
| "worker_rank W_take = 3"
| "worker_rank W_wait = 4"
| "worker_rank W_init = 4"

definition pool_rank :: "'a pool \<Rightarrow> nat" where
  "pool_rank s = (\<Sum>i < threads s. worker_rank (workers s i))"

lemma pool_rank_upd:
  assumes "i < threads s" "worker_rank v < worker_rank (workers s i)"
    "workers s' = (workers s)(i := v)" "threads s' = threads s"
  shows "pool_rank s' < pool_rank s"
proof -
  have "(\<Sum>k < threads s. worker_rank (((workers s)(i := v)) k)) < (\<Sum>k < threads s. worker_rank (workers s k))"
    by (rule sum_strict_mono_ex1) (use assms in \<open>auto intro: less_imp_le\<close>)
  then show ?thesis using assms by (simp add: pool_rank_def)
qed

lemma worker_step_rank:
  assumes inv: "pool_inv n m s" and stopped: "\<not> running s" and step: "worker_step i s s'"
  shows "pool_rank s' < pool_rank s"
  using step
proof cases
  case (w_take k)
  show ?thesis
    by (rule pool_rank_upd[where v = "case taskQueue s of [] \<Rightarrow> W_loop | t # ts \<Rightarrow> W_run t"])
      (use w_take stopped in \<open>auto simp: take_section_def split: list.splits\<close>)
qed (use stopped in \<open>auto intro!: pool_rank_upd\<close>)

lemma worker_enabled:
  assumes "i < threads s" "workers s i \<noteq> W_exit" "workers s i \<noteq> W_wait"
  shows "\<exists>s'. worker_step i s s'"
proof (cases "workers s i")
  case W_take
  obtain k where "notifies (producer_waits s) k"
  proof (cases "\<exists>j. producer_waits s j")
    case True
    then obtain j where "producer_waits s j" by blast
    then show thesis using that[of "Some j"] by (simp add: notifies_def)
  next
    case False
    then show thesis using that[of None] by (simp add: notifies_def)
  qed
  then show ?thesis using w_take[OF assms(1) W_take] by blast
qed (use assms in \<open>auto intro: worker_step.intros\<close>)

lemma worker_step_stopper: "worker_step i s s' \<Longrightarrow> stopper s' = stopper s \<and> threads s' = threads s"
  by (erule worker_stepE) (auto simp: take_section_def split: list.splits)

lemma stop_reaches_done:
  "pool_inv n m s \<Longrightarrow> stopper s = S_join \<Longrightarrow> \<exists>s'. pool_step\<^sup>*\<^sup>* s s' \<and> stopper s' = S_done"
proof (induction "pool_rank s" arbitrary: s rule: less_induct)
  case less
  show ?case
  proof (cases "\<forall>i < threads s. workers s i = W_exit")
    case True
    then have "pool_step s (s\<lparr>stopper := S_done\<rparr>)" using less.prems by (intro s_join)
    then have "pool_step\<^sup>*\<^sup>* s (s\<lparr>stopper := S_done\<rparr>)" by (rule r_into_rtranclp)
    moreover have "stopper (s\<lparr>stopper := S_done\<rparr>) = S_done" by simp
    ultimately show ?thesis by blast
  next
    case False
    then obtain i where i: "i < threads s" "workers s i \<noteq> W_exit" by blast
    moreover have "workers s i \<noteq> W_wait" using less.prems i by (auto simp: pool_inv_def)
    ultimately obtain s1 where s1: "worker_step i s s1" using worker_enabled by blast
    have "\<not> running s" using less.prems by (auto simp: pool_inv_def)
    then have "pool_rank s1 < pool_rank s" using worker_step_rank[OF less.prems(1) _ s1] by simp
    moreover have "pool_inv n m s1" by (rule worker_step_inv[OF less.prems(1) s1])
    moreover have "stopper s1 = S_join" using worker_step_stopper[OF s1] less.prems by simp
    ultimately obtain s' where "pool_step\<^sup>*\<^sup>* s1 s'" "stopper s' = S_done" using less.hyps by blast
    then show ?thesis using p_worker[OF s1] by (meson converse_rtranclp_into_rtranclp)
  qed
qed

section \<open>Properties\<close>

text \<open>
  C21. The pool is a bounded first-in first-out queue: in every reachable state, whatever the
  interleaving, the queue holds at most \<open>maxQueueSize\<close> tasks, the tasks taken by the workers so
  far followed by those in the queue are the tasks submitted, in this order (none is lost,
  doubled or overtaken), and while the pool runs a task in the queue is never left to workers
  that all sleep.
\<close>

theorem pool_queue_correct:
  assumes "reach (pool_start n m) pool_step s"
  shows "length (taskQueue s) \<le> m \<and> taken s @ taskQueue s = pushed s \<and>
    (taskQueue s \<noteq> [] \<and> running s \<longrightarrow> (\<exists>i < n. workers s i \<noteq> W_wait \<and> workers s i \<noteq> W_exit))"
proof -
  have inv: "pool_inv n m s" by (rule pool.invariant_reach[OF assms])
  then show ?thesis by (auto simp: pool_inv_def)
qed

text \<open>Witness: one worker, a queue of one; a caller submits a task.\<close>

definition sample_pool :: "nat pool" where
  "sample_pool = \<lparr>taskQueue = [], maxQueueSize = 1, running = True, threads = 1, workers = (\<lambda>_. W_init),
     producers = (\<lambda>_. P_idle), stopper = S_idle, pushed = [], taken = [], finished = []\<rparr>"

lemma sample_pool_start: "pool_start 1 1 sample_pool"
  by (simp add: pool_start_def ThreadPool_new_def sample_pool_def)

definition sample_submitted :: "nat pool" where
  "sample_submitted = sample_pool\<lparr>taskQueue := [7], pushed := [7]\<rparr>"

lemma sample_submit: "pool_step\<^sup>*\<^sup>* sample_pool sample_submitted"
proof -
  have "pool_step sample_pool (set_producer 0 (P_push 7) sample_pool)" (is "pool_step _ ?s1")
    by (rule p_call) (simp_all add: sample_pool_def)
  moreover have "pool_step ?s1 (runTask_section 0 None 7 ?s1)"
    by (rule p_push) (simp_all add: notifies_def worker_waits_def sample_pool_def)
  moreover have "runTask_section 0 None 7 ?s1 = sample_submitted"
    by (simp add: runTask_section_def set_producer_def wake_worker_def sample_pool_def sample_submitted_def fun_eq_iff)
  ultimately show ?thesis by (metis rtranclp.rtrancl_into_rtrancl rtranclp.rtrancl_refl)
qed

theorem pool_queue_correct_witness:
  "\<exists>s :: nat pool. reach (pool_start 1 1) pool_step s \<and> taskQueue s = [7] \<and> taken s @ taskQueue s = pushed s"
proof -
  have "reach (pool_start 1 1) pool_step sample_submitted"
    by (rule reach_rtranclp[OF reach_start[where start = "pool_start 1 1", OF sample_pool_start] sample_submit])
  then show ?thesis
    using pool_queue_correct[of 1 1 sample_submitted] by (auto simp: sample_submitted_def)
qed

text \<open>
  C22. \<open>stop\<close> terminates: once it has notified the workers, no worker sleeps any more, every
  worker that has not left can make a step, every step of a worker brings the pool closer to
  its end, and from every such state the pool can reach the point where all threads are joined.
\<close>

theorem pool_stop_terminates:
  assumes "reach (pool_start n m) pool_step s" and "stopper s = S_join"
  shows "(\<forall>i < n. workers s i \<noteq> W_exit \<longrightarrow> (\<exists>s'. worker_step i s s')) \<and>
    (\<forall>i s'. worker_step i s s' \<longrightarrow> pool_rank s' < pool_rank s) \<and>
    (\<exists>s'. pool_step\<^sup>*\<^sup>* s s' \<and> stopper s' = S_done)"
proof -
  have inv: "pool_inv n m s" by (rule pool.invariant_reach[OF assms(1)])
  then have stopped: "\<not> running s" "threads s = n" "\<forall>i < n. workers s i \<noteq> W_wait"
    using assms(2) by (auto simp: pool_inv_def)
  show ?thesis
    using worker_enabled[of _ s] worker_step_rank[OF inv stopped(1)] stop_reaches_done[OF inv assms(2)] stopped(2,3)
    by blast
qed

definition sample_stopped :: "nat pool" where
  "sample_stopped = sample_submitted\<lparr>running := False, stopper := S_join\<rparr>"

lemma sample_stop: "pool_step\<^sup>*\<^sup>* sample_submitted sample_stopped"
proof -
  have "pool_step sample_submitted (sample_submitted\<lparr>running := False, stopper := S_notify\<rparr>)" (is "pool_step _ ?s1")
    by (rule s_stop) (simp_all add: sample_submitted_def sample_pool_def)
  moreover have "pool_step ?s1 (stop_section ?s1)"
    by (rule s_notify) simp
  moreover have "stop_section ?s1 = sample_stopped"
    by (simp add: stop_section_def sample_stopped_def sample_submitted_def sample_pool_def)
  ultimately show ?thesis by (metis rtranclp.rtrancl_into_rtrancl rtranclp.rtrancl_refl)
qed

lemma sample_stopped_reach: "reach (pool_start 1 1) pool_step sample_stopped"
  by (rule reach_rtranclp[OF reach_start[where start = "pool_start 1 1", OF sample_pool_start]
        rtranclp_trans[OF sample_submit sample_stop]])

theorem pool_stop_terminates_witness:
  "\<exists>s s' :: nat pool. reach (pool_start 1 1) pool_step s \<and> stopper s = S_join \<and>
    pool_step\<^sup>*\<^sup>* s s' \<and> stopper s' = S_done"
  using pool_stop_terminates[OF sample_stopped_reach] sample_stopped_reach
  by (auto simp: sample_stopped_def)

text \<open>
  C38. A caller of \<open>runTask\<close> that is blocked on a full queue when the pool stops never returns:
  once all workers have left, nobody makes room or wakes it, so in every later state it is still
  inside \<open>runTask\<close>. (\<open>stop\<close> notifies \<open>notEmpty_\<close> only.) The tasks in the queue are never run.
\<close>

theorem blocked_caller_hangs:
  assumes "reach (pool_start n m) pool_step s" and "\<forall>i < n. workers s i = W_exit" and "m \<le> length (taskQueue s)"
    and "producers s j = P_push t \<or> producers s j = P_wait t" and "n \<noteq> 0" and "pool_step\<^sup>*\<^sup>* s s'"
  shows "(producers s' j = P_push t \<or> producers s' j = P_wait t) \<and> taskQueue s' = taskQueue s"
proof -
  have inv: "pool_inv n m s" by (rule pool.invariant_reach[OF assms(1)])
  define J where "J = (\<lambda>v :: 'a pool. threads v = n \<and> maxQueueSize v = m \<and> \<not> running v \<and> (\<forall>i < n. workers v i = W_exit) \<and>
    m \<le> length (taskQueue v) \<and> taskQueue v = taskQueue s \<and> (producers v j = P_push t \<or> producers v j = P_wait t))"
  have start: "J s" using inv assms(2-5) by (auto simp: J_def pool_inv_def)
  have keep: "J v \<Longrightarrow> pool_step v v' \<Longrightarrow> J v'" for v v'
    by (erule pool_step.cases)
      (auto simp: J_def runTask_section_def stop_section_def worker_waits_def elim: worker_stepE)
  have "pool_step\<^sup>*\<^sup>* s s' \<Longrightarrow> J s'"
    by (induction rule: rtranclp_induct) (auto intro: start keep)
  then show ?thesis using assms(6) by (simp add: J_def)
qed

text \<open>Witness: a second caller blocks, the pool stops, and the worker leaves without a look at the queue.\<close>

lemma step_trans: "pool_step\<^sup>*\<^sup>* s t \<Longrightarrow> pool_step t u \<Longrightarrow> u = v \<Longrightarrow> pool_step\<^sup>*\<^sup>* s v"
  by auto

definition sample_blocked :: "bool \<Rightarrow> stopper \<Rightarrow> nat worker \<Rightarrow> nat pool" where
  "sample_blocked run st wk = sample_submitted\<lparr>producers := (\<lambda>_. P_idle)(1 := P_wait 8), running := run,
     stopper := st, workers := (\<lambda>_. W_init)(0 := wk)\<rparr>"

lemma sample_blocked_reach: "reach (pool_start 1 1) pool_step (sample_blocked False S_join W_exit)"
proof -
  let ?s1 = "set_producer 1 (P_push 8) sample_submitted"
  have a: "pool_step\<^sup>*\<^sup>* sample_pool ?s1"
    by (rule step_trans[OF sample_submit p_call refl]) (simp_all add: sample_submitted_def sample_pool_def)
  have b: "pool_step\<^sup>*\<^sup>* sample_pool (sample_blocked True S_idle W_init)"
    by (rule step_trans[OF a p_push[where k = None and j = 1 and t = 8]])
      (simp_all add: notifies_def worker_waits_def sample_submitted_def sample_pool_def runTask_section_def
        set_producer_def sample_blocked_def fun_eq_iff)
  have c: "pool_step\<^sup>*\<^sup>* sample_pool (sample_blocked False S_notify W_init)"
    by (rule step_trans[OF b s_stop]) (simp_all add: sample_blocked_def sample_submitted_def sample_pool_def)
  have d: "pool_step\<^sup>*\<^sup>* sample_pool (sample_blocked False S_join W_init)"
    by (rule step_trans[OF c s_notify]) (simp_all add: sample_blocked_def stop_section_def fun_eq_iff)
  have e: "pool_step\<^sup>*\<^sup>* sample_pool (sample_blocked False S_join W_loop)"
    by (rule step_trans[OF d p_worker[OF w_init[where i = 0]]])
      (simp_all add: sample_blocked_def sample_submitted_def sample_pool_def set_worker_def)
  have f: "pool_step\<^sup>*\<^sup>* sample_pool (sample_blocked False S_join W_exit)"
    by (rule step_trans[OF e p_worker[OF w_loop[where i = 0]]])
      (simp_all add: sample_blocked_def sample_submitted_def sample_pool_def set_worker_def)
  show ?thesis by (rule reach_rtranclp[OF reach_start[where start = "pool_start 1 1", OF sample_pool_start] f])
qed

theorem blocked_caller_hangs_witness:
  "\<exists>s :: nat pool. reach (pool_start 1 1) pool_step s \<and> producers s 1 = P_wait 8 \<and> running s = False \<and>
    (\<forall>s'. pool_step\<^sup>*\<^sup>* s s' \<longrightarrow> producers s' 1 = P_push 8 \<or> producers s' 1 = P_wait 8)"
proof -
  let ?s = "sample_blocked False S_join W_exit"
  have "producers s' 1 = P_push 8 \<or> producers s' 1 = P_wait 8" if "pool_step\<^sup>*\<^sup>* ?s s'" for s'
    using blocked_caller_hangs[OF sample_blocked_reach _ _ _ _ that, of 1 8]
    by (auto simp: sample_blocked_def sample_submitted_def)
  moreover have "producers ?s 1 = P_wait 8 \<and> running ?s = False" by (simp add: sample_blocked_def)
  ultimately show ?thesis using sample_blocked_reach by blast
qed

end
