(* ===== verification/Example_Servers.thy ===== *)
theory Example_Servers
  imports TcpServer Connection_Dispatch ThreadPool
begin

text \<open>
  The example servers (\<open>EchoServer.cc\<close>, \<open>AddOneServer.cc\<close>): applications of the library. Both
  answer messages and close connections that have been idle too long, with a table of deadlines
  that a periodic timer looks through. The world of a loop is extended by the members of the
  server object. The four callbacks the object installs are the user callbacks 0 to 3 and its
  timer callback is \<open>User_fn 0\<close>; the two lambdas of \<open>main\<close> are \<open>User_fn 1\<close> and \<open>User_fn 2\<close>, and
  \<open>countdown\<close> is the variable the second of them owns.
\<close>

section \<open>State\<close>

record 'k app_world = "'k server_world" +
  deadlines :: "nat \<rightharpoonup> int"
  app_timeout :: int
  app_threadNums :: nat
  app_timer :: nat
  app_server :: TcpServer
  countdown :: int

type_synonym ('k, 'z) app_op = "('k, 'z) app_world_scheme \<Rightarrow> ('k, 'z) app_world_scheme result"

abbreviation onConnection_cb :: conn_callback where "onConnection_cb \<equiv> UserConnCallback 0"
abbreviation onMessage_cb :: conn_callback where "onMessage_cb \<equiv> UserConnCallback 1"
abbreviation onWriteComplete_cb :: conn_callback where "onWriteComplete_cb \<equiv> UserConnCallback 2"
abbreviation onHighWaterMark_cb :: conn_callback where "onHighWaterMark_cb \<equiv> UserConnCallback 3"

definition bytes_of :: "string \<Rightarrow> byte list" where
  "bytes_of s = map (\<lambda>c. word_of_nat (of_char c)) s"

section \<open>EchoServer\<close>

text \<open>
  The constructor: the timer first (\<open>p\<close> is its address), then the callbacks of the \<open>TcpServer\<close>.
\<close>

definition EchoServer_new :: "'k os \<Rightarrow> nat \<Rightarrow> nat \<Rightarrow> InetAddress \<Rightarrow> nat \<Rightarrow> int \<Rightarrow> ('k, 'z) app_op" where
  "EchoServer_new os cur p local threadNums timeout w =
     rbind (runEvery os cur p timeout (Some (User_fn 0))
       (w\<lparr>app_server := TcpServer_new local, app_threadNums := threadNums, app_timeout := timeout,
          deadlines := Map.empty\<rparr>)) (\<lambda>w1.
     Inr (w1\<lparr>app_timer := p,
       app_server := ts_setWriteCompleteCallback (Some onWriteComplete_cb)
         (ts_setMessageCallback (Some onMessage_cb)
         (ts_setConnectionCallback (Some onConnection_cb) (app_server w1)))\<rparr>))"

definition EchoServer_destroy :: "'k os \<Rightarrow> nat \<Rightarrow> ('k, 'z) app_op" where
  "EchoServer_destroy os cur w = EventLoop_cancelTimer os cur (app_timer w) w"

definition EchoServer_start ::
  "'k os \<Rightarrow> nat \<Rightarrow> (closure \<Rightarrow> ('k, 'z) app_op) \<Rightarrow> ('k, 'z) app_op"
where
  "EchoServer_start os cur exec w =
     rbind (setNumThread cur (app_threadNums w) w (app_server w)) (\<lambda>s.
     rbind (ts_start os cur exec s w) (\<lambda>(s1, w1). Inr (w1\<lparr>app_server := s1\<rparr>)))"

definition expireAfter :: "'k os \<Rightarrow> nat \<Rightarrow> int \<Rightarrow> ('k, 'z) app_op" where
  "expireAfter os p interval w =
     (let (t, w1) = nowAfter os interval w
      in rbind t (\<lambda>t. Inr (w1\<lparr>deadlines := (deadlines w1)(p \<mapsto> t)\<rparr>)))"

definition Echo_onConnection :: "'k os \<Rightarrow> nat \<Rightarrow> ('k, 'z) app_op" where
  "Echo_onConnection os p w =
     rbind (deref (conns w) p) (\<lambda>conn.
     if connected conn
     then rbind (modify_conn p (setHighWaterMarkCallback (Some onHighWaterMark_cb) 1024) w)
            (expireAfter os p (app_timeout w))
     else Inr (w\<lparr>deadlines := (deadlines w)(p := None)\<rparr>))"

text \<open>
  \<open>onMessage\<close>: \<open>buffer\<close> is the input buffer of the connection, so what \<open>send(buffer)\<close> leaves of it
  is stored back.
\<close>

definition send_input :: "'k os \<Rightarrow> nat \<Rightarrow> nat \<Rightarrow> ('k, 'z) conn_op" where
  "send_input os cur p w =
     rbind (deref (conns w) p) (\<lambda>conn.
     rbind (conn_send_Buffer os cur p (inputBuffer conn) w) (\<lambda>(b, w1).
     modify_conn p (\<lambda>conn. conn\<lparr>inputBuffer := b\<rparr>) w1))"

definition echo_greeting :: "nat \<Rightarrow> byte list" where
  "echo_greeting t = bytes_of (''Echo handled by tid '' @ to_string t @ '' : '')"

definition Echo_onMessage :: "'k os \<Rightarrow> nat \<Rightarrow> nat \<Rightarrow> ('k, 'z) app_op" where
  "Echo_onMessage os cur p w =
     rbind (conn_send os cur p (echo_greeting cur) w) (\<lambda>w1.
     rbind (send_input os cur p w1) (\<lambda>w2.
     expireAfter os p (app_timeout w2) w2))"

definition onWriteComplete :: "'k os \<Rightarrow> nat \<Rightarrow> nat \<Rightarrow> ('k, 'z) app_op" where
  "onWriteComplete os cur p w =
     rbind (conn_isReading p w) (\<lambda>reading.
     if \<not> reading
     then rbind (startRead os cur p w) (\<lambda>w1. expireAfter os p (app_timeout w1) w1)
     else Inr w)"

definition onHighWaterMark :: "'k os \<Rightarrow> nat \<Rightarrow> nat \<Rightarrow> nat \<Rightarrow> ('k, 'z) app_op" where
  "onHighWaterMark os cur p mark w =
     rbind (stopRead os cur p w) (\<lambda>w1.
     rbind (int64_add (app_timeout w1) (app_timeout w1)) (\<lambda>twice. expireAfter os p twice w1))"

text \<open>
  \<open>onTimeout\<close> walks through the hash table; \<open>ks\<close> is the order in which it does. The clock is read
  for every entry.
\<close>

definition expire_entry :: "'k os \<Rightarrow> nat \<Rightarrow> nat \<Rightarrow> ('k, 'z) app_op" where
  "expire_entry os cur p w =
     (case deadlines w p of
        None \<Rightarrow> Inr w
      | Some t \<Rightarrow>
          let (now, w1) = sys (sys_clock_now os) w
          in if t \<le> now
             then rbind (forceClose os cur p w1) (\<lambda>w2. Inr (w2\<lparr>deadlines := (deadlines w2)(p := None)\<rparr>))
             else Inr w1)"

definition onTimeout :: "'k os \<Rightarrow> nat \<Rightarrow> nat list \<Rightarrow> ('k, 'z) app_op" where
  "onTimeout os cur ks = rfold (expire_entry os cur) ks"

text \<open>How the callbacks of the server run.\<close>

definition echo_user :: "'k os \<Rightarrow> nat \<Rightarrow> nat \<Rightarrow> nat \<Rightarrow> ('k, 'z) app_op" where
  "echo_user os cur n p =
     (if n = 0 then Echo_onConnection os p
      else if n = 1 then Echo_onMessage os cur p
      else if n = 2 then onWriteComplete os cur p
      else (\<lambda>w. Inl BadFunctionCall))"

abbreviation echo_call :: "'k os \<Rightarrow> nat \<Rightarrow> ('k, 'z app_world_ext server_world_ext) conn_call" where
  "echo_call os cur \<equiv> server_call (echo_user os cur) cur"

definition echo_hwm :: "'k os \<Rightarrow> nat \<Rightarrow> conn_callback \<Rightarrow> nat \<Rightarrow> nat \<Rightarrow> ('k, 'z) app_op" where
  "echo_hwm os cur cb p mark =
     (case cb of
        UserConnCallback n \<Rightarrow> if n = 3 then onHighWaterMark os cur p mark else (\<lambda>w. Inl BadFunctionCall)
      | _ \<Rightarrow> (\<lambda>w. Inl BadFunctionCall))"

section \<open>The main function of the servers\<close>

text \<open>
  After a minute the first lambda starts a timer of a second, whose lambda counts five of them and
  then stops the loop; \<open>p\<close> is the address of that timer. \<open>order\<close> lists the keys of a hash table.
\<close>

definition announce_quit :: "'k os \<Rightarrow> nat \<Rightarrow> nat \<Rightarrow> ('k, 'z) app_op" where
  "announce_quit os cur p w = runEvery os cur p 1000000000 (Some (User_fn 2)) (w\<lparr>countdown := 5\<rparr>)"

definition quit_tick :: "'k os \<Rightarrow> nat \<Rightarrow> ('k, 'z) app_op" where
  "quit_tick os cur w =
     (let w1 = w\<lparr>countdown := countdown w - 1\<rparr>
      in if countdown w1 = 0 then EventLoop_quit os cur w1 else Inr w1)"

definition main_fn :: "'k os \<Rightarrow> nat \<Rightarrow> ((nat \<rightharpoonup> int) \<Rightarrow> nat list) \<Rightarrow> nat \<Rightarrow> nat \<Rightarrow> ('k, 'z) app_op" where
  "main_fn os cur order p n =
     (if n = 0 then (\<lambda>w. onTimeout os cur (order (deadlines w)) w)
      else if n = 1 then announce_quit os cur p
      else if n = 2 then quit_tick os cur
      else (\<lambda>w. Inl BadFunctionCall))"

definition echo_main :: "'k os \<Rightarrow> nat \<Rightarrow> (closure \<Rightarrow> ('k, 'z) app_op) \<Rightarrow> nat \<Rightarrow> nat \<Rightarrow> ('k, 'z) app_op" where
  "echo_main os cur exec p q w =
     rbind (EchoServer_new os cur p (InetAddress_new 9877 False) 3 20000000000 w) (\<lambda>w1.
     rbind (EchoServer_start os cur exec w1)
       (runAfter os cur q 60000000000 (Some (User_fn 1))))"

section \<open>Numbers as text\<close>

definition string_of :: "byte list \<Rightarrow> string" where
  "string_of bs = map (\<lambda>b. char_of (unat b)) bs"

definition is_space :: "char \<Rightarrow> bool" where
  "is_space c \<longleftrightarrow> c = CHR '' '' \<or> (9 \<le> (of_char c :: nat) \<and> (of_char c :: nat) \<le> 13)"

text \<open>
  \<open>std::stoll\<close>: white space, a sign, digits up to the first other character; it throws when there
  is no digit and when the value does not fit.
\<close>

definition stoll :: "string \<Rightarrow> int result" where
  "stoll s =
     (let t = dropWhile is_space s;
          neg = (t \<noteq> [] \<and> hd t = CHR ''-'');
          u = (if t \<noteq> [] \<and> (hd t = CHR ''-'' \<or> hd t = CHR ''+'') then tl t else t);
          ds = takeWhile is_digit u;
          v = (if neg then - int (digits_value ds) else int (digits_value ds))
      in rbind (ensure (ds \<noteq> []) InvalidArgument) (\<lambda>_.
         rbind (ensure (- (2 ^ 63) \<le> v \<and> v < 2 ^ 63) OutOfRange) (\<lambda>_. Inr v)))"

section \<open>AddOneServer\<close>

text \<open>
  The constructor also starts the thread pool (queue size 65536). \<open>start\<close>, \<open>onWriteComplete\<close>, \<open>onHighWaterMark\<close>, \<open>onTimeout\<close>,
  \<open>expireAfter\<close> and the destructor's body are written a second time in \<open>AddOneServer.cc\<close>; they are the same functions
  as those of \<open>EchoServer\<close>. \<open>onConnection\<close> sets no deadline, and \<open>onMessage\<close> has the number computed by a task of
  the pool.
\<close>

definition AddOneServer_new ::
  "'k os \<Rightarrow> nat \<Rightarrow> nat \<Rightarrow> InetAddress \<Rightarrow> nat \<Rightarrow> int \<Rightarrow> nat \<Rightarrow> ('k, 'z) app_world_scheme \<Rightarrow>
   (('k, 'z) app_world_scheme \<times> closure pool) result"
where
  "AddOneServer_new os cur p local threadNums timeout threadPoolSize w =
     rbind (runEvery os cur p timeout (Some (User_fn 0))
       (w\<lparr>app_server := TcpServer_new local, app_threadNums := threadNums, app_timeout := timeout,
          deadlines := Map.empty\<rparr>)) (\<lambda>w1.
     rbind (ThreadPool_new threadPoolSize 65536) (\<lambda>pool.
     Inr (w1\<lparr>app_timer := p,
       app_server := ts_setWriteCompleteCallback (Some onWriteComplete_cb)
         (ts_setMessageCallback (Some onMessage_cb)
         (ts_setConnectionCallback (Some onConnection_cb) (app_server w1)))\<rparr>, pool)))"

definition AddOneServer_destroy :: "'k os \<Rightarrow> nat \<Rightarrow> ('k, 'z) app_op" where
  "AddOneServer_destroy os cur w = EventLoop_cancelTimer os cur (app_timer w) w"

definition AddOneServer_start :: "'k os \<Rightarrow> nat \<Rightarrow> (closure \<Rightarrow> ('k, 'z) app_op) \<Rightarrow> ('k, 'z) app_op" where
  "AddOneServer_start os cur exec w =
     rbind (setNumThread cur (app_threadNums w) w (app_server w)) (\<lambda>s.
     rbind (ts_start os cur exec s w) (\<lambda>(s1, w1). Inr (w1\<lparr>app_server := s1\<rparr>)))"

definition AddOne_expireAfter :: "'k os \<Rightarrow> nat \<Rightarrow> int \<Rightarrow> ('k, 'z) app_op" where
  "AddOne_expireAfter os p interval w =
     (let (t, w1) = nowAfter os interval w in rbind t (\<lambda>t. Inr (w1\<lparr>deadlines := (deadlines w1)(p \<mapsto> t)\<rparr>)))"

definition AddOne_onWriteComplete :: "'k os \<Rightarrow> nat \<Rightarrow> nat \<Rightarrow> ('k, 'z) app_op" where
  "AddOne_onWriteComplete os cur p w =
     rbind (conn_isReading p w) (\<lambda>reading.
     if \<not> reading then rbind (startRead os cur p w) (\<lambda>w1. AddOne_expireAfter os p (app_timeout w1) w1) else Inr w)"

definition AddOne_onHighWaterMark :: "'k os \<Rightarrow> nat \<Rightarrow> nat \<Rightarrow> nat \<Rightarrow> ('k, 'z) app_op" where
  "AddOne_onHighWaterMark os cur p mark w =
     rbind (stopRead os cur p w) (\<lambda>w1.
     rbind (int64_add (app_timeout w1) (app_timeout w1)) (\<lambda>twice. AddOne_expireAfter os p twice w1))"

definition AddOne_expire_entry :: "'k os \<Rightarrow> nat \<Rightarrow> nat \<Rightarrow> ('k, 'z) app_op" where
  "AddOne_expire_entry os cur p w =
     (case deadlines w p of
        None \<Rightarrow> Inr w
      | Some t \<Rightarrow>
          let (now, w1) = sys (sys_clock_now os) w
          in if t \<le> now
             then rbind (forceClose os cur p w1) (\<lambda>w2. Inr (w2\<lparr>deadlines := (deadlines w2)(p := None)\<rparr>))
             else Inr w1)"

definition AddOne_onTimeout :: "'k os \<Rightarrow> nat \<Rightarrow> nat list \<Rightarrow> ('k, 'z) app_op" where
  "AddOne_onTimeout os cur ks = rfold (AddOne_expire_entry os cur) ks"

lemma AddOne_expireAfter_eq [simp]: "AddOne_expireAfter = expireAfter"
  by (simp add: fun_eq_iff AddOne_expireAfter_def expireAfter_def)

lemma AddOne_expire_entry_eq [simp]: "AddOne_expire_entry = expire_entry"
  by (simp add: fun_eq_iff AddOne_expire_entry_def expire_entry_def)

lemma addone_twins [simp]:
  "AddOneServer_destroy = EchoServer_destroy" "AddOneServer_start = EchoServer_start"
  "AddOne_onWriteComplete = onWriteComplete" "AddOne_onHighWaterMark = onHighWaterMark" "AddOne_onTimeout = onTimeout"
  by (simp_all add: fun_eq_iff AddOneServer_destroy_def EchoServer_destroy_def AddOneServer_start_def EchoServer_start_def
      AddOne_onWriteComplete_def onWriteComplete_def AddOne_onHighWaterMark_def onHighWaterMark_def
      AddOne_onTimeout_def onTimeout_def cong: if_cong)

definition AddOne_onConnection :: "nat \<Rightarrow> ('k, 'z) app_op" where
  "AddOne_onConnection p w =
     rbind (deref (conns w) p) (\<lambda>conn.
     if connected conn then modify_conn p (setHighWaterMarkCallback (Some onHighWaterMark_cb) 1024) w
     else Inr (w\<lparr>deadlines := (deadlines w)(p := None)\<rparr>))"

text \<open>The three pieces of an answer.\<close>

definition addone_greeting :: "nat \<Rightarrow> byte list" where
  "addone_greeting t = bytes_of (''Connection handled by tid '' @ to_string t @ '', '')"

definition addone_note :: "nat \<Rightarrow> byte list" where
  "addone_note t = bytes_of (''calculation handled by tid '' @ to_string t @ '': '')"

definition addone_result :: "int \<Rightarrow> byte list" where
  "addone_result res = bytes_of (long_string res @ [CHR 0x0A])"

text \<open>
  The task, in thread \<open>t\<close> of the pool. The thread of the loop waits for the result, so the task has
  the buffer for itself. An exception of \<open>stoll\<close> leaves the function of the pool's thread.
\<close>

definition addone_task :: "nat \<Rightarrow> nat \<Rightarrow> ('k, 'z) conn_world_scheme \<Rightarrow> (int \<times> ('k, 'z) conn_world_scheme) result" where
  "addone_task t p w =
     rbind (deref (conns w) p) (\<lambda>conn.
     rbind (retrieveAllAsString (inputBuffer conn)) (\<lambda>(str, b).
     rbind (stoll (string_of str)) (\<lambda>oldNum.
     rbind (Buffer_append (addone_note t) b) (\<lambda>b1.
     rbind (int64_add oldNum 1) (\<lambda>v. Inr (v, put_conn p (conn\<lparr>inputBuffer := b1\<rparr>) w))))))"

definition append_input :: "byte list \<Rightarrow> nat \<Rightarrow> ('k, 'z) conn_op" where
  "append_input data p w =
     rbind (deref (conns w) p) (\<lambda>conn.
     rbind (Buffer_append data (inputBuffer conn)) (\<lambda>b. Inr (put_conn p (conn\<lparr>inputBuffer := b\<rparr>) w)))"

definition AddOne_onMessage :: "'k os \<Rightarrow> nat \<Rightarrow> nat \<Rightarrow> nat \<Rightarrow> ('k, 'z) app_op" where
  "AddOne_onMessage os cur t p w =
     rbind (conn_send os cur p (addone_greeting cur) w) (\<lambda>w1.
     rbind (addone_task t p w1) (\<lambda>(res, w2).
     rbind (append_input (addone_result res) p w2) (\<lambda>w3.
     rbind (send_input os cur p w3) (\<lambda>w4.
     AddOne_expireAfter os p (app_timeout w4) w4))))"

definition addone_user :: "'k os \<Rightarrow> nat \<Rightarrow> nat \<Rightarrow> nat \<Rightarrow> nat \<Rightarrow> ('k, 'z) app_op" where
  "addone_user os cur t n p =
     (if n = 0 then AddOne_onConnection p
      else if n = 1 then AddOne_onMessage os cur t p
      else if n = 2 then AddOne_onWriteComplete os cur p
      else (\<lambda>w. Inl BadFunctionCall))"

abbreviation addone_call :: "'k os \<Rightarrow> nat \<Rightarrow> nat \<Rightarrow> ('k, 'z app_world_ext server_world_ext) conn_call" where
  "addone_call os cur t \<equiv> server_call (addone_user os cur t) cur"

definition addone_hwm :: "'k os \<Rightarrow> nat \<Rightarrow> conn_callback \<Rightarrow> nat \<Rightarrow> nat \<Rightarrow> ('k, 'z) app_op" where
  "addone_hwm os cur cb p mark =
     (case cb of
        UserConnCallback n \<Rightarrow> if n = 3 then AddOne_onHighWaterMark os cur p mark else (\<lambda>w. Inl BadFunctionCall)
      | _ \<Rightarrow> (\<lambda>w. Inl BadFunctionCall))"

definition addone_main ::
  "'k os \<Rightarrow> nat \<Rightarrow> (closure \<Rightarrow> ('k, 'z) app_op) \<Rightarrow> nat \<Rightarrow> nat \<Rightarrow> ('k, 'z) app_world_scheme \<Rightarrow>
   (('k, 'z) app_world_scheme \<times> closure pool) result"
where
  "addone_main os cur exec p q w =
     rbind (AddOneServer_new os cur p (InetAddress_new 9877 False) 32 30000000000 32 w) (\<lambda>(w1, pool).
     rbind (AddOneServer_start os cur exec w1) (\<lambda>w2.
     rbind (runAfter os cur q 60000000000 (Some (User_fn 1)) w2) (\<lambda>w3. Inr (w3, pool))))"

end
