(* ===== verification/Example_Replies.thy ===== *)
theory Example_Replies
  imports Example_Servers
begin

text \<open>
  What the example servers answer: the echo server returns what it received, the number server
  adds one, and what makes the number server end. First what sending leaves alone, then the
  two message callbacks, then the round trip of decimal numbers.
\<close>

section \<open>What sending leaves alone\<close>

definition send_frame :: "nat \<Rightarrow> ('k, 'z) conn_world_scheme \<Rightarrow> ('k, 'z) conn_world_scheme \<Rightarrow> bool" where
  "send_frame p w w' \<longleftrightarrow> conn_world.more w' = conn_world.more w \<and>
     (\<forall>conn. conns w p = Some conn \<longrightarrow> (\<exists>b. conns w' p = Some (conn\<lparr>outputBuffer := b\<rparr>)))"

lemma send_frame_refl: "conns w' = conns w \<Longrightarrow> conn_world.more w' = conn_world.more w \<Longrightarrow> send_frame p w w'"
proof -
  assume *: "conns w' = conns w" "conn_world.more w' = conn_world.more w"
  have "conn = conn\<lparr>outputBuffer := outputBuffer conn\<rparr>" for conn :: TcpConnection by simp
  with * show "send_frame p w w'" unfolding send_frame_def by metis
qed

lemma conn_more_frame [simp]:
  "conn_world.more (queueInLoop os cur t w) = conn_world.more w" "conn_world.more (snd (sys f w)) = conn_world.more w"
  "conn_world.more (with_interest os c ch e w) = conn_world.more w" "conn_world.more (put_conn p conn w) = conn_world.more w"
  "conn_world.more (queue_writeComplete os cur p conn w) = conn_world.more w"
  by (simp_all add: queueInLoop_def queueInLoop_wake_def queueInLoop_push_def EventLoop_wakeup_def sys_def
      with_interest_def put_conn_def put_channel_def queue_writeComplete_def case_prod_beta split: option.splits)

lemma enableWrite_frame:
  "enableWrite os cur c w = Inr w' \<Longrightarrow> conns w' = conns w \<and> conn_world.more w' = conn_world.more w"
  for w :: "('k, 'z) conn_world_scheme"
  by (auto simp: enableWrite_def modify_channel_Inr rbind_eq_Inr Channel_update_def EventLoop_updateChannel_def
      EPollPoller_updateChannel_def EPollPoller_ctl_def put_channel_def sys_def case_prod_beta split: if_splits)

lemma sendInLoop_buffer_frame:
  assumes "sendInLoop_buffer os cur p data n conn w = Inr w'" "conns w p = Some conn"
  shows "send_frame p w w'"
  using assms
  by (auto simp: sendInLoop_buffer_def Let_def rbind_eq_Inr send_frame_def dest!: enableWrite_frame split: option.splits if_splits)

lemma sendInLoop_write_frame:
  "sendInLoop_write os cur p data conn w = (n, f, w1) \<Longrightarrow> conns w1 = conns w \<and> conn_world.more w1 = conn_world.more w"
  by (auto simp: sendInLoop_write_def sys_def case_prod_beta split: sum.splits if_splits)

lemma send_frame_after:
  "conns w1 = conns w \<and> conn_world.more w1 = conn_world.more w \<Longrightarrow> send_frame p w1 w' \<Longrightarrow> send_frame p w w'"
  by (simp add: send_frame_def)

lemma sendInLoop_frame:
  assumes "sendInLoop os cur p data w = Inr w'"
  shows "send_frame p w w'"
proof -
  obtain conn where conn: "conns w p = Some conn" using assms by (auto simp: sendInLoop_def rbind_eq_Inr)
  show ?thesis
  proof (cases "conn_state conn = kDisconnected")
    case True
    then show ?thesis using assms conn by (auto simp: sendInLoop_def rbind_eq_Inr intro: send_frame_refl)
  next
    case False
    obtain ch n f w1 where res: "(if \<not> isWriting ch
            then rbind (ensure (readableBytes (outputBuffer conn) = 0) AssertFailed) (\<lambda>_.
                 Inr (sendInLoop_write os cur p data conn w))
            else Inr (0, False, w)) = Inr (n, f, w1)"
      and fin: "(if \<not> f \<and> size_sub (length data) n > 0 then sendInLoop_buffer os cur p data n conn w1 else Inr w1) = Inr w'"
      using assms conn False by (auto simp: sendInLoop_def rbind_eq_Inr simp del: ensure_eq_Inr split del: if_split)
    have w1: "conns w1 = conns w \<and> conn_world.more w1 = conn_world.more w"
      using res by (auto simp: rbind_eq_Inr split: if_splits dest!: sendInLoop_write_frame)
    have "send_frame p w1 w'"
      using fin sendInLoop_buffer_frame[of os cur p data n conn w1 w'] conn w1
      by (auto split: if_splits intro: send_frame_refl)
    then show ?thesis by (rule send_frame_after[OF w1])
  qed
qed

lemma conn_send_frame:
  assumes "conn_send os cur p data w = Inr w'"
  shows "send_frame p w w'"
  using assms by (auto simp: conn_send_def rbind_eq_Inr split: if_splits intro: send_frame_refl sendInLoop_frame)

lemma more_app:
  fixes w w' :: "('k, 'z) app_world_scheme"
  assumes "conn_world.more w' = conn_world.more w"
  shows "deadlines w' = deadlines w" "app_timeout w' = app_timeout w" "server w' = server w"
  using assms by (cases w; cases w'; simp)+

lemma deadlines_frame [simp]:
  fixes w :: "('k, 'z) app_world_scheme"
  shows "conn_ok p (w\<lparr>deadlines := d\<rparr>) = conn_ok p w" "out_stream sent p (w\<lparr>deadlines := d\<rparr>) = out_stream sent p w"
    "state_of p (w\<lparr>deadlines := d\<rparr>) = state_of p w"
  by (simp_all add: conn_ok_def out_stream_def state_of_def split: option.splits)

section \<open>A message is answered\<close>

text \<open>A thread id is a \<open>pid_t\<close>, a 32-bit integer.\<close>

lemma greeting_length: "t < 2 ^ 31 \<Longrightarrow> length (echo_greeting t) \<le> max_size"
  using length_to_string[of t 9] by (simp add: echo_greeting_def bytes_of_def max_size_def)

lemma conn_send_delivers:
  assumes spec: "write_spec os sent" and t: "tid w = cur" and ok: "conn_ok p w" and len: "length data \<le> max_size"
    and conn: "conns w p = Some conn" "conn_state conn = kConnected" and alive: "\<And>d k. \<not> write_broken os (sockfd conn) d k"
  shows "result_in {LengthError} (conn_send os cur p data w) (\<lambda>w'. sends_from sent p data w w' \<and> send_frame p w w')"
  using conn_send_ok[OF spec t ok len] alive conn conn_send_frame
  by (auto simp: send_post_def state_of_def elim!: result_in_mono)

lemma send_input_delivers:
  assumes spec: "write_spec os sent" and t: "tid w = cur" and ok: "conn_ok p w"
    and conn: "conns w p = Some conn" "conn_state conn = kConnected" and alive: "\<And>d k. \<not> write_broken os (sockfd conn) d k"
  shows "result_in {LengthError} (send_input os cur p w) (\<lambda>w'. conn_ok p w' \<and>
    out_stream sent p w' = out_stream sent p w @ content (inputBuffer conn) \<and> conn_world.more w' = conn_world.more w \<and>
    (\<exists>conn'. conns w' p = Some conn' \<and> content (inputBuffer conn') = []))"
proof -
  obtain ch where p: "p \<noteq> 0" and ch: "channels w (conn_channel conn) = Some ch" and parts: "conn_parts_ok (wakeupfd w) conn ch"
    using ok conn by (auto elim: conn_okE)
  have inv: "buffer_inv (inputBuffer conn)" using parts by (simp add: conn_parts_ok_def)
  have len: "length (content (inputBuffer conn)) \<le> max_size"
    using inv by (auto simp: buffer_inv_def content_def)
  have fin: "result_in {LengthError} (modify_conn p (\<lambda>conn. conn\<lparr>inputBuffer := retrieveAll (inputBuffer conn0)\<rparr>) w1)
     (\<lambda>w'. conn_ok p w' \<and> out_stream sent p w' = out_stream sent p w @ content (inputBuffer conn) \<and>
       conn_world.more w' = conn_world.more w \<and> (\<exists>conn'. conns w' p = Some conn' \<and> content (inputBuffer conn') = []))"
    if s: "sends_from sent p (content (inputBuffer conn)) w w1" and f: "send_frame p w w1" and c0: "conn0 = conn" for w1 conn0
  proof -
    obtain b where b: "conns w1 p = Some (conn\<lparr>outputBuffer := b\<rparr>)" using f conn by (auto simp: send_frame_def)
    have ok1: "conn_ok p w1" using s by (simp add: sends_from_def)
    obtain ch1 where ch1: "channels w1 (conn_channel conn) = Some ch1" "conn_parts_ok (wakeupfd w1) (conn\<lparr>outputBuffer := b\<rparr>) ch1"
      using ok1 b by (auto elim!: conn_okE)
    let ?conn = "conn\<lparr>outputBuffer := b, inputBuffer := retrieveAll (inputBuffer conn)\<rparr>"
    have "conn_ok p (put_conn p ?conn w1)"
      by (rule conn_okI[OF p, where conn = ?conn and ch = ch1])
        (use ch1 retrieveAll_ok[OF inv] conn(2) in \<open>auto simp: conn_parts_ok_def\<close>)
    then show ?thesis
      using s f c0 b p retrieveAll_ok[OF inv] conn
      by (auto simp: modify_conn_def sends_from_def send_frame_def out_stream_def)
  qed
  show ?thesis
    unfolding send_input_def conn_send_Buffer_eq[OF inv]
    using p conn conn_send_delivers[OF spec t ok len conn alive] fin[OF _ _ refl]
    by (auto simp: conn_send_Buffer_eq[OF inv] rbind_assoc intro!: result_in_rbind[where Q = "\<lambda>w'. sends_from sent p (content (inputBuffer conn)) w w' \<and> send_frame p w w'"])
qed


lemma expireAfter_ok:
  assumes "\<And>k. sys_clock_now os k = (clock k, k)"
  shows "result_in {SignedOverflow} (expireAfter os p i w) (\<lambda>w'. w' = w\<lparr>deadlines := (deadlines w)(p \<mapsto> clock (kernel w) + i)\<rparr>)"
  by (simp add: expireAfter_def nowAfter_def sys_def assms int64_add_def)

lemma onMessage_replies:
  fixes w :: "('k, 'z) app_world_scheme"
  assumes spec: "write_spec os sent" and clock: "\<And>k. sys_clock_now os k = (clock k, k)" and t: "tid w = cur" "cur < 2 ^ 31"
    and ok: "conn_ok p w" and conn: "conns w p = Some conn" "conn_state conn = kConnected"
    and alive: "\<And>d k. \<not> write_broken os (sockfd conn) d k"
  shows "result_in {LengthError, SignedOverflow} (Echo_onMessage os cur p w) (\<lambda>w'. conn_ok p w' \<and>
    out_stream sent p w' = out_stream sent p w @ echo_greeting cur @ content (inputBuffer conn) \<and>
    (\<exists>conn'. conns w' p = Some conn' \<and> content (inputBuffer conn') = []) \<and>
    deadlines w' = (deadlines w)(p \<mapsto> clock (kernel w') + app_timeout w))"
proof -
  let ?E = "{LengthError, SignedOverflow}"
  let ?Q1 = "\<lambda>w1. sends_from sent p (echo_greeting cur) w w1 \<and> send_frame p w w1"
  let ?Q2 = "\<lambda>w2. conn_ok p w2 \<and> out_stream sent p w2 = out_stream sent p w @ echo_greeting cur @ content (inputBuffer conn) \<and>
      conn_world.more w2 = conn_world.more w \<and> (\<exists>conn'. conns w2 p = Some conn' \<and> content (inputBuffer conn') = [])"
  have 1: "result_in ?E (conn_send os cur p (echo_greeting cur) w) ?Q1"
    by (rule result_in_mono[OF conn_send_delivers[OF spec t(1) ok greeting_length[OF t(2)] conn alive]]) auto
  have 2: "result_in ?E (send_input os cur p w1) ?Q2" if w1: "?Q1 w1" for w1
  proof -
    obtain b where b: "conns w1 p = Some (conn\<lparr>outputBuffer := b\<rparr>)" using w1 conn by (auto simp: send_frame_def)
    show ?thesis
      by (rule result_in_mono[OF send_input_delivers[OF spec _ _ b]])
        (use w1 t conn alive in \<open>auto simp: sends_from_def send_frame_def\<close>)
  qed
  have 3: "result_in ?E (expireAfter os p (app_timeout w2) w2) (\<lambda>w'. conn_ok p w' \<and>
    out_stream sent p w' = out_stream sent p w @ echo_greeting cur @ content (inputBuffer conn) \<and>
    (\<exists>conn'. conns w' p = Some conn' \<and> content (inputBuffer conn') = []) \<and>
    deadlines w' = (deadlines w)(p \<mapsto> clock (kernel w') + app_timeout w))" if w2: "?Q2 w2" for w2
    by (rule result_in_mono[OF expireAfter_ok[OF clock]]) (use w2 more_app[of w2 w] in auto)
  show ?thesis
    unfolding Echo_onMessage_def by (rule result_in_rbind[OF 1], rule result_in_rbind[OF 2], assumption, rule 3)
qed

text \<open>Data arrives: the message callback runs on the connection with the data in its input buffer.\<close>

lemma handleRead_message:
  assumes readv: "readv_spec os" and t: "tid w = cur" and ok: "conn_ok p w" and conn: "conns w p = Some conn" "conn_state conn = kConnected"
    and cb: "messageCallback conn = Some cb" and data: "sys_readv os (sockfd conn) (readFd_capacity (inputBuffer conn)) (kernel w) = (Inr data, k1)" "data \<noteq> []"
    and msg: "\<And>b w1. w1 = put_conn p (conn\<lparr>inputBuffer := b\<rparr>) (w\<lparr>kernel := k1\<rparr>) \<Longrightarrow> conn_ok p w1 \<Longrightarrow>
      content b = content (inputBuffer conn) @ data \<Longrightarrow> result_in (insert LengthError E) (call cb p w1) Q"
  shows "result_in (insert LengthError E) (handleRead os call cur p w) Q"
proof -
  obtain ch where p: "p \<noteq> 0" and ch: "channels w (conn_channel conn) = Some ch" and parts: "conn_parts_ok (wakeupfd w) conn ch"
    using ok conn by (auto elim: conn_okE)
  have inv: "buffer_inv (inputBuffer conn)" using parts by (simp add: conn_parts_ok_def)
  have "length data \<le> readFd_capacity (inputBuffer conn)"
    using readv data(1) unfolding readv_spec_def by (fastforce split: prod.splits sum.splits)
  note rd = readFd_result[OF inv this]
  have ok1: "conn_ok p (put_conn p (conn\<lparr>inputBuffer := b\<rparr>) (w\<lparr>kernel := k1\<rparr>))" if "buffer_inv b" for b
    by (rule conn_okI[OF p, where conn = "conn\<lparr>inputBuffer := b\<rparr>" and ch = ch])
      (use ch parts that conn(2) in \<open>auto simp: conn_parts_ok_def\<close>)
  have sys: "sys (sys_readv os (sockfd conn) (readFd_capacity (inputBuffer conn))) w = (Inr data, w\<lparr>kernel := k1\<rparr>)"
    using data(1) by (simp add: sys_def)
  show ?thesis
    using rd p t conn cb data(2) sys msg[OF refl ok1]
    by (cases "readFd (Inr data) (inputBuffer conn)") (auto simp: handleRead_def call_conn_def split: prod.splits)
qed

text \<open>
  The world in which \<open>handleRead\<close> calls the message callback, seen from the one in which it began.
\<close>

lemma message_world:
  fixes w :: "('k, 'z) app_world_scheme"
  assumes "w1 = put_conn p (conn\<lparr>inputBuffer := b\<rparr>) (w\<lparr>kernel := k1\<rparr>)" "conns w p = Some conn" "sent k1 = sent (kernel w)"
  shows "out_stream sent p w1 = out_stream sent p w" "deadlines w1 = deadlines w" "app_timeout w1 = app_timeout w"
    "conns w1 p = Some (conn\<lparr>inputBuffer := b\<rparr>)" "tid w1 = tid w"
  using assms by (simp_all add: out_stream_def put_conn_def)

text \<open>
  C15. The echo server answers: when a socket delivers data on a connection that is up, and no
  write says that the peer is gone, \<open>handleRead\<close> with the callbacks of \<open>EchoServer\<close> adds to the
  output stream the greeting with the thread's id followed by exactly the bytes received (those
  left in the input buffer and the new ones), empties the input buffer, keeps the invariant of
  the connection, and moves its deadline to the timeout from now. The only other outcomes are
  that a buffer cannot grow or that the time point overflows.
\<close>

theorem echo_reply:
  fixes w :: "('k, 'z) app_world_scheme"
  assumes "write_spec os sent" and "readv_spec os" and "\<And>k. sys_clock_now os k = (clock k, k)"
    and "tid w = cur" and "cur < 2 ^ 31" and "conn_ok p w" and "conns w p = Some conn" and "conn_state conn = kConnected"
    and "messageCallback conn = Some onMessage_cb" and "\<And>d k. \<not> write_broken os (sockfd conn) d k"
    and "sys_readv os (sockfd conn) (readFd_capacity (inputBuffer conn)) (kernel w) = (Inr data, k1)" and "data \<noteq> []"
    and "sent k1 = sent (kernel w)"
  shows "result_in {LengthError, SignedOverflow} (handleRead os (echo_call os cur) cur p w) (\<lambda>w'. conn_ok p w' \<and>
    out_stream sent p w' = out_stream sent p w @ echo_greeting cur @ content (inputBuffer conn) @ data \<and>
    (\<exists>conn'. conns w' p = Some conn' \<and> content (inputBuffer conn') = []) \<and>
    deadlines w' = (deadlines w)(p \<mapsto> clock (kernel w') + app_timeout w))"
proof -
  have run: "echo_call os cur onMessage_cb p v = Echo_onMessage os cur p v" for v :: "('k, 'z) app_world_scheme"
    by (simp add: server_call_def app_call_def echo_user_def)
  have "result_in {LengthError, SignedOverflow} (echo_call os cur onMessage_cb p w1) (\<lambda>w'. conn_ok p w' \<and>
      out_stream sent p w' = out_stream sent p w @ echo_greeting cur @ content (inputBuffer conn) @ data \<and>
      (\<exists>conn'. conns w' p = Some conn' \<and> content (inputBuffer conn') = []) \<and>
      deadlines w' = (deadlines w)(p \<mapsto> clock (kernel w') + app_timeout w))"
    if w1: "w1 = put_conn p (conn\<lparr>inputBuffer := b\<rparr>) (w\<lparr>kernel := k1\<rparr>)" and ok1: "conn_ok p w1"
      and b: "content b = content (inputBuffer conn) @ data" for b w1
    using onMessage_replies[OF assms(1,3) _ assms(5) ok1 message_world(4)[OF w1 assms(7,13)]] message_world[OF w1 assms(7,13)] assms(4,8,10) b
    unfolding run by simp
  then show ?thesis
    by (rule handleRead_message[OF assms(2,4,6-9,11,12)])
qed

section \<open>Numbers as text\<close>

lemma string_of_bytes_of: "string_of (bytes_of s) = s"
proof -
  have "unat (word_of_nat (of_char c) :: byte) = of_char c" for c
    using nat_of_char_less_256[of c] by (simp add: unat_of_nat take_bit_eq_mod)
  then show ?thesis by (simp add: string_of_def bytes_of_def o_def)
qed

lemma stoll_long_string:
  assumes "- (2 ^ 63) \<le> n" "n < 2 ^ 63" "rest = [] \<or> \<not> is_digit (hd rest)"
  shows "stoll (long_string n @ rest) = Inr n"
proof -
  let ?ds = "to_string (nat \<bar>n\<bar>)"
  have ne: "?ds \<noteq> []" by (rule to_string_nonempty)
  have dig: "\<forall>c \<in> set ?ds. is_digit c" using to_string_digits by (simp add: list_all_iff)
  have take: "takeWhile is_digit (?ds @ rest) = ?ds"
    using dig assms(3) by (cases rest) (auto simp: takeWhile_append2)
  have hd: "is_digit (hd ?ds)" using dig ne by simp
  then have first: "\<not> is_space (hd ?ds)" "hd ?ds \<noteq> CHR ''-''" "hd ?ds \<noteq> CHR ''+''" "\<not> is_space (CHR ''-'')"
    by (auto simp: is_digit_def is_space_def)
  have drop: "dropWhile is_space (?ds @ rest) = ?ds @ rest"
    using ne first(1) by (cases ?ds) auto
  show ?thesis
    using take drop first ne assms(1,2) digits_value_to_string
    by (cases "n < 0") (auto simp: stoll_def long_string_def Let_def hd_append)
qed

section \<open>One is added\<close>

definition addone_answer :: "nat \<Rightarrow> nat \<Rightarrow> int \<Rightarrow> byte list" where
  "addone_answer cur t n = addone_greeting cur @
     addone_note t @ addone_result (n + 1)"

text \<open>A new content of the input buffer.\<close>

lemma put_input:
  assumes "conn_ok p w" "conns w p = Some conn" "conn_state conn = kConnected" "buffer_inv b"
  shows "conn_ok p (put_conn p (conn\<lparr>inputBuffer := b\<rparr>) w)"
    and "out_stream sent p (put_conn p (conn\<lparr>inputBuffer := b\<rparr>) w) = out_stream sent p w"
proof -
  obtain ch where "p \<noteq> 0" "channels w (conn_channel conn) = Some ch" "conn_parts_ok (wakeupfd w) conn ch"
    using assms(1,2) by (auto elim: conn_okE)
  then show "conn_ok p (put_conn p (conn\<lparr>inputBuffer := b\<rparr>) w)"
    by (intro conn_okI[where conn = "conn\<lparr>inputBuffer := b\<rparr>" and ch = ch]) (use assms in \<open>auto simp: conn_parts_ok_def\<close>)
  show "out_stream sent p (put_conn p (conn\<lparr>inputBuffer := b\<rparr>) w) = out_stream sent p w"
    using assms(2) by (simp add: out_stream_def)
qed

lemma conn_ok_input: "conn_ok p w \<Longrightarrow> conns w p = Some conn \<Longrightarrow> p \<noteq> 0 \<and> buffer_inv (inputBuffer conn)"
  by (auto elim!: conn_okE simp: conn_parts_ok_def)

lemma bytes_of_length: "length (bytes_of s) = length s"
  by (simp add: bytes_of_def)

text \<open>What holds of the connection between the calls of \<open>onMessage\<close>, with \<open>input\<close> in its input buffer.\<close>

definition replying :: "('k \<Rightarrow> int \<Rightarrow> byte list) \<Rightarrow> nat \<Rightarrow> int \<Rightarrow> byte list \<Rightarrow> byte list \<Rightarrow> ('k, 'z) app_world_scheme \<Rightarrow> ('k, 'z) app_world_scheme \<Rightarrow> bool"
where
  "replying sent p fd out input w w' \<longleftrightarrow> conn_ok p w' \<and> tid w' = tid w \<and> out_stream sent p w' = out_stream sent p w @ out \<and>
     conn_world.more w' = conn_world.more w \<and>
     (\<exists>conn. conns w' p = Some conn \<and> conn_state conn = kConnected \<and> sockfd conn = fd \<and> content (inputBuffer conn) = input)"

lemma addone_task_ok:
  assumes r: "replying sent p fd out input w w1" and num: "stoll (string_of input) = Inr n" "n + 1 < 2 ^ 63" and t: "t < 2 ^ 31"
  shows "result_in {LengthError} (addone_task t p w1) (\<lambda>(v, w2). v = n + 1 \<and>
    replying sent p fd out (addone_note t) w w2)"
proof -
  obtain conn where conn: "conns w1 p = Some conn" "conn_state conn = kConnected" "sockfd conn = fd" "content (inputBuffer conn) = input"
    and ok: "conn_ok p w1" using r by (auto simp: replying_def)
  let ?text = "addone_note t"
  have len: "length ?text \<le> max_size" using length_to_string[of t 9] t by (simp add: bytes_of_length max_size_def addone_note_def)
  have nonneg: "int64_add n 1 = Inr (n + 1)"
    using num by (auto simp: int64_add_def stoll_def Let_def rbind_eq_Inr)
  note inv = conn_ok_input[OF ok conn(1)]
  obtain b where b: "retrieveAllAsString (inputBuffer conn) = Inr (input, b)" "buffer_inv b" "content b = []"
    using retrieveAllAsString_ok[of "inputBuffer conn"] inv conn by (auto simp: returns_iff)
  show ?thesis
  proof (cases "Buffer_append ?text b")
    case (Inl e)
    then show ?thesis using Buffer_append_Inl[OF b(2) len Inl] inv conn b num by (simp add: addone_task_def)
  next
    case (Inr b')
    have b': "buffer_inv b'" "content b' = ?text" using Buffer_append_Inr[OF b(2) len Inr] b(3) by auto
    note put = put_input(1)[OF ok conn(1,2) b'(1)] put_input(2)[OF ok conn(1,2) b'(1), of sent]
    show ?thesis using r Inr inv conn b b' put num nonneg by (simp add: addone_task_def replying_def)
  qed
qed

lemma append_input_ok:
  assumes r: "replying sent p fd out input w w1" and len: "length data \<le> max_size"
  shows "result_in {LengthError} (append_input data p w1) (replying sent p fd out (input @ data) w)"
proof -
  obtain conn where conn: "conns w1 p = Some conn" "conn_state conn = kConnected" "sockfd conn = fd" "content (inputBuffer conn) = input"
    and ok: "conn_ok p w1" using r by (auto simp: replying_def)
  note b = conn_ok_input[OF ok conn(1)]
  show ?thesis
  proof (cases "Buffer_append data (inputBuffer conn)")
    case (Inl e)
    then show ?thesis using Buffer_append_Inl[of "inputBuffer conn" data e] b len conn by (simp add: append_input_def)
  next
    case (Inr b')
    have b': "buffer_inv b'" "content b' = input @ data" using Buffer_append_Inr[of "inputBuffer conn" data b'] b len Inr conn by auto
    note put = put_input(1)[OF ok conn(1,2) b'(1)] put_input(2)[OF ok conn(1,2) b'(1), of sent]
    show ?thesis using r Inr b conn b' put by (simp add: append_input_def replying_def)
  qed
qed

lemma length_long_string: "- (2 ^ 63) \<le> n \<Longrightarrow> n < 2 ^ 63 \<Longrightarrow> length (long_string n) \<le> 20"
  using length_to_string[of "nat \<bar>n\<bar>" 18] by (cases "n < 0") (auto simp: long_string_def nat_less_iff)

lemma stoll_range: "stoll s = Inr n \<Longrightarrow> - (2 ^ 63) \<le> n \<and> n < 2 ^ 63"
  by (auto simp: stoll_def Let_def rbind_eq_Inr)

lemma greet_replying:
  fixes w :: "('k, 'z) app_world_scheme"
  assumes spec: "write_spec os sent" and t: "tid w = cur" and ok: "conn_ok p w" and len: "length data \<le> max_size"
    and conn: "conns w p = Some conn" "conn_state conn = kConnected" and alive: "\<And>d k. \<not> write_broken os (sockfd conn) d k"
  shows "result_in {LengthError} (conn_send os cur p data w) (replying sent p (sockfd conn) data (content (inputBuffer conn)) w)"
  by (rule result_in_mono[OF conn_send_delivers[OF spec t ok len conn alive]])
    (use conn in \<open>auto simp: replying_def sends_from_def send_frame_def\<close>)

lemma AddOne_onMessage_ok:
  fixes w :: "('k, 'z) app_world_scheme"
  assumes spec: "write_spec os sent" and clock: "\<And>k. sys_clock_now os k = (clock k, k)"
    and t: "tid w = cur" "cur < 2 ^ 31" "t < 2 ^ 31"
    and ok: "conn_ok p w" and conn: "conns w p = Some conn" "conn_state conn = kConnected"
    and alive: "\<And>d k. \<not> write_broken os (sockfd conn) d k"
    and num: "stoll (string_of (content (inputBuffer conn))) = Inr n" "n + 1 < 2 ^ 63"
  shows "result_in {LengthError, SignedOverflow} (AddOne_onMessage os cur t p w) (\<lambda>w'. conn_ok p w' \<and>
    out_stream sent p w' = out_stream sent p w @ addone_answer cur t n \<and>
    (\<exists>conn'. conns w' p = Some conn' \<and> content (inputBuffer conn') = []) \<and>
    deadlines w' = (deadlines w)(p \<mapsto> clock (kernel w') + app_timeout w))" (is "result_in ?E _ ?Q")
proof -
  let ?g = "addone_greeting cur"
  let ?c = "addone_note t"
  let ?r = "addone_result (n + 1)"
  let ?R = "replying sent p (sockfd conn) ?g"
  have g: "length ?g \<le> max_size" using length_to_string[of cur 9] t(2) by (simp add: bytes_of_length max_size_def addone_greeting_def addone_result_def)
  have r: "length ?r \<le> max_size"
    using length_long_string[of "n + 1"] num stoll_range[OF num(1)] by (simp add: bytes_of_length max_size_def addone_greeting_def addone_result_def)
  have 1: "result_in ?E (conn_send os cur p ?g w) (?R (content (inputBuffer conn)) w)"
    by (rule result_in_mono[OF greet_replying[OF spec t(1) ok g conn alive]]) auto
  have 2: "result_in ?E (addone_task t p w1) (\<lambda>(v, w2). v = n + 1 \<and> ?R ?c w w2)" if "?R (content (inputBuffer conn)) w w1" for w1
    by (rule result_in_mono[OF addone_task_ok[OF that num t(3)]]) auto
  have 3: "result_in ?E (append_input ?r p w2) (?R (?c @ ?r) w)" if "?R ?c w w2" for w2
    by (rule result_in_mono[OF append_input_ok[OF that r]]) auto
  have 4: "result_in ?E (rbind (send_input os cur p w3) (\<lambda>w4. expireAfter os p (app_timeout w4) w4)) ?Q" if w3: "?R (?c @ ?r) w w3" for w3
  proof -
    obtain conn3 where conn3: "conns w3 p = Some conn3" "conn_state conn3 = kConnected" "sockfd conn3 = sockfd conn"
      "content (inputBuffer conn3) = ?c @ ?r" using w3 by (auto simp: replying_def)
    let ?Q4 = "\<lambda>w4. conn_ok p w4 \<and> out_stream sent p w4 = out_stream sent p w @ ?g @ ?c @ ?r \<and>
        conn_world.more w4 = conn_world.more w \<and> (\<exists>conn'. conns w4 p = Some conn' \<and> content (inputBuffer conn') = [])"
    have send: "result_in ?E (send_input os cur p w3) ?Q4"
      by (rule result_in_mono[OF send_input_delivers[OF spec _ _ conn3(1,2)]])
        (use w3 conn3 t alive in \<open>auto simp: replying_def\<close>)
    have "result_in ?E (expireAfter os p (app_timeout w4) w4) ?Q" if w4: "?Q4 w4" for w4
      by (rule result_in_mono[OF expireAfter_ok[OF clock]]) (use w4 more_app[of w4 w] in \<open>auto simp: addone_answer_def\<close>)
    then show ?thesis by (rule result_in_rbind[OF send])
  qed
  have 34: "result_in ?E (case x of (res, w2) \<Rightarrow> rbind (append_input (addone_result res) p w2)
      (\<lambda>w3. rbind (send_input os cur p w3) (\<lambda>w4. expireAfter os p (app_timeout w4) w4))) ?Q"
    if val: "case x of (v, w2) \<Rightarrow> v = n + 1 \<and> ?R ?c w w2" for x
  proof -
    obtain w2 where x: "x = (n + 1, w2)" and w2: "?R ?c w w2" using val by (cases x) simp
    show ?thesis unfolding x prod.case by (rule result_in_rbind[OF 3[OF w2] 4])
  qed
  show ?thesis
    unfolding AddOne_onMessage_def AddOne_expireAfter_eq by (rule result_in_rbind[OF 1], rule result_in_rbind[OF 2], assumption, rule 34)
qed

text \<open>The other outcome: the number cannot be read or has no successor.\<close>

lemma addone_task_fails:
  assumes r: "replying sent p fd out input w w1" and num: "rbind (stoll (string_of input)) (\<lambda>n. int64_add n 1) = Inl e" and t: "t < 2 ^ 31"
  shows "result_in {LengthError, e} (addone_task t p w1) (\<lambda>_. False)"
proof -
  obtain conn where conn: "conns w1 p = Some conn" "content (inputBuffer conn) = input" and ok: "conn_ok p w1"
    using r by (auto simp: replying_def)
  have len: "length (addone_note t) \<le> max_size" using length_to_string[of t 9] t by (simp add: bytes_of_length max_size_def addone_note_def)
  note inv = conn_ok_input[OF ok conn(1)]
  obtain b where b: "retrieveAllAsString (inputBuffer conn) = Inr (input, b)" "buffer_inv b"
    using retrieveAllAsString_ok[of "inputBuffer conn"] inv conn by (auto simp: returns_iff)
  show ?thesis
    using b inv conn num Buffer_append_Inl[OF b(2) len]
    by (cases "stoll (string_of input)"; cases "Buffer_append (addone_note t) b") (auto simp: addone_task_def)
qed

lemma AddOne_onMessage_fails:
  fixes w :: "('k, 'z) app_world_scheme"
  assumes spec: "write_spec os sent" and t: "tid w = cur" "cur < 2 ^ 31" "t < 2 ^ 31"
    and ok: "conn_ok p w" and conn: "conns w p = Some conn" "conn_state conn = kConnected"
    and alive: "\<And>d k. \<not> write_broken os (sockfd conn) d k"
    and num: "rbind (stoll (string_of (content (inputBuffer conn)))) (\<lambda>n. int64_add n 1) = Inl e"
  shows "result_in {LengthError, e} (AddOne_onMessage os cur t p w) (\<lambda>_. False)"
proof -
  let ?R = "replying sent p (sockfd conn) (addone_greeting cur) (content (inputBuffer conn)) w"
  have g: "length (addone_greeting cur) \<le> max_size"
    using length_to_string[of cur 9] t(2) by (simp add: bytes_of_length max_size_def addone_greeting_def)
  have 1: "result_in {LengthError, e} (conn_send os cur p (addone_greeting cur) w) ?R"
    by (rule result_in_mono[OF greet_replying[OF spec t(1) ok g conn alive]]) auto
  show ?thesis
    unfolding AddOne_onMessage_def AddOne_expireAfter_eq
    by (rule result_in_rbind[OF 1], rule result_in_rbind[OF addone_task_fails[OF _ num t(3)]]) simp_all
qed

lemma addone_call_message:
  "addone_call os cur t onMessage_cb p v = AddOne_onMessage os cur t p v" for v :: "('k, 'z) app_world_scheme"
  by (simp add: server_call_def app_call_def addone_user_def)

text \<open>
  C16. The number server adds one: when the socket of a connection that is up delivers data, the
  text received so far begins with a number \<open>n\<close> with a successor in 64 bits, and no write
  says that the peer is gone, \<open>handleRead\<close> with the callbacks of \<open>AddOneServer\<close> adds to the output
  stream the note of the loop's thread, the note of the pool's thread and \<open>n + 1\<close> in decimal with
  a newline, empties the input buffer, keeps the invariant of the connection, and moves its
  deadline to the timeout from now.
\<close>

theorem addone_reply:
  fixes w :: "('k, 'z) app_world_scheme"
  assumes "write_spec os sent" and "readv_spec os" and "\<And>k. sys_clock_now os k = (clock k, k)"
    and "tid w = cur" and "cur < 2 ^ 31" and "t < 2 ^ 31"
    and "conn_ok p w" and "conns w p = Some conn" and "conn_state conn = kConnected"
    and "messageCallback conn = Some onMessage_cb" and "\<And>d k. \<not> write_broken os (sockfd conn) d k"
    and "sys_readv os (sockfd conn) (readFd_capacity (inputBuffer conn)) (kernel w) = (Inr data, k1)" and "data \<noteq> []"
    and "sent k1 = sent (kernel w)"
    and "string_of (content (inputBuffer conn) @ data) = long_string n @ rest" and "rest = [] \<or> \<not> is_digit (hd rest)"
    and "- (2 ^ 63) \<le> n" and "n + 1 < 2 ^ 63"
  shows "result_in {LengthError, SignedOverflow} (handleRead os (addone_call os cur t) cur p w) (\<lambda>w'. conn_ok p w' \<and>
    out_stream sent p w' = out_stream sent p w @ addone_answer cur t n \<and>
    (\<exists>conn'. conns w' p = Some conn' \<and> content (inputBuffer conn') = []) \<and>
    deadlines w' = (deadlines w)(p \<mapsto> clock (kernel w') + app_timeout w))" (is "result_in ?E _ ?Q")
proof -
  have num: "stoll (string_of (content (inputBuffer conn) @ data)) = Inr n"
    unfolding assms(15) by (rule stoll_long_string) (use assms(16-18) in auto)
  have "result_in ?E (addone_call os cur t onMessage_cb p w1) ?Q"
    if w1: "w1 = put_conn p (conn\<lparr>inputBuffer := b\<rparr>) (w\<lparr>kernel := k1\<rparr>)" and ok1: "conn_ok p w1"
      and b: "content b = content (inputBuffer conn) @ data" for b w1
    using AddOne_onMessage_ok[OF assms(1,3) _ assms(5,6) ok1 message_world(4)[OF w1 assms(8,14)], of n] message_world[OF w1 assms(8,14)]
      assms(4,9,11,18) b num
    unfolding addone_call_message by simp
  then show ?thesis
    by (rule handleRead_message[OF assms(2,4,7-10,12,13)])
qed

text \<open>
  C35. Any client can stop the number server: when the text received is not a number, is out of the
  range of 64 bits or is the largest such number, the exception (for the last, undefined
  behaviour) arises in the task of the pool, which nothing catches: no handling of that data
  returns. (A buffer that cannot grow is the only other error.)
\<close>

theorem addone_bad_input:
  fixes w :: "('k, 'z) app_world_scheme"
  assumes "write_spec os sent" and "readv_spec os" and "tid w = cur" and "cur < 2 ^ 31" and "t < 2 ^ 31"
    and "conn_ok p w" and "conns w p = Some conn" and "conn_state conn = kConnected"
    and "messageCallback conn = Some onMessage_cb" and "\<And>d k. \<not> write_broken os (sockfd conn) d k"
    and "sys_readv os (sockfd conn) (readFd_capacity (inputBuffer conn)) (kernel w) = (Inr data, k1)" and "data \<noteq> []"
    and "sent k1 = sent (kernel w)"
    and "rbind (stoll (string_of (content (inputBuffer conn) @ data))) (\<lambda>n. int64_add n 1) = Inl e"
  shows "result_in {LengthError, e} (handleRead os (addone_call os cur t) cur p w) (\<lambda>_. False)"
proof -
  have "result_in {LengthError, e} (addone_call os cur t onMessage_cb p w1) (\<lambda>_. False)"
    if w1: "w1 = put_conn p (conn\<lparr>inputBuffer := b\<rparr>) (w\<lparr>kernel := k1\<rparr>)" and ok1: "conn_ok p w1"
      and b: "content b = content (inputBuffer conn) @ data" for b w1
    using AddOne_onMessage_fails[OF assms(1) _ assms(4,5) ok1 message_world(4)[OF w1 assms(7,13)], of e] message_world[OF w1 assms(7,13)]
      assms(3,8,10,14) b
    unfolding addone_call_message by simp
  then show ?thesis
    by (rule handleRead_message[OF assms(2,3,6-9,11,12)])
qed

section \<open>Witnesses\<close>

text \<open>The sample server with the members of an echo server; \<open>data\<close> is waiting to be read.\<close>

definition sample_app :: "byte list \<Rightarrow> sample_kernel app_world" where
  "sample_app data = put_conn 20 (sample_conn\<lparr>messageCallback := Some onMessage_cb,
       closeCallback := Some TcpServerSingle_closeConnection_cb\<rparr>)
     (server_world.extend (sample_server\<lparr>kernel := sample_state\<lparr>sk_incoming := data\<rparr>\<rparr>)
       (app_world.fields [20 \<mapsto> 500] 30 1 0 (TcpServer_new (InetAddress_new 80 True)) 5))"

lemma sample_app_simps [simp]:
  "conns (sample_app data) = [20 \<mapsto> sample_conn\<lparr>messageCallback := Some onMessage_cb, closeCallback := Some TcpServerSingle_closeConnection_cb\<rparr>]"
  "channels (sample_app data) = [21 \<mapsto> (Channel_new 7)\<lparr>pooling := True, ch_events := EPOLLIN OR EPOLLPRI\<rparr>]"
  "tid (sample_app data) = 1" "wakeupfd (sample_app data) = 4" "kernel (sample_app data) = sample_state\<lparr>sk_incoming := data\<rparr>"
  "deadlines (sample_app data) = [20 \<mapsto> 500]" "app_timeout (sample_app data) = 30"
  by (simp_all add: sample_app_def server_world.defs app_world.defs put_conn_def)

lemma sample_app_ok: "conn_ok 20 (sample_app data)" "state_of 20 (sample_app data) = kConnected"
  by (simp_all add: conn_ok_def state_of_def sample_conn_def conn_parts_ok_def sample_buffer_inv Channel_new_def isWriting_def
      epoll_masks sample_buffer_empty)

abbreviation sample_app_conn :: TcpConnection where
  "sample_app_conn \<equiv> sample_conn\<lparr>messageCallback := Some onMessage_cb, closeCallback := Some TcpServerSingle_closeConnection_cb\<rparr>"

lemma sample_app_stream: "out_stream sk_sent 20 (sample_app data) = []"
  by (simp add: out_stream_def sample_conn_def sample_state_def sample_buffer_empty)

lemma sample_app_capacity: "Suc (Suc 0) \<le> readFd_capacity sample_buffer"
  by (simp add: readFd_capacity_def sample_buffer_def writableBytes_def extrabuf_size_def size_sub_def size_add_def SIZE_T_def)

lemmas sample_app_facts = sample_app_capacity sample_app_stream sample_conn_def sample_not_broken sample_buffer_empty sample_state_def

theorem echo_reply_witness:
  "result_in {LengthError, SignedOverflow} (handleRead sample_os (echo_call sample_os 1) 1 20 (sample_app [104, 105])) (\<lambda>w'. conn_ok 20 w' \<and>
    out_stream sk_sent 20 w' = echo_greeting 1 @ [104, 105] \<and>
    (\<exists>conn'. conns w' 20 = Some conn' \<and> content (inputBuffer conn') = []) \<and>
    deadlines w' = [20 \<mapsto> sk_time (kernel w') + 30])"
  using echo_reply[OF sample_os_write sample_readv _ _ _ sample_app_ok(1)[of "[104, 105]"], where cur = 1 and conn = sample_app_conn
      and clock = sk_time and data = "[104, 105]" and ?k1.0 = "sample_state\<lparr>sk_incoming := []\<rparr>"]
  by (simp add: sample_app_facts)

text \<open>The text \<open>41\<close>, handled by thread 1 with the help of thread 9 of the pool.\<close>

theorem addone_reply_witness:
  "result_in {LengthError, SignedOverflow} (handleRead sample_os (addone_call sample_os 1 9) 1 20 (sample_app [52, 49])) (\<lambda>w'. conn_ok 20 w' \<and>
    out_stream sk_sent 20 w' = addone_answer 1 9 41 \<and>
    (\<exists>conn'. conns w' 20 = Some conn' \<and> content (inputBuffer conn') = []) \<and>
    deadlines w' = [20 \<mapsto> sk_time (kernel w') + 30])"
proof -
  have str: "string_of [52, 49] = long_string 41 @ []" by code_simp
  show ?thesis
    using addone_reply[OF sample_os_write sample_readv _ _ _ _ sample_app_ok(1)[of "[52, 49]"], where cur = 1 and t = 9
        and conn = sample_app_conn and clock = sk_time and data = "[52, 49]" and ?k1.0 = "sample_state\<lparr>sk_incoming := []\<rparr>"
        and n = 41 and rest = "[]"] str
    by (simp add: sample_app_facts)
qed

text \<open>The text \<open>hi\<close> is not a number.\<close>

theorem addone_bad_input_witness:
  "result_in {LengthError, InvalidArgument} (handleRead sample_os (addone_call sample_os 1 9) 1 20 (sample_app [104, 105])) (\<lambda>_. False)"
proof -
  have str: "stoll (string_of [104, 105]) = Inl InvalidArgument" by code_simp
  show ?thesis
    using addone_bad_input[OF sample_os_write sample_readv _ _ _ sample_app_ok(1)[of "[104, 105]"], where cur = 1 and t = 9
        and conn = sample_app_conn and data = "[104, 105]" and ?k1.0 = "sample_state\<lparr>sk_incoming := []\<rparr>" and e = InvalidArgument] str
    by (simp add: sample_app_facts)
qed

end
