(* ===== verification/Example_Timeouts.thy ===== *)
theory Example_Timeouts
  imports Example_Replies
begin

text \<open>
  Idle connections of the example servers: what the timer callback closes, and what a late
  write-complete callback does to a connection that is closed.
\<close>

section \<open>Idle connections\<close>

text \<open>What \<open>forceClose\<close> has done to connection \<open>p\<close>: it is closing and the task that closes it is queued.\<close>

definition asked_to_close :: "nat \<Rightarrow> ('k, 'z) conn_world_scheme \<Rightarrow> bool" where
  "asked_to_close p w \<longleftrightarrow> state_of p w = kDisconnected \<or>
     state_of p w = kDisconnecting \<and> TcpConnection_forceCloseInLoop_fn p \<in> set (pendingTasks w)"

definition clock_spec :: "'k os \<Rightarrow> ('k \<Rightarrow> int) \<Rightarrow> bool" where
  "clock_spec os clock \<longleftrightarrow> (\<forall>k. sys_clock_now os k = (clock k, k)) \<and>
     (\<forall>fd d k. clock k \<le> clock (snd (sys_write os fd d k)))"

definition entry_done :: "('k \<Rightarrow> int) \<Rightarrow> nat \<Rightarrow> ('k, 'z) app_world_scheme \<Rightarrow> ('k, 'z) app_world_scheme \<Rightarrow> bool" where
  "entry_done clock p w w' \<longleftrightarrow>
     (case deadlines w p of
        None \<Rightarrow> deadlines w' p = None \<and> conns w' p = conns w p
      | Some t \<Rightarrow> if deadlines w' p = None then t \<le> clock (kernel w') \<and> asked_to_close p w'
                  else deadlines w' p = Some t \<and> clock (kernel w) < t \<and> conns w' p = conns w p)"

lemma expire_entry_ok:
  fixes w :: "('k, 'z) app_world_scheme"
  assumes clock: "clock_spec os clock" and p: "p \<noteq> 0" "conns w p \<noteq> None"
  shows "returns (expire_entry os cur p w) (\<lambda>w'. entry_done clock p w w' \<and> clock (kernel w) \<le> clock (kernel w') \<and>
    set (pendingTasks w) \<subseteq> set (pendingTasks w') \<and> (\<forall>q. q \<noteq> p \<longrightarrow> deadlines w' q = deadlines w q \<and> conns w' q = conns w q))"
proof (cases "deadlines w p")
  case None
  then show ?thesis by (simp add: expire_entry_def entry_done_def)
next
  case (Some t)
  obtain conn where conn: "conns w p = Some conn" using p(2) by auto
  have now: "sys (sys_clock_now os) w = (clock (kernel w), w)" using clock by (simp add: clock_spec_def sys_def)
  show ?thesis
  proof (cases "t \<le> clock (kernel w)")
    case True
    let ?w = "if conn_state conn = kDisconnected then w
      else queueInLoop os cur (TcpConnection_forceCloseInLoop_fn p) (put_conn p (conn\<lparr>conn_state := kDisconnecting\<rparr>) w)"
    have fc: "forceClose os cur p w = Inr ?w"
      using p conn by (simp add: forceClose_def stateAtomicGetAndSet_def)
    have "clock (kernel w) \<le> clock (kernel ?w)"
      using clock by (simp add: clock_spec_def queueInLoop_def queueInLoop_wake_def EventLoop_wakeup_def sys_def case_prod_beta put_conn_def queueInLoop_push_def)
    moreover have "deadlines ?w = deadlines w" using more_app(1)[of ?w w] by simp
    ultimately show ?thesis
      using Some True now fc conn
      by (auto simp: expire_entry_def entry_done_def asked_to_close_def state_of_def)
  next
    case False
    then show ?thesis using Some now by (simp add: expire_entry_def entry_done_def)
  qed
qed

lemma onTimeout_ok:
  fixes w :: "('k, 'z) app_world_scheme"
  assumes clock: "clock_spec os clock"
  shows "distinct ks \<Longrightarrow> (\<And>p. p \<in> set ks \<Longrightarrow> p \<noteq> 0 \<and> conns w p \<noteq> None) \<Longrightarrow>
    returns (onTimeout os cur ks w) (\<lambda>w'. (\<forall>p \<in> set ks. entry_done clock p w w') \<and> clock (kernel w) \<le> clock (kernel w') \<and>
      set (pendingTasks w) \<subseteq> set (pendingTasks w') \<and> (\<forall>q. q \<notin> set ks \<longrightarrow> deadlines w' q = deadlines w q \<and> conns w' q = conns w q))"
  unfolding onTimeout_def
proof (induction ks arbitrary: w)
  case (Cons p ks)
  obtain w1 where w1: "expire_entry os cur p w = Inr w1" "entry_done clock p w w1" "clock (kernel w) \<le> clock (kernel w1)"
    "set (pendingTasks w) \<subseteq> set (pendingTasks w1)" "\<forall>q. q \<noteq> p \<longrightarrow> deadlines w1 q = deadlines w q \<and> conns w1 q = conns w q"
    using expire_entry_ok[OF clock, of p w cur] Cons.prems(2) by (auto simp: returns_iff)
  have alive: "q \<noteq> 0 \<and> conns w1 q \<noteq> None" if "q \<in> set ks" for q
    using Cons.prems(1,2) w1(5) that by (metis distinct.simps(2) list.set_intros(2))
  obtain w2 where w2: "rfold (expire_entry os cur) ks w1 = Inr w2" "\<forall>q \<in> set ks. entry_done clock q w1 w2"
    "clock (kernel w1) \<le> clock (kernel w2)" "set (pendingTasks w1) \<subseteq> set (pendingTasks w2)"
    "\<forall>q. q \<notin> set ks \<longrightarrow> deadlines w2 q = deadlines w1 q \<and> conns w2 q = conns w1 q"
    using Cons.IH[of w1] Cons.prems(1) alive by (auto simp: returns_iff)
  have p: "p \<notin> set ks" using Cons.prems(1) by simp
  have "entry_done clock p w w2"
    using w1(2) w2(3,4,5) p
    by (auto simp: entry_done_def asked_to_close_def state_of_def split: option.splits)
  moreover have "entry_done clock q w w2" if "q \<in> set ks" for q
  proof -
    have "q \<noteq> p" using that p by auto
    then show ?thesis using w2(2) that w1(3,5) by (force simp: entry_done_def split: option.splits if_splits)
  qed
  ultimately show ?case using w1 w2 by (auto simp: returns_iff)
qed simp

text \<open>
  C17. The timer callback of the example servers closes exactly the connections whose time is up.
  In whatever order the hash table presents its entries: an entry is dropped only if its deadline
  has passed, and then the connection is closed or its closing is queued; an entry that is kept
  has a deadline after the callback began, and its connection is untouched, as is every
  connection not in the table.
\<close>

theorem timeout_closes_expired:
  fixes w :: "('k, 'z) app_world_scheme"
  assumes "clock_spec os clock" and "distinct ks" and "set ks = dom (deadlines w)"
    and "\<And>p. p \<in> dom (deadlines w) \<Longrightarrow> p \<noteq> 0 \<and> conns w p \<noteq> None"
  shows "returns (onTimeout os cur ks w) (\<lambda>w'. \<forall>p. entry_done clock p w w')"
proof -
  have "returns (onTimeout os cur ks w) (\<lambda>w'. (\<forall>p \<in> set ks. entry_done clock p w w') \<and>
      (\<forall>q. q \<notin> set ks \<longrightarrow> deadlines w' q = deadlines w q \<and> conns w' q = conns w q))"
    using onTimeout_ok[OF assms(1,2), of w cur] assms(3,4) by (auto simp: returns_iff)
  moreover have "entry_done clock p w w'" if "p \<notin> set ks" "deadlines w' p = deadlines w p" "conns w' p = conns w p" for p w'
    using that assms(3) by (auto simp: entry_done_def split: option.splits)
  ultimately show ?thesis by (elim returns_mono) blast
qed

text \<open>
  A write-complete callback that runs after the connection has closed brings it back: both
  example servers find it not reading and call \<open>startRead\<close>, which puts the closed channel on the
  interest list again and enters the connection into the table of deadlines; the next event
  on it then fails the assertion of \<open>handleRead\<close>. The callback is queued by \<open>handleWrite\<close>, so it can
  be queued behind the closing that \<open>onTimeout\<close> asked for in the same iteration of the loop.
\<close>

theorem write_complete_after_close:
  fixes w :: "('k, 'z) app_world_scheme"
  assumes "conn_ok p w" and "tid w = cur" and "state_of p w = kDisconnected"
  shows "result_in {SignedOverflow} (onWriteComplete os cur p w) (\<lambda>w'.
    p \<in> dom (deadlines w') \<and> handleRead os call cur p w' = Inl AssertFailed \<and>
    (\<exists>conn ch. conns w' p = Some conn \<and> channels w' (conn_channel conn) = Some ch \<and> pooling ch))"
proof -
  obtain conn ch where p: "p \<noteq> 0" and conn: "conns w p = Some conn" and ch: "channels w (conn_channel conn) = Some ch"
    and parts: "conn_parts_ok (wakeupfd w) conn ch" using conn_okE[OF assms(1)] .
  have st: "conn_state conn = kDisconnected" using assms(3) conn by (simp add: state_of_def)
  have c: "conn_channel conn \<noteq> 0" and ev: "ch_events ch = 0" using parts st by (simp_all add: conn_parts_ok_def)
  let ?w1 = "with_interest os (conn_channel conn) ch (EPOLLIN OR EPOLLPRI) w"
  have run: "onWriteComplete os cur p w = expireAfter os p (app_timeout ?w1) ?w1"
    using enableRead.interest_ok[OF assms(2) ch c, of os] p assms(2) conn ch c ev mask_nonzero(1)[of 0]
    by (simp add: onWriteComplete_def conn_isReading_def startRead_def runInLoop_def isInLoopThread_def startReadInLoop_def isReading_def)
  show ?thesis
    unfolding run expireAfter_def nowAfter_def using p conn ch st assms(2) mask_nonzero(1)[of 0]
    by (auto simp: sys_def int64_add_def case_prod_beta handleRead_def assertInLoopThread_def isInLoopThread_def)
qed

section \<open>The countdown of main\<close>

text \<open>The loop is asked to quit by the last tick of the countdown, and by none before it.\<close>

lemma ticks_before_quit:
  "int (length xs) < countdown w \<Longrightarrow>
    rfold (\<lambda>_. quit_tick os cur) xs w = Inr (w\<lparr>countdown := countdown w - int (length xs)\<rparr>)"
  by (induction xs arbitrary: w) (simp_all add: quit_tick_def)

lemma countdown_quits:
  assumes "countdown w = int (Suc n)" "\<not> quit w" "tid w = cur" "length xs = Suc n"
  shows "rfold (\<lambda>_. quit_tick os cur) xs w = Inr (w\<lparr>countdown := 0, quit := True\<rparr>)"
proof -
  obtain ys y where xs: "xs = ys @ [y]" "length ys = n" using assms(4) by (cases xs rule: rev_cases) auto
  have "rfold (\<lambda>_. quit_tick os cur) xs w = quit_tick os cur (w\<lparr>countdown := 1\<rparr>)"
    using assms(1) xs ticks_before_quit[of ys w os cur]
    by (cases "quit_tick os cur (w\<lparr>countdown := 1\<rparr>)") (simp_all add: rfold_append)
  also have "\<dots> = Inr (w\<lparr>countdown := 0, quit := True\<rparr>)"
    using assms(2,3) by (simp add: quit_tick_def EventLoop_quit_def isInLoopThread_def Let_def)
  finally show ?thesis .
qed

section \<open>Witnesses\<close>

lemma sample_clock: "clock_spec sample_os sk_time"
  by (simp add: clock_spec_def sample_write_def Let_def)

theorem timeout_closes_expired_witness:
  "returns (onTimeout sample_os 1 [20] (sample_app [])) (\<lambda>w'. entry_done sk_time 20 (sample_app []) w')"
  using timeout_closes_expired[OF sample_clock, of "[20]" "sample_app []" 1] by (auto simp: returns_iff)

definition sample_app_closed :: "sample_kernel app_world" where
  "sample_app_closed = put_channel 21 (Channel_new 7) (put_conn 20 (sample_conn\<lparr>conn_state := kDisconnected\<rparr>) (sample_app []))"

theorem write_complete_after_close_witness:
  "result_in {SignedOverflow} (onWriteComplete sample_os 1 20 sample_app_closed) (\<lambda>w'.
    handleRead sample_os (echo_call sample_os 1) 1 20 w' = Inl AssertFailed)"
proof -
  have "conn_ok 20 sample_app_closed" "state_of 20 sample_app_closed = kDisconnected" "tid sample_app_closed = 1"
    by (simp_all add: sample_app_closed_def conn_ok_def state_of_def sample_conn_def conn_parts_ok_def sample_buffer_inv Channel_new_def)
  from write_complete_after_close[OF this(1,3,2), of sample_os "echo_call sample_os 1"] show ?thesis
    by (rule result_in_mono) auto
qed

end
