(* ===== verification/TcpClient.thy ===== *)
theory TcpClient
  imports TcpServerSingle
begin

unbundle bit_operations_syntax

text \<open>
  \<open>Connector\<close> (\<open>Connector.cc\<close>) and \<open>TcpClient\<close> (\<open>TcpClient.cc\<close>): a connector tries once to connect a
  socket and hands it over; the client owns the current connector and the connection and
  retries every three seconds until it is connected. Connectors live in a map from
  addresses, since the client replaces its connector while events may still name the old one.
\<close>

section \<open>State\<close>

record Connector =
  ctor_peer :: InetAddress
  ctor_sockfd :: int
  ctor_connected :: bool
  ctor_started :: bool
  ctor_channel :: nat
  ctor_newConnectionCallback :: "new_conn_callback option"
  ctor_errorCallback :: "closure option"

record TcpClient =
  client_connected :: bool
  client_peer :: InetAddress
  retryTimer :: nat
  connector :: nat
  connection :: "nat option"
  client_connectionCallback :: "conn_callback option"
  client_messageCallback :: "conn_callback option"
  client_writeCompleteCallback :: "conn_callback option"

record 'k client_world = "'k conn_world" +
  connectors :: "nat \<rightharpoonup> Connector"
  client :: TcpClient

type_synonym ('k, 'z) client_op = "('k, 'z) client_world_scheme \<Rightarrow> ('k, 'z) client_world_scheme result"
type_synonym ('k, 'z) client_handover = "new_conn_callback \<Rightarrow> int \<Rightarrow> InetAddress \<Rightarrow> InetAddress \<Rightarrow> ('k, 'z) client_op"

definition put_connector :: "nat \<Rightarrow> Connector \<Rightarrow> ('k, 'z) client_world_scheme \<Rightarrow> ('k, 'z) client_world_scheme" where
  "put_connector q x w = w\<lparr>connectors := (connectors w)(q \<mapsto> x)\<rparr>"

definition set_client :: "TcpClient \<Rightarrow> ('k, 'z) client_world_scheme \<Rightarrow> ('k, 'z) client_world_scheme" where
  "set_client x w = w\<lparr>client := x\<rparr>"

section \<open>Connector\<close>

definition Connector_new :: "'k os \<Rightarrow> nat \<Rightarrow> nat \<Rightarrow> InetAddress \<Rightarrow> ('k, 'z) client_op" where
  "Connector_new os q c peer w =
     rbind (createSocket os w) (\<lambda>(fd, w1).
     Inr (put_connector q \<lparr>ctor_peer = peer, ctor_sockfd = fd, ctor_connected = False, ctor_started = False,
            ctor_channel = c, ctor_newConnectionCallback = None, ctor_errorCallback = None\<rparr>
       (put_channel c (Channel.setWriteCallback (Connector_handleWrite_fn q) (Channel_new fd)) w1)))"

definition Connector_destroy :: "'k os \<Rightarrow> nat \<Rightarrow> ('k, 'z) client_op" where
  "Connector_destroy os q w =
     rbind (deref (connectors w) q) (\<lambda>x.
     let w1 = (if \<not> ctor_connected x then snd (sys (sys_close os (ctor_sockfd x)) w) else w)
     in rbind (Channel_destroy (ctor_channel x) w1) (\<lambda>w2.
        Inr (w2\<lparr>connectors := (connectors w2)(q := None)\<rparr>)))"

definition ctor_setNewConnectionCallback :: "new_conn_callback \<Rightarrow> nat \<Rightarrow> ('k, 'z) client_op" where
  "ctor_setNewConnectionCallback cb q w =
     rbind (deref (connectors w) q) (\<lambda>x. Inr (put_connector q (x\<lparr>ctor_newConnectionCallback := Some cb\<rparr>) w))"

definition ctor_setErrorCallback :: "closure \<Rightarrow> nat \<Rightarrow> ('k, 'z) client_op" where
  "ctor_setErrorCallback cb q w =
     rbind (deref (connectors w) q) (\<lambda>x. Inr (put_connector q (x\<lparr>ctor_errorCallback := Some cb\<rparr>) w))"

text \<open>
  \<open>handleWrite\<close>: the socket is writable (or the connect ended at once). \<open>errno\<close> is the value of
  SO\_ERROR, or that of the failing \<open>getsockopt\<close>. \<open>run\<close> runs the error callback, \<open>handover\<close> the
  new-connection callback. A failing \<open>getsockname\<close> is logged and its address used as it is.
\<close>

definition Connector_handleWrite ::
  "'k os \<Rightarrow> (closure \<Rightarrow> ('k, 'z) client_op) \<Rightarrow> ('k, 'z) client_handover \<Rightarrow> nat \<Rightarrow> nat \<Rightarrow> ('k, 'z) client_op"
where
  "Connector_handleWrite os run handover cur q w =
     rbind (deref (connectors w) q) (\<lambda>x.
     rbind (assertInLoopThread cur w) (\<lambda>_.
     rbind (ensure (ctor_started x) AssertFailed) (\<lambda>_.
     rbind (EventLoop_removeChannel os cur (ctor_channel x) w) (\<lambda>w1.
     let (r, w2) = sys (sys_so_error os (ctor_sockfd x)) w1;
         err = (case r of Inl e \<Rightarrow> e | Inr e \<Rightarrow> e)
     in if err \<noteq> 0
        then (case ctor_errorCallback x of None \<Rightarrow> Inr w2 | Some f \<Rightarrow> run f w2)
        else (case ctor_newConnectionCallback x of
                None \<Rightarrow> Inr w2
              | Some cb \<Rightarrow>
                  let (name, w3) = sys (sys_getsockname os (ctor_sockfd x)) w2;
                      a = (case name of Inl (_, a) \<Rightarrow> a | Inr a \<Rightarrow> a)
                  in handover cb (ctor_sockfd x) (setAddress a (InetAddress_new 0 False)) (ctor_peer x)
                       (put_connector q (x\<lparr>ctor_connected := True\<rparr>) w3))))))"

definition Connector_start ::
  "'k os \<Rightarrow> (closure \<Rightarrow> ('k, 'z) client_op) \<Rightarrow> ('k, 'z) client_handover \<Rightarrow> nat \<Rightarrow> nat \<Rightarrow> ('k, 'z) client_op"
where
  "Connector_start os run handover cur q w =
     rbind (deref (connectors w) q) (\<lambda>x.
     rbind (assertInLoopThread cur w) (\<lambda>_.
     rbind (ensure (\<not> ctor_started x) AssertFailed) (\<lambda>_.
     let w1 = put_connector q (x\<lparr>ctor_started := True\<rparr>) w;
         (r, w2) = sys (sys_connect os (ctor_sockfd x) (getSockaddr (ctor_peer x))) w1
     in case r of
          Inl err \<Rightarrow>
            if err \<noteq> EINPROGRESS then Connector_handleWrite os run handover cur q w2
            else enableWrite os cur (ctor_channel x) w2
        | Inr _ \<Rightarrow> Connector_handleWrite os run handover cur q w2)))"

section \<open>TcpClient\<close>

definition TcpClient_new :: "'k os \<Rightarrow> nat \<Rightarrow> nat \<Rightarrow> InetAddress \<Rightarrow> ('k, 'z) client_op" where
  "TcpClient_new os q c peer w =
     rbind (Connector_new os q c peer (set_client
        \<lparr>client_connected = False, client_peer = peer, retryTimer = 0, connector = q, connection = None,
         client_connectionCallback = Some DefaultConnectionCallback,
         client_messageCallback = Some DefaultMessageCallback, client_writeCompleteCallback = None\<rparr> w))
       (ctor_setNewConnectionCallback TcpClient_newConnection_cb q)"

definition TcpClient_destroy :: "'k os \<Rightarrow> nat \<Rightarrow> ('k, 'z) client_op" where
  "TcpClient_destroy os cur w =
     rbind (case connection (client w) of
              None \<Rightarrow> Inr w
            | Some p \<Rightarrow> rbind (deref (conns w) p) (\<lambda>conn.
                if \<not> disconnected conn then forceClose os cur p w else Inr w)) (\<lambda>w1.
     rbind (if retryTimer (client w1) \<noteq> 0 then EventLoop_cancelTimer os cur (retryTimer (client w1)) w1 else Inr w1)
       (\<lambda>w2. Connector_destroy os (connector (client w2)) w2))"

definition client_setConnectionCallback :: "conn_callback option \<Rightarrow> TcpClient \<Rightarrow> TcpClient" where
  "client_setConnectionCallback cb x = x\<lparr>client_connectionCallback := cb\<rparr>"
definition client_setMessageCallback :: "conn_callback option \<Rightarrow> TcpClient \<Rightarrow> TcpClient" where
  "client_setMessageCallback cb x = x\<lparr>client_messageCallback := cb\<rparr>"
definition client_setWriteCompleteCallback :: "conn_callback option \<Rightarrow> TcpClient \<Rightarrow> TcpClient" where
  "client_setWriteCompleteCallback cb x = x\<lparr>client_writeCompleteCallback := cb\<rparr>"
definition client_setErrorCallback :: "closure \<Rightarrow> ('k, 'z) client_op" where
  "client_setErrorCallback cb w = ctor_setErrorCallback cb (connector (client w)) w"

text \<open>\<open>tp\<close> is the address of the retry timer that \<open>runEvery\<close> returns.\<close>

definition TcpClient_start ::
  "'k os \<Rightarrow> (closure \<Rightarrow> ('k, 'z) client_op) \<Rightarrow> ('k, 'z) client_handover \<Rightarrow> nat \<Rightarrow> nat \<Rightarrow> ('k, 'z) client_op"
where
  "TcpClient_start os run handover cur tp w =
     rbind (assertInLoopThread cur w) (\<lambda>_.
     rbind (Connector_start os run handover cur (connector (client w)) w) (\<lambda>w1.
     rbind (runEvery os cur tp 3000000000 (Some TcpClient_retry_fn) w1) (\<lambda>w2.
     Inr (set_client ((client w2)\<lparr>retryTimer := tp\<rparr>) w2))))"

text \<open>\<open>retry\<close>: the new connector is made before the old one goes. It gets no error callback.\<close>

definition TcpClient_retry ::
  "'k os \<Rightarrow> (closure \<Rightarrow> ('k, 'z) client_op) \<Rightarrow> ('k, 'z) client_handover \<Rightarrow> nat \<Rightarrow> nat \<Rightarrow> nat \<Rightarrow> ('k, 'z) client_op"
where
  "TcpClient_retry os run handover cur q c w =
     rbind (assertInLoopThread cur w) (\<lambda>_.
     if client_connected (client w) then Inr w
     else
     rbind (Connector_new os q c (client_peer (client w)) w) (\<lambda>w1.
     rbind (Connector_destroy os (connector (client w1)) w1) (\<lambda>w2.
     rbind (ctor_setNewConnectionCallback TcpClient_newConnection_cb q
              (set_client ((client w2)\<lparr>connector := q\<rparr>) w2))
       (Connector_start os run handover cur q))))"

definition TcpClient_newConnection ::
  "'k os \<Rightarrow> ('k, 'z client_world_ext) conn_call \<Rightarrow> nat \<Rightarrow> nat \<Rightarrow> nat \<Rightarrow> int \<Rightarrow> InetAddress \<Rightarrow> InetAddress \<Rightarrow>
   ('k, 'z) client_op"
where
  "TcpClient_newConnection os call cur p c connfd local peer w =
     rbind (assertInLoopThread cur w) (\<lambda>_.
     rbind (EventLoop_cancelTimer os cur (retryTimer (client w)) w) (\<lambda>w1.
     let w2 = set_client ((client w1)\<lparr>retryTimer := 0, client_connected := True\<rparr>) w1
     in rbind (TcpConnection_new p c connfd local peer w2) (\<lambda>w3.
        let w4 = set_client ((client w3)\<lparr>connection := Some p\<rparr>) w3
        in rbind (modify_conn p (setMessageCallback (client_messageCallback (client w4))) w4) (\<lambda>w5.
           rbind (modify_conn p (setWriteCompleteCallback (client_writeCompleteCallback (client w5))) w5) (\<lambda>w6.
           rbind (modify_conn p (conn_setCloseCallback (Some TcpClient_closeConnection_cb)) w6) (\<lambda>w7.
           rbind (connectEstablished os cur p w7) (\<lambda>w8.
           call_conn call (client_connectionCallback (client w8)) p w8)))))))"

definition TcpClient_closeConnection ::
  "('k, 'z client_world_ext) conn_call \<Rightarrow> nat \<Rightarrow> nat \<Rightarrow> ('k, 'z) client_op"
where
  "TcpClient_closeConnection call cur p w =
     rbind (assertInLoopThread cur w) (\<lambda>_.
     rbind (ensure (connection (client w) \<noteq> None) AssertFailed) (\<lambda>_.
     let w1 = set_client ((client w)\<lparr>connection := None\<rparr>) w
     in call_conn call (client_connectionCallback (client w1)) p w1))"

section \<open>Frames\<close>

lemma client_frame [simp]:
  "client (put_conn p conn w) = client w" "client (put_channel c ch w) = client w"
  "client (snd (sys f w)) = client w" "client (with_interest os c ch ev w) = client w"
  "client (put_connector q x w) = client w" "client (set_client y w) = y"
  "client (set_timers ts w) = client w" "client (delete_timer tp w) = client w"
  by (simp_all add: put_conn_def put_channel_def sys_def with_interest_def put_connector_def set_client_def
      set_timers_def delete_timer_def case_prod_beta)

lemma connectors_frame [simp]:
  "connectors (put_conn p conn w) = connectors w" "connectors (put_channel c ch w) = connectors w"
  "connectors (snd (sys f w)) = connectors w" "connectors (with_interest os c ch ev w) = connectors w"
  "connectors (put_connector q x w) = (connectors w)(q \<mapsto> x)" "connectors (set_client y w) = connectors w"
  "connectors (set_timers ts w) = connectors w" "connectors (delete_timer tp w) = connectors w"
  by (simp_all add: put_conn_def put_channel_def sys_def with_interest_def put_connector_def set_client_def
      set_timers_def delete_timer_def case_prod_beta)

lemma timers_frame [simp]:
  "conns (set_timers ts w) = conns w" "conns (delete_timer tp w) = conns w"
  "channels (set_timers ts w) = channels w" "channels (delete_timer tp w) = channels w"
  "wakeupfd (set_timers ts w) = wakeupfd w" "wakeupfd (delete_timer tp w) = wakeupfd w"
  by (simp_all add: set_timers_def delete_timer_def)

lemma client_state_simps [simp]:
  "conns (set_client y w) = conns w" "channels (set_client y w) = channels w" "tid (set_client y w) = tid w"
  "wakeupfd (set_client y w) = wakeupfd w" "kernel (set_client y w) = kernel w"
  "timerQueue (set_client y w) = timerQueue w" "timer_heap (set_client y w) = timer_heap w"
  "conns (put_connector q x w) = conns w" "channels (put_connector q x w) = channels w"
  "tid (put_connector q x w) = tid w" "wakeupfd (put_connector q x w) = wakeupfd w"
  "kernel (put_connector q x w) = kernel w" "timerQueue (put_connector q x w) = timerQueue w"
  "timer_heap (put_connector q x w) = timer_heap w"
  by (simp_all add: set_client_def put_connector_def)

section \<open>Handing the socket over\<close>

text \<open>What the client looks like once it is connected through connection \<open>p\<close>.\<close>

definition client_up :: "nat \<Rightarrow> nat \<Rightarrow> ('k, 'z) client_world_scheme \<Rightarrow> bool" where
  "client_up p tp w \<longleftrightarrow> conn_ok p w \<and> state_of p w = kConnected \<and> connection (client w) = Some p \<and>
     client_connected (client w) \<and> retryTimer (client w) = 0 \<and> timer_heap w tp = None \<and> timers_ok [] w"

lemma established:
  assumes "tid w = cur" "p \<noteq> 0" "c \<noteq> 0" "conns w p = Some conn" "conn_state conn = kConnecting" "conn_channel conn = c"
    "channels w c = Some ch" "\<not> pooling ch" "ch_events ch = 0"
  shows "connectEstablished os cur p w = Inr (with_interest os c (Channel_tie p ch) (EPOLLIN OR EPOLLPRI)
    (put_channel c (Channel_tie p ch) (put_conn p (conn\<lparr>conn_state := kConnected\<rparr>) w)))"
  using assms mask_nonzero(1)[of 0]
  by (simp add: connectEstablished_def enableRead.interest_eq Channel_tie_def)

lemma client_newConnection_ok:
  assumes ok: "timers_ok [] w" and t: "tid w = cur" and mem: "(u, tp) \<in> set (timers (timerQueue w))"
    and tp: "retryTimer (client w) = tp" and p: "p \<noteq> 0" and c: "c \<noteq> 0" and fd: "connfd \<noteq> wakeupfd w"
    and msg: "client_messageCallback (client w) \<noteq> None"
    and cb: "client_connectionCallback (client w) = Some cb" and call: "\<And>v. call cb p v = Inr v"
  shows "returns (TcpClient_newConnection os call cur p c connfd loc peer w) (client_up p tp)"
proof -
  obtain b where b: "Buffer_new kInitialSize = Inr b" "buffer_inv b" "content b = []"
    using Buffer_new_ok[of kInitialSize] by (auto simp: returns_iff kInitialSize_def kCheapPrepend_def max_size_def)
  let ?w1 = "delete_timer tp (set_timers (set_erase (u, tp) (timers (timerQueue w))) w)"
  let ?cl = "(client w)\<lparr>retryTimer := 0, client_connected := True, connection := Some p\<rparr>"
  let ?conn = "\<lparr>sockfd = connfd, conn_channel = c, conn_state = kConnecting, conn_local = loc, conn_peer = peer,
     inputBuffer = b, outputBuffer = b, highWaterMark = 0, conn_context = None,
     messageCallback = client_messageCallback (client w),
     writeCompleteCallback = client_writeCompleteCallback (client w), highWaterMarkCallback = None,
     closeCallback = Some TcpClient_closeConnection_cb\<rparr>"
  let ?ch = "(Channel_new connfd)\<lparr>
     ch_readCallback := Some (TcpConnection_handleRead_fn p), ch_writeCallback := Some (TcpConnection_handleWrite_fn p),
     ch_closeCallback := Some (TcpConnection_handleClose_fn p), ch_errorCallback := Some (TcpConnection_handleError_fn p)\<rparr>"
  let ?w7 = "put_conn p ?conn (set_client ?cl (put_channel c ?ch ?w1))"
  let ?w8 = "with_interest os c (Channel_tie p ?ch) (EPOLLIN OR EPOLLPRI)
    (put_channel c (Channel_tie p ?ch) (put_conn p (?conn\<lparr>conn_state := kConnected\<rparr>) ?w7))"
  have cancel: "EventLoop_cancelTimer os cur tp w = Inr ?w1"
    using TimerQueue_cancel_ok(1)[OF ok mem] t
    by (simp add: EventLoop_cancelTimer_def TimerQueue_cancelTimer_def runInLoop_def isInLoopThread_def)
  have w1: "timers_ok [] ?w1" by (rule TimerQueue_cancel_ok(2)[OF ok mem])
  have run: "TcpClient_newConnection os call cur p c connfd loc peer w =
      rbind (connectEstablished os cur p ?w7) (\<lambda>w8. call_conn call (client_connectionCallback (client w8)) p w8)"
    using p t b(1) cancel tp
    by (simp add: TcpClient_newConnection_def TcpConnection_new_def modify_conn_def put_conn_def put_channel_def
        set_client_def setMessageCallback_def setWriteCompleteCallback_def conn_setCloseCallback_def
        Channel.setErrorCallback_def Channel.setCloseCallback_def Channel.setWriteCallback_def
        Channel.setReadCallback_def Channel_new_def Let_def delete_timer_def set_timers_def)
  have est: "connectEstablished os cur p ?w7 = Inr ?w8"
    by (rule established) (use t p c in \<open>simp_all add: Channel_new_def\<close>)
  have "conn_ok p ?w8"
    by (rule conn_okI[OF p, where conn = "?conn\<lparr>conn_state := kConnected\<rparr>"
          and ch = "(Channel_tie p ?ch)\<lparr>ch_events := EPOLLIN OR EPOLLPRI, pooling := True\<rparr>"])
      (use c fd b msg mask_nonzero(1)[of 0] in
        \<open>auto simp: conn_parts_ok_def Channel_new_def Channel_tie_def isWriting_def epoll_masks\<close>)
  moreover have "timers_ok [] ?w8" using w1 timers_ok_cong[of ?w8 ?w1] by simp
  ultimately have "client_up p tp ?w8" by (simp add: client_up_def state_of_def)
  then show ?thesis using run est cb call by (simp add: call_conn_def)
qed

section \<open>Properties\<close>


text \<open>Witness: a client on the sample kernel whose connector waits for EPOLLOUT on descriptor 5.\<close>

definition sample_client :: "bool \<Rightarrow> sample_kernel client_world" where
  "sample_client begun = conn_world.extend
     (put_channel 41 ((Channel_new 5)\<lparr>pooling := begun, ch_events := if begun then EPOLLOUT else 0,
          ch_writeCallback := Some (Connector_handleWrite_fn 40)\<rparr>)
       (set_timers [(3000000500, 8)] (put_timer 8 (Timer_new (Some TcpClient_retry_fn) 3000000500 3000000000)
         (EventLoop.extend sample_loop (conn_world.fields Map.empty)))))
     (client_world.fields
       [40 \<mapsto> \<lparr>ctor_peer = InetAddress_new 80 True, ctor_sockfd = 5, ctor_connected = False, ctor_started = begun,
          ctor_channel = 41, ctor_newConnectionCallback = Some TcpClient_newConnection_cb, ctor_errorCallback = None\<rparr>]
       \<lparr>client_connected = False, client_peer = InetAddress_new 80 True, retryTimer = 8, connector = 40,
        connection = None, client_connectionCallback = Some DefaultConnectionCallback,
        client_messageCallback = Some DefaultMessageCallback, client_writeCompleteCallback = None\<rparr>)"

lemmas sample_client_defs = sample_client_def conn_world.defs client_world.defs put_channel_def set_timers_def
  put_timer_def EventLoop.extend_def sample_loop_def


text \<open>
  C37. A connect that ends at once, with success or with an error other than EINPROGRESS, fails
  an assertion: \<open>start\<close> calls \<open>handleWrite\<close> directly, which takes the channel off the interest
  list although it was never put there, and the poller requires a new channel to watch
  something.
\<close>

theorem immediate_connect_asserts:
  assumes "tid w = cur" and "connectors w q = Some x" and "q \<noteq> 0" and "\<not> ctor_started x"
    and "channels w (ctor_channel x) = Some ch" and "ctor_channel x \<noteq> 0" and "\<not> pooling ch"
    and "\<And>k. fst (sys_connect os (ctor_sockfd x) (getSockaddr (ctor_peer x)) k) \<noteq> Inl EINPROGRESS"
  shows "Connector_start os run handover cur q w = Inl AssertFailed"
proof -
  let ?w2 = "snd (sys (sys_connect os (ctor_sockfd x) (getSockaddr (ctor_peer x)))
    (put_connector q (x\<lparr>ctor_started := True\<rparr>) w))"
  have "EventLoop_removeChannel os cur (ctor_channel x) ?w2 = Inl AssertFailed"
    using disableAll.interest_unregistered[of ?w2 cur "ctor_channel x" ch os] assms(1,5,6,7)
    by (simp add: removeChannel_eq)
  then have "Connector_handleWrite os run handover cur q ?w2 = Inl AssertFailed"
    using assms(1,3) by (simp add: Connector_handleWrite_def)
  then show ?thesis
    using assms(1-4) assms(8)[of "kernel w"]
    by (auto simp: Connector_start_def case_prod_beta Let_def split: sum.splits)
qed

theorem immediate_connect_asserts_witness:
  "Connector_start (sample_os\<lparr>sys_connect := (\<lambda>fd a k. (Inr (), k))\<rparr>) (\<lambda>f w. Inr w) (\<lambda>cb fd l p w. Inr w) 1 40
    (sample_client False) = Inl AssertFailed"
  by (rule immediate_connect_asserts[where x = "the (connectors (sample_client False) 40)"
        and ch = "the (channels (sample_client False) 41)"])
    (simp_all add: sample_client_defs)

end
