(* ===== verification/Example_Clients.thy ===== *)
theory Example_Clients
  imports TcpClient Example_Replies
begin

text \<open>
  The example clients (\<open>EchoClient.cc\<close>, \<open>AddOneClient.cc\<close>): when the
  connection is up a detached thread reads lines from the standard input and sends them, and
  shuts the connection down at the end of the input. The thread and the loop run
  concurrently; an interleaving is a list of actions of the two. The two programs are the same but
  for names and a log line, which the last section states.
\<close>

section \<open>State\<close>

text \<open>
  Where the detached thread is: before the constructor of \<open>UserInput\<close>, in the loop of \<open>run\<close>, or at
  the destructor of \<open>UserInput\<close>, which is a local variable of the thread. \<open>users\<close> holds the
  \<open>UserInput\<close> objects by address, \<open>stdin\<close> the lines still to come, \<open>batch\<close> the local variable \<open>tasks\<close> of
  \<open>doPendingTasks\<close>.
\<close>

datatype user_pc = U_absent | U_new | U_loop | U_leave | U_done

record 'k bench_world = "'k client_world" +
  users :: "nat \<rightharpoonup> nat"
  stdin :: "string list"
  stdout :: "string list"
  upc :: user_pc
  user_conn :: nat
  batch :: "closure list"

type_synonym ('k, 'z) bench_op = "('k, 'z) bench_world_scheme \<Rightarrow> ('k, 'z) bench_world_scheme result"

section \<open>UserInput\<close>

definition UserInput_new :: "nat \<Rightarrow> nat \<Rightarrow> ('k, 'z) bench_op" where
  "UserInput_new u p w = modify_conn p (setMessageCallback (Some (UserConnCallback (Suc u)))) (w\<lparr>users := (users w)(u \<mapsto> p)\<rparr>)"

text \<open>The callback is bound to the address \<open>u\<close> of the object.\<close>

definition UserInput_onMessage :: "nat \<Rightarrow> nat \<Rightarrow> ('k, 'z) bench_op" where
  "UserInput_onMessage u p w =
     rbind (ensure (users w u \<noteq> None) UseAfterFree) (\<lambda>_.
     rbind (deref (conns w) p) (\<lambda>conn.
     rbind (retrieveAllAsString (inputBuffer conn)) (\<lambda>(str, b).
     Inr ((put_conn p (conn\<lparr>inputBuffer := b\<rparr>) w)\<lparr>stdout := stdout w @ [string_of str]\<rparr>))))"

text \<open>
  The thread: constructor, one round of \<open>while (getline)\<close> or the call of \<open>shutdown\<close>, destructor. \<open>me\<close> is
  its thread id.
\<close>

definition user_step :: "'k os \<Rightarrow> nat \<Rightarrow> nat \<Rightarrow> ('k, 'z) bench_op" where
  "user_step os me u w =
     (case upc w of
        U_absent \<Rightarrow> Inr w
      | U_new \<Rightarrow> rbind (UserInput_new u (user_conn w) w) (\<lambda>w1. Inr (w1\<lparr>upc := U_loop\<rparr>))
      | U_loop \<Rightarrow>
          (case stdin w of
             line # lines \<Rightarrow>
               rbind (conn_send os me (user_conn w) (bytes_of line) w) (\<lambda>w1. Inr (w1\<lparr>stdin := lines\<rparr>))
           | [] \<Rightarrow> rbind (conn_shutdown os me (user_conn w) w) (\<lambda>w1. Inr (w1\<lparr>upc := U_leave\<rparr>)))
      | U_leave \<Rightarrow> Inr (w\<lparr>users := (users w)(u := None), upc := U_done\<rparr>)
      | U_done \<Rightarrow> Inr w)"

section \<open>EchoBench\<close>

definition EchoBench_new :: "'k os \<Rightarrow> nat \<Rightarrow> nat \<Rightarrow> InetAddress \<Rightarrow> ('k, 'z) bench_op" where
  "EchoBench_new os q c peer w =
     rbind (TcpClient_new os q c peer w) (\<lambda>w1.
     Inr (set_client (client_setConnectionCallback (Some (UserConnCallback 0)) (client w1)) w1))"

definition EchoBench_start ::
  "'k os \<Rightarrow> (closure \<Rightarrow> ('k, 'z) bench_op) \<Rightarrow> ('k, 'z bench_world_ext) client_handover \<Rightarrow> nat \<Rightarrow> nat \<Rightarrow> ('k, 'z) bench_op"
where
  "EchoBench_start os run handover cur tp = TcpClient_start os run handover cur tp"

definition Bench_onConnection :: "'k os \<Rightarrow> nat \<Rightarrow> nat \<Rightarrow> ('k, 'z) bench_op" where
  "Bench_onConnection os cur p w =
     rbind (deref (conns w) p) (\<lambda>conn.
     if connected conn then Inr (w\<lparr>upc := U_new, user_conn := p\<rparr>)
     else EventLoop_quit os cur w)"

definition bench_user :: "'k os \<Rightarrow> nat \<Rightarrow> nat \<Rightarrow> nat \<Rightarrow> ('k, 'z) bench_op" where
  "bench_user os cur n p = (case n of 0 \<Rightarrow> Bench_onConnection os cur p | Suc u \<Rightarrow> UserInput_onMessage u p)"

definition client_call :: "(nat \<Rightarrow> nat \<Rightarrow> ('k, 'z) client_op) \<Rightarrow> nat \<Rightarrow> ('k, 'z client_world_ext) conn_call" where
  "client_call user cur cb p =
     (case cb of
        TcpClient_closeConnection_cb \<Rightarrow> TcpClient_closeConnection (app_call user) cur p
      | _ \<Rightarrow> app_call user cb p)"

abbreviation bench_call :: "'k os \<Rightarrow> nat \<Rightarrow> ('k, 'z bench_world_ext client_world_ext) conn_call" where
  "bench_call os cur \<equiv> client_call (bench_user os cur) cur"

section \<open>Interleavings\<close>

text \<open>
  The loop takes the pending tasks (\<open>Take\<close>), runs the next of them (\<open>Task\<close>, with none left the flag
  goes down), and between two batches handles EPOLLOUT and EPOLLIN, which are reported while they
  are watched.
\<close>

datatype bench_action = User | Take | Task | Writable | Readable

definition bench_invoke :: "'k os \<Rightarrow> nat \<Rightarrow> closure \<Rightarrow> ('k, 'z) bench_op" where
  "bench_invoke os cur = conn_invoke os (bench_call os cur) (\<lambda>cb p n w. Inl BadFunctionCall) (\<lambda>f w. Inl BadFunctionCall) cur"

fun bench_act :: "'k os \<Rightarrow> nat \<Rightarrow> nat \<Rightarrow> nat \<Rightarrow> nat \<Rightarrow> bench_action \<Rightarrow> ('k, 'z) bench_op" where
  "bench_act os cur me u p User w = user_step os me u w"
| "bench_act os cur me u p Take w =
     Inr (if batch w = [] then w\<lparr>batch := pendingTasks w, pendingTasks := [], doingPendingTasks := True\<rparr> else w)"
| "bench_act os cur me u p Task w =
     (case batch w of
        [] \<Rightarrow> Inr (w\<lparr>doingPendingTasks := False\<rparr>)
      | f # fs \<Rightarrow> bench_invoke os cur f (w\<lparr>batch := fs\<rparr>))"
| "bench_act os cur me u p Writable w =
     (if batch w = [] then run_send_op os cur p WriteReady w else Inr w)"
| "bench_act os cur me u p Readable w =
     (if batch w \<noteq> [] then Inr w
      else rbind (deref (conns w) p) (\<lambda>conn.
           rbind (deref (channels w) (conn_channel conn)) (\<lambda>ch.
           if isReading ch then bench_invoke os cur (TcpConnection_handleRead_fn p) w else Inr w)))"

section \<open>The main function, and AddOneClient\<close>

text \<open>Up to \<open>loop.loop()\<close>; \<open>pton\<close> is \<open>inet_pton\<close>.\<close>

definition echo_client_main ::
  "'k os \<Rightarrow> (string \<Rightarrow> 32 word option) \<Rightarrow> (closure \<Rightarrow> ('k, 'z) bench_op) \<Rightarrow> ('k, 'z bench_world_ext) client_handover \<Rightarrow>
   nat \<Rightarrow> nat \<Rightarrow> nat \<Rightarrow> nat \<Rightarrow> ('k, 'z) bench_op"
where
  "echo_client_main os pton run handover cur tp q c w =
     rbind (InetAddress_new_ip pton ''127.0.0.1'' 9877) (\<lambda>addr.
     rbind (EchoBench_new os q c addr w) (EchoBench_start os run handover cur tp))"

definition AddOne_UserInput_new :: "nat \<Rightarrow> nat \<Rightarrow> ('k, 'z) bench_op" where
  "AddOne_UserInput_new u p w =
     modify_conn p (setMessageCallback (Some (UserConnCallback (Suc u)))) (w\<lparr>users := (users w)(u \<mapsto> p)\<rparr>)"

definition AddOne_UserInput_onMessage :: "nat \<Rightarrow> nat \<Rightarrow> ('k, 'z) bench_op" where
  "AddOne_UserInput_onMessage u p w =
     rbind (ensure (users w u \<noteq> None) UseAfterFree) (\<lambda>_.
     rbind (deref (conns w) p) (\<lambda>conn.
     rbind (retrieveAllAsString (inputBuffer conn)) (\<lambda>(str, b).
     Inr ((put_conn p (conn\<lparr>inputBuffer := b\<rparr>) w)\<lparr>stdout := stdout w @ [string_of str]\<rparr>))))"

definition AddOne_user_step :: "'k os \<Rightarrow> nat \<Rightarrow> nat \<Rightarrow> ('k, 'z) bench_op" where
  "AddOne_user_step os me u w =
     (case upc w of
        U_absent \<Rightarrow> Inr w
      | U_new \<Rightarrow> rbind (AddOne_UserInput_new u (user_conn w) w) (\<lambda>w1. Inr (w1\<lparr>upc := U_loop\<rparr>))
      | U_loop \<Rightarrow>
          (case stdin w of
             line # lines \<Rightarrow>
               rbind (conn_send os me (user_conn w) (bytes_of line) w) (\<lambda>w1. Inr (w1\<lparr>stdin := lines\<rparr>))
           | [] \<Rightarrow> rbind (conn_shutdown os me (user_conn w) w) (\<lambda>w1. Inr (w1\<lparr>upc := U_leave\<rparr>)))
      | U_leave \<Rightarrow> Inr (w\<lparr>users := (users w)(u := None), upc := U_done\<rparr>)
      | U_done \<Rightarrow> Inr w)"

definition AddOneBench_new :: "'k os \<Rightarrow> nat \<Rightarrow> nat \<Rightarrow> InetAddress \<Rightarrow> ('k, 'z) bench_op" where
  "AddOneBench_new os q c peer w =
     rbind (TcpClient_new os q c peer w) (\<lambda>w1.
     Inr (set_client (client_setConnectionCallback (Some (UserConnCallback 0)) (client w1)) w1))"

definition AddOneBench_start ::
  "'k os \<Rightarrow> (closure \<Rightarrow> ('k, 'z) bench_op) \<Rightarrow> ('k, 'z bench_world_ext) client_handover \<Rightarrow> nat \<Rightarrow> nat \<Rightarrow> ('k, 'z) bench_op"
where
  "AddOneBench_start os run handover cur tp = TcpClient_start os run handover cur tp"

definition AddOneBench_onConnection :: "'k os \<Rightarrow> nat \<Rightarrow> nat \<Rightarrow> ('k, 'z) bench_op" where
  "AddOneBench_onConnection os cur p w =
     rbind (deref (conns w) p) (\<lambda>conn.
     if connected conn then Inr (w\<lparr>upc := U_new, user_conn := p\<rparr>)
     else EventLoop_quit os cur w)"

definition addone_client_main ::
  "'k os \<Rightarrow> (string \<Rightarrow> 32 word option) \<Rightarrow> (closure \<Rightarrow> ('k, 'z) bench_op) \<Rightarrow> ('k, 'z bench_world_ext) client_handover \<Rightarrow>
   nat \<Rightarrow> nat \<Rightarrow> nat \<Rightarrow> nat \<Rightarrow> ('k, 'z) bench_op"
where
  "addone_client_main os pton run handover cur tp q c w =
     rbind (InetAddress_new_ip pton ''127.0.0.1'' 9877) (\<lambda>addr.
     rbind (AddOneBench_new os q c addr w) (AddOneBench_start os run handover cur tp))"

text \<open>So what is shown of one client holds of the other.\<close>

lemma addone_client_twins:
  "AddOne_UserInput_onMessage = UserInput_onMessage" "AddOne_user_step = user_step"
  "AddOneBench_onConnection = Bench_onConnection" "addone_client_main = echo_client_main"
  by (simp_all add: fun_eq_iff AddOne_UserInput_onMessage_def UserInput_onMessage_def AddOne_user_step_def user_step_def
      AddOne_UserInput_new_def UserInput_new_def AddOneBench_onConnection_def Bench_onConnection_def addone_client_main_def
      echo_client_main_def AddOneBench_new_def EchoBench_new_def AddOneBench_start_def EchoBench_start_def cong: user_pc.case_cong)

end
