(* ===== verification/Client_Lines.thy ===== *)
theory Client_Lines
  imports Example_Clients
begin

text \<open>
  The example clients in every interleaving of the user's thread with the loop: the lines leave in order.
  First what the sending side leaves alone, then the invariant, step by step, then the theorem.
\<close>

section \<open>What the calls of the loop leave alone\<close>

text \<open>
  A step of the sending side of a connection without write-complete and high-water-mark
  callbacks: of the connection only the output buffer changes, and no task is queued.
\<close>

definition calm :: "nat \<Rightarrow> ('k, 'z) conn_world_scheme \<Rightarrow> ('k, 'z) conn_world_scheme \<Rightarrow> bool" where
  "calm p w w' \<longleftrightarrow> send_frame p w w' \<and> pendingTasks w' = pendingTasks w \<and> quit w' = quit w"

definition plain :: "TcpConnection \<Rightarrow> bool" where
  "plain conn \<longleftrightarrow> writeCompleteCallback conn = None \<and> highWaterMarkCallback conn = None"

lemma interest_tasks:
  "enableWrite os cur c w = Inr w' \<Longrightarrow> pendingTasks w' = pendingTasks w \<and> quit w' = quit w"
  "disableWrite os cur c w = Inr w' \<Longrightarrow> pendingTasks w' = pendingTasks w \<and> quit w' = quit w"
  by (auto simp: enableWrite_def disableWrite_def modify_channel_Inr rbind_eq_Inr Channel_update_def EventLoop_updateChannel_def
      EPollPoller_updateChannel_def EPollPoller_ctl_def put_channel_def sys_def case_prod_beta split: if_splits)

lemma disableWrite_frame:
  "disableWrite os cur c w = Inr w' \<Longrightarrow> conns w' = conns w \<and> conn_world.more w' = conn_world.more w"
  for w :: "('k, 'z) conn_world_scheme"
  by (auto simp: disableWrite_def modify_channel_Inr rbind_eq_Inr Channel_update_def EventLoop_updateChannel_def
      EPollPoller_updateChannel_def EPollPoller_ctl_def put_channel_def sys_def case_prod_beta split: if_splits)

lemma put_conn_tasks [simp]:
  "pendingTasks (put_conn p conn w) = pendingTasks w" "quit (put_conn p conn w) = quit w"
  by (simp_all add: put_conn_def)

lemma sys_tasks [simp]: "pendingTasks (snd (sys f w)) = pendingTasks w" "quit (snd (sys f w)) = quit w"
  by (simp_all add: sys_def case_prod_beta)

lemma sendInLoop_write_tasks:
  "sendInLoop_write os cur p data conn w = (n, f, w1) \<Longrightarrow> plain conn \<Longrightarrow> pendingTasks w1 = pendingTasks w \<and> quit w1 = quit w"
  by (auto simp: sendInLoop_write_def plain_def queue_writeComplete_def sys_def case_prod_beta split: sum.splits if_splits)

lemma sendInLoop_buffer_tasks:
  assumes "sendInLoop_buffer os cur p data n conn w = Inr w'" "plain conn"
  shows "pendingTasks w' = pendingTasks w \<and> quit w' = quit w"
proof -
  obtain b where "enableWrite os cur (conn_channel conn) (put_conn p (conn\<lparr>outputBuffer := b\<rparr>) w) = Inr w'"
    using assms by (auto simp: sendInLoop_buffer_def Let_def rbind_eq_Inr plain_def)
  from interest_tasks(1)[OF this] show ?thesis by simp
qed

lemma sendInLoop_calm:
  assumes "sendInLoop os cur p data w = Inr w'" and conn: "conns w p = Some conn" "plain conn"
  shows "calm p w w'"
proof (cases "conn_state conn = kDisconnected")
  case True
  then show ?thesis using assms by (auto simp: sendInLoop_def rbind_eq_Inr calm_def intro: send_frame_refl)
next
  case False
  obtain ch n f w1 where res: "(if \<not> isWriting ch
          then rbind (ensure (readableBytes (outputBuffer conn) = 0) AssertFailed) (\<lambda>_.
               Inr (sendInLoop_write os cur p data conn w))
          else Inr (0, False, w)) = Inr (n, f, w1)"
    and fin: "(if \<not> f \<and> size_sub (length data) n > 0 then sendInLoop_buffer os cur p data n conn w1 else Inr w1) = Inr w'"
    using assms(1) conn False by (auto simp: sendInLoop_def rbind_eq_Inr simp del: ensure_eq_Inr split del: if_split)
  have "pendingTasks w1 = pendingTasks w \<and> quit w1 = quit w"
    using res conn(2) by (auto simp: rbind_eq_Inr split: if_splits dest!: sendInLoop_write_tasks)
  moreover have "pendingTasks w' = pendingTasks w1 \<and> quit w' = quit w1"
    using fin conn(2) sendInLoop_buffer_tasks[of os cur p data n conn w1 w'] by (auto split: if_splits)
  ultimately show ?thesis using sendInLoop_frame[OF assms(1)] by (simp add: calm_def)
qed

lemma drained_plain:
  assumes "plain conn" "conn_state conn = kConnected"
  shows "conn_world.more (drained os cur p conn ch w) = conn_world.more w" "pendingTasks (drained os cur p conn ch w) = pendingTasks w"
    "quit (drained os cur p conn ch w) = quit w"
  using assms by (simp_all add: drained_def Let_def plain_def queue_writeComplete_def with_interest_def put_channel_def)

lemma handleWrite_calm:
  assumes ok: "conn_ok p w" and t: "tid w = cur" and spec: "write_spec os sent" and conn: "conns w p = Some conn" "plain conn"
    and up: "conn_state conn = kConnected" and out: "content (outputBuffer conn) \<noteq> []" and run: "handleWrite os cur p w = Inr w'"
  shows "calm p w w'"
proof -
  from ok conn(1) obtain ch where p: "p \<noteq> 0" and ch: "channels w (conn_channel conn) = Some ch"
    and parts: "conn_parts_ok (wakeupfd w) conn ch" by (auto elim: conn_okE)
  obtain r w1 where w1: "sys (sys_write os (sockfd conn) (content (outputBuffer conn))) w = (r, w1)" by fastforce
  then have k: "sys_write os (sockfd conn) (content (outputBuffer conn)) (kernel w) = (r, kernel w1)"
    and frame: "conns w1 = conns w" "conn_world.more w1 = conn_world.more w" "pendingTasks w1 = pendingTasks w" "quit w1 = quit w"
    by (auto simp: sys_def case_prod_beta)
  have n: "n \<le> length (content (outputBuffer conn))" if "r = Inr n" for n
    using write_specD(2)[OF spec] k that by blast
  have "calm p w w1" using frame send_frame_refl[of w1 w p] by (simp add: calm_def)
  then show ?thesis
    using handleWrite_eq[OF p conn(1) ch t parts disjI1[OF up] out w1 n] run conn up frame
    by (cases r) (auto simp: calm_def send_frame_def drained_plain plain_def split: if_splits)
qed

section \<open>The invariant of the client\<close>

definition payload :: "closure list \<Rightarrow> byte list" where
  "payload fs = concat (map (\<lambda>f. case f of TcpConnection_sendInLoop_fn _ d \<Rightarrow> d | _ \<Rightarrow> []) fs)"

lemma payload_simps [simp]:
  "payload [] = []" "payload (fs @ gs) = payload fs @ payload gs" "payload (TcpConnection_sendInLoop_fn p d # fs) = d @ payload fs"
  by (simp_all add: payload_def)

text \<open>The callbacks of the connection are those of the client, and the \<open>UserInput\<close> they name is alive.\<close>

definition bench_callbacks :: "nat \<Rightarrow> (nat \<rightharpoonup> nat) \<Rightarrow> TcpConnection \<Rightarrow> bool" where
  "bench_callbacks u us conn \<longleftrightarrow> plain conn \<and> closeCallback conn = Some TcpClient_closeConnection_cb \<and>
     (messageCallback conn = Some DefaultMessageCallback \<or> messageCallback conn = Some (UserConnCallback (Suc u)) \<and> us u \<noteq> None)"

text \<open>
  Before the call of \<open>shutdown\<close>: all tasks are messages of the connection; while it is up, the stream, the messages
  waiting in the queue and the lines not yet read make up \<open>whole\<close>.
\<close>

definition bench_ok :: "('k \<Rightarrow> int \<Rightarrow> byte list) \<Rightarrow> nat \<Rightarrow> nat \<Rightarrow> int \<Rightarrow> byte list \<Rightarrow> ('k, 'z) bench_world_scheme \<Rightarrow> bool" where
  "bench_ok sent u p fd whole w \<longleftrightarrow> conn_ok p w \<and> user_conn w = p \<and> upc w \<in> {U_new, U_loop} \<and>
     client_connectionCallback (client w) = Some (UserConnCallback 0) \<and>
     (\<forall>f \<in> set (batch w @ pendingTasks w). \<exists>d. f = TcpConnection_sendInLoop_fn p d \<and> length d \<le> max_size) \<and>
     (\<forall>line \<in> set (stdin w). length line \<le> max_size) \<and>
     (\<exists>conn. conns w p = Some conn \<and> bench_callbacks u (users w) conn \<and> sockfd conn = fd \<and>
        (conn_state conn = kDisconnected \<or> conn_state conn = kConnected \<and> \<not> quit w \<and> connection (client w) \<noteq> None \<and>
           out_stream sent p w @ payload (batch w @ pendingTasks w) @ concat (map bytes_of (stdin w)) = whole))"

text \<open>How many steps of the user's thread come before the call of \<open>shutdown\<close>.\<close>

definition user_steps :: "('k, 'z) bench_world_scheme \<Rightarrow> nat" where
  "user_steps w = (if upc w = U_new then Suc (length (stdin w)) else length (stdin w))"

lemma bench_okE:
  assumes "bench_ok sent u p fd whole w"
  obtains conn ch where "conns w p = Some conn" "channels w (conn_channel conn) = Some ch" "conn_parts_ok (wakeupfd w) conn ch" "p \<noteq> 0"
    "conn_ok p w" "bench_callbacks u (users w) conn" "sockfd conn = fd" "conn_channel conn \<noteq> 0"
    "conn_state conn = kDisconnected \<or> conn_state conn = kConnected \<and> \<not> quit w \<and> connection (client w) \<noteq> None \<and>
      out_stream sent p w @ payload (batch w @ pendingTasks w) @ concat (map bytes_of (stdin w)) = whole"
proof -
  obtain conn where conn: "conns w p = Some conn" "bench_callbacks u (users w) conn" "sockfd conn = fd"
    "conn_state conn = kDisconnected \<or> conn_state conn = kConnected \<and> \<not> quit w \<and> connection (client w) \<noteq> None \<and>
      out_stream sent p w @ payload (batch w @ pendingTasks w) @ concat (map bytes_of (stdin w)) = whole" and ok: "conn_ok p w"
    using assms by (auto simp: bench_ok_def)
  obtain ch where "p \<noteq> 0" "channels w (conn_channel conn) = Some ch" "conn_parts_ok (wakeupfd w) conn ch"
    using ok conn(1) by (auto elim!: conn_okE)
  then show thesis using that[OF conn(1) _ _ _ ok conn(2,3) _ conn(4)] by (simp add: conn_parts_ok_def)
qed

lemma bench_frame [simp]:
  fixes w :: "('k, 'z) bench_world_scheme"
  shows "conn_ok p (w\<lparr>upc := x\<rparr>) = conn_ok p w" "conn_ok p (w\<lparr>stdin := xs\<rparr>) = conn_ok p w" "conn_ok p (w\<lparr>batch := fs\<rparr>) = conn_ok p w"
    "conn_ok p (w\<lparr>users := us\<rparr>) = conn_ok p w" "conn_ok p (w\<lparr>stdout := xs\<rparr>) = conn_ok p w"
    "conn_ok p (w\<lparr>pendingTasks := fs\<rparr>) = conn_ok p w" "conn_ok p (w\<lparr>doingPendingTasks := b\<rparr>) = conn_ok p w"
    "out_stream sent p (w\<lparr>upc := x\<rparr>) = out_stream sent p w" "out_stream sent p (w\<lparr>stdin := xs\<rparr>) = out_stream sent p w"
    "out_stream sent p (w\<lparr>batch := fs\<rparr>) = out_stream sent p w" "out_stream sent p (w\<lparr>users := us\<rparr>) = out_stream sent p w"
    "out_stream sent p (w\<lparr>stdout := xs\<rparr>) = out_stream sent p w" "out_stream sent p (w\<lparr>pendingTasks := fs\<rparr>) = out_stream sent p w"
    "out_stream sent p (w\<lparr>doingPendingTasks := b\<rparr>) = out_stream sent p w"
  by (simp_all add: conn_ok_def out_stream_def split: option.splits)

lemma more_bench:
  fixes w w' :: "('k, 'z) bench_world_scheme"
  assumes "conn_world.more w' = conn_world.more w"
  shows "client w' = client w" "users w' = users w" "stdin w' = stdin w" "stdout w' = stdout w" "upc w' = upc w"
    "user_conn w' = user_conn w" "batch w' = batch w"
  using assms by (cases w; cases w'; simp)+

lemma bench_put_conn [simp]:
  "users (put_conn p conn w) = users w" "stdin (put_conn p conn w) = stdin w" "stdout (put_conn p conn w) = stdout w"
  "upc (put_conn p conn w) = upc w" "user_conn (put_conn p conn w) = user_conn w" "batch (put_conn p conn w) = batch w"
  by (simp_all add: put_conn_def)

section \<open>The thread of the user\<close>

lemma put_callback_ok:
  assumes "conn_ok p w" "conns w p = Some conn"
  shows "conn_ok p (put_conn p (conn\<lparr>messageCallback := Some cb\<rparr>) w)"
    "out_stream sent p (put_conn p (conn\<lparr>messageCallback := Some cb\<rparr>) w) = out_stream sent p w"
proof -
  obtain ch where "p \<noteq> 0" "channels w (conn_channel conn) = Some ch" "conn_parts_ok (wakeupfd w) conn ch"
    using assms by (auto elim!: conn_okE)
  then show "conn_ok p (put_conn p (conn\<lparr>messageCallback := Some cb\<rparr>) w)"
    by (intro conn_okI[where conn = "conn\<lparr>messageCallback := Some cb\<rparr>" and ch = ch])
      (auto simp: conn_parts_ok_def split: ConnectState.splits)
  show "out_stream sent p (put_conn p (conn\<lparr>messageCallback := Some cb\<rparr>) w) = out_stream sent p w"
    using assms(2) by (simp add: out_stream_def)
qed

lemma user_new_ok:
  fixes w :: "('k, 'z) bench_world_scheme"
  assumes ok: "bench_ok sent u p fd whole w" and pc: "upc w = U_new"
  shows "returns (user_step os me u w) (\<lambda>w'. bench_ok sent u p fd whole w' \<and> tid w' = tid w \<and> Suc (user_steps w') = user_steps w)"
proof -
  obtain conn ch where p: "p \<noteq> 0" and conn: "conns w p = Some conn" and cok: "conn_ok p w" and cb: "bench_callbacks u (users w) conn"
    using bench_okE[OF ok] by metis
  have "user_conn w = p" using ok by (simp add: bench_ok_def)
  let ?conn = "conn\<lparr>messageCallback := Some (UserConnCallback (Suc u))\<rparr>"
  let ?v = "w\<lparr>users := (users w)(u \<mapsto> p)\<rparr>"
  have run: "user_step os me u w = Inr ((put_conn p ?conn ?v)\<lparr>upc := U_loop\<rparr>)"
    using p conn pc \<open>user_conn w = p\<close> by (simp add: user_step_def UserInput_new_def modify_conn_def setMessageCallback_def)
  have cb': "bench_callbacks u ((users w)(u \<mapsto> p)) ?conn" using cb by (simp add: bench_callbacks_def plain_def)
  note put = put_callback_ok[where p = p and w = ?v and conn = conn and cb = "UserConnCallback (Suc u)"]
  show ?thesis
    unfolding run using ok conn cok cb' put pc by (simp add: bench_ok_def user_steps_def)
qed

lemma user_line_ok:
  fixes w :: "('k, 'z) bench_world_scheme"
  assumes spec: "write_spec os sent" and ok: "bench_ok sent u p fd whole w" and pc: "upc w = U_loop" and line: "stdin w = line # lines" and me: "me \<noteq> tid w"
  shows "returns (user_step os me u w) (\<lambda>w'. bench_ok sent u p fd whole w' \<and> tid w' = tid w \<and> Suc (user_steps w') = user_steps w)"
proof -
  obtain conn ch where p: "p \<noteq> 0" and conn: "conns w p = Some conn" and cok: "conn_ok p w" and parts: "conn_parts_ok (wakeupfd w) conn ch"
    using bench_okE[OF ok] by metis
  have up: "user_conn w = p" using ok by (simp add: bench_ok_def)
  show ?thesis
  proof (cases "conn_state conn = kConnected")
    case True
    let ?w = "queueInLoop os me (TcpConnection_sendInLoop_fn p (bytes_of line)) w"
    have run: "user_step os me u w = Inr (?w\<lparr>stdin := lines\<rparr>)"
      using p conn pc up line me True by (simp add: user_step_def conn_send_def isInLoopThread_def)
    have c: "conn_ok p ?w" using cok conn_ok_cong[of ?w p w] by simp
    have s: "out_stream sent p ?w = out_stream sent p w"
      using conn parts sent_queueInLoop[OF spec, of w "sockfd conn" me] by (simp add: out_stream_def conn_parts_ok_def)
    have more: "client ?w = client w" "users ?w = users w" "upc ?w = upc w" "user_conn ?w = user_conn w" "batch ?w = batch w"
      using more_bench[of ?w w] by simp_all
    show ?thesis
      unfolding run using ok c s more pc line conn by (auto simp: bench_ok_def user_steps_def bytes_of_length)
  next
    case False
    then have "user_step os me u w = Inr (w\<lparr>stdin := lines\<rparr>)" using p conn pc up line by (simp add: user_step_def conn_send_def)
    moreover have "bench_ok sent u p fd whole (w\<lparr>stdin := lines\<rparr>)" using ok line False conn by (auto simp: bench_ok_def)
    ultimately show ?thesis using pc line by (simp add: user_steps_def)
  qed
qed

section \<open>The loop\<close>

text \<open>A calm step of the loop that adds \<open>d\<close> to the stream.\<close>

lemma bench_ok_calm:
  fixes w w' :: "('k, 'z) bench_world_scheme"
  assumes ok: "bench_ok sent u p fd whole (w\<lparr>batch := fs\<rparr>)" and calm: "calm p (w\<lparr>batch := gs\<rparr>) w'" and cok: "conn_ok p w'"
    and tasks: "set gs \<subseteq> set fs" "state_of p w = kConnected \<Longrightarrow> payload fs = d @ payload gs"
    and stream: "state_of p w = kConnected \<Longrightarrow> out_stream sent p w' = out_stream sent p w @ d"
  shows "bench_ok sent u p fd whole w' \<and> user_steps w' = user_steps w"
proof -
  obtain conn where conn: "conns w p = Some conn" "bench_callbacks u (users w) conn" "sockfd conn = fd"
    "conn_state conn = kDisconnected \<or> conn_state conn = kConnected \<and> \<not> quit w \<and> connection (client w) \<noteq> None \<and>
      out_stream sent p w @ payload (fs @ pendingTasks w) @ concat (map bytes_of (stdin w)) = whole"
    using ok by (auto simp: bench_ok_def)
  obtain b where b: "conns w' p = Some (conn\<lparr>outputBuffer := b\<rparr>)" using calm conn by (auto simp: calm_def send_frame_def)
  have more: "client w' = client w" "users w' = users w" "stdin w' = stdin w" "upc w' = upc w" "user_conn w' = user_conn w" "batch w' = gs"
    and tk: "pendingTasks w' = pendingTasks w" "quit w' = quit w"
    using calm more_bench[of w' "w\<lparr>batch := gs\<rparr>"] by (simp_all add: calm_def send_frame_def)
  have cb: "bench_callbacks u (users w') (conn\<lparr>outputBuffer := b\<rparr>)" using conn(2) more by (simp add: bench_callbacks_def plain_def)
  show ?thesis
    using ok cok more tk cb b conn tasks stream
    by (auto simp: bench_ok_def user_steps_def state_of_def)
qed

lemma bench_invoke_simps:
  "bench_invoke os cur (TcpConnection_sendInLoop_fn p d) = sendInLoop os cur p d"
  "bench_invoke os cur (TcpConnection_handleRead_fn p) = handleRead os (bench_call os cur) cur p"
  by (simp_all add: bench_invoke_def conn_invoke_def)

lemma task_ok:
  fixes w :: "('k, 'z) bench_world_scheme"
  assumes spec: "write_spec os sent" and alive: "\<And>d k. \<not> write_broken os fd d k" and ok: "bench_ok sent u p fd whole w" and t: "tid w = cur"
  shows "result_in {LengthError} (bench_act os cur me u p Task w) (\<lambda>w'. bench_ok sent u p fd whole w' \<and> tid w' = tid w \<and> user_steps w' = user_steps w)"
proof (cases "batch w")
  case Nil
  then show ?thesis using ok by (simp add: bench_ok_def user_steps_def)
next
  case (Cons f fs)
  then obtain d where f: "f = TcpConnection_sendInLoop_fn p d" "length d \<le> max_size" using ok by (auto simp: bench_ok_def)
  let ?v = "w\<lparr>batch := fs\<rparr>"
  obtain conn where conn: "conns w p = Some conn" "conn_ok p w" "bench_callbacks u (users w) conn" "sockfd conn = fd" "conn_state conn \<noteq> kConnecting"
    using bench_okE[OF ok] by (metis ConnectState.distinct(1,5))
  have st: "state_of p ?v = state_of p w" "state_of p w \<noteq> kConnecting" using conn by (simp_all add: state_of_def)
  have ok': "bench_ok sent u p fd whole (w\<lparr>batch := f # fs\<rparr>)" using ok Cons by (simp add: bench_ok_def)
  have res: "result_in {LengthError} (sendInLoop os cur p d ?v) (send_post os sent p d ?v)"
    by (rule sendInLoop_ok) (use spec t conn st f in auto)
  have fin: "bench_ok sent u p fd whole w' \<and> tid w' = tid w \<and> user_steps w' = user_steps w"
    if run: "sendInLoop os cur p d ?v = Inr w'" and post: "send_post os sent p d ?v w'" for w'
  proof -
    have "calm p ?v w'" by (rule sendInLoop_calm[OF run]) (use conn in \<open>auto simp: bench_callbacks_def\<close>)
    moreover have "conn_ok p w'" "tid w' = tid w" using post by (auto simp: send_post_def sends_from_def)
    moreover have "out_stream sent p w' = out_stream sent p w @ d" if "state_of p w = kConnected"
      using post that alive conn st by (auto simp: send_post_def sends_from_def)
    ultimately show ?thesis using bench_ok_calm[OF ok', of fs w' d] f by auto
  qed
  show ?thesis
    unfolding bench_act.simps Cons list.case f(1) bench_invoke_simps
    by (rule result_in_mono[OF res]) (use fin in auto)
qed

lemma writable_ok:
  fixes w :: "('k, 'z) bench_world_scheme"
  assumes spec: "write_spec os sent" and ok: "bench_ok sent u p fd whole w" and t: "tid w = cur"
  shows "returns (bench_act os cur me u p Writable w) (\<lambda>w'. bench_ok sent u p fd whole w' \<and> tid w' = tid w \<and> user_steps w' = user_steps w)"
proof -
  obtain conn ch where p: "p \<noteq> 0" and conn: "conns w p = Some conn" and ch: "channels w (conn_channel conn) = Some ch" "conn_channel conn \<noteq> 0"
    and parts: "conn_parts_ok (wakeupfd w) conn ch" and cok: "conn_ok p w" and cb: "bench_callbacks u (users w) conn"
    and st: "conn_state conn = kDisconnected \<or> conn_state conn = kConnected"
    using bench_okE[OF ok] by metis
  show ?thesis
  proof (cases "batch w = [] \<and> isWriting ch")
    case True
    then have up: "conn_state conn = kConnected" and out: "content (outputBuffer conn) \<noteq> []"
      using parts st by (auto simp: conn_parts_ok_def isWriting_def)
    obtain w' where w': "handleWrite os cur p w = Inr w'" "sends_from sent p [] w w'"
      using handleWrite_ok[OF spec t cok conn] up out by (auto simp: returns_iff)
    have "calm p w w'" by (rule handleWrite_calm[OF cok t spec conn _ up out w'(1)]) (use cb in \<open>simp add: bench_callbacks_def\<close>)
    then have "bench_ok sent u p fd whole w' \<and> user_steps w' = user_steps w"
      using bench_ok_calm[where w = w and fs = "batch w" and gs = "batch w" and w' = w' and d = "[]" and sent = sent and u = u and p = p
        and fd = fd and whole = whole] ok w'(2) by (simp add: sends_from_def)
    then show ?thesis using True p conn ch w' by (auto simp: sends_from_def)
  next
    case False
    then show ?thesis using p conn ch ok by auto
  qed
qed

lemma take_ok:
  fixes w :: "('k, 'z) bench_world_scheme"
  assumes ok: "bench_ok sent u p fd whole w"
  shows "returns (bench_act os cur me u p Take w) (\<lambda>w'. bench_ok sent u p fd whole w' \<and> tid w' = tid w \<and> user_steps w' = user_steps w)"
  using ok by (auto simp: bench_ok_def user_steps_def)

text \<open>The peer has closed: the connection is closed and the loop asked to quit.\<close>

lemma peer_closes:
  fixes w :: "('k, 'z) bench_world_scheme"
  assumes ok: "bench_ok sent u p fd whole w" and t: "tid w = cur" and st: "state_of p w = kConnected"
  shows "returns (handleClose os (bench_call os cur) cur p w) (\<lambda>w'. bench_ok sent u p fd whole w' \<and> tid w' = tid w \<and> user_steps w' = user_steps w)"
proof -
  obtain conn ch where p: "p \<noteq> 0" and conn: "conns w p = Some conn" and ch: "channels w (conn_channel conn) = Some ch" "conn_channel conn \<noteq> 0"
    and parts: "conn_parts_ok (wakeupfd w) conn ch" and cb: "bench_callbacks u (users w) conn"
    and up: "conn_state conn = kDisconnected \<or> conn_state conn = kConnected \<and> \<not> quit w \<and> connection (client w) \<noteq> None"
    and fd: "sockfd conn = fd"
    using bench_okE[OF ok] by metis
  let ?conn = "conn\<lparr>conn_state := kDisconnected\<rparr>"
  let ?w2 = "with_interest os (conn_channel conn) ch 0 (put_conn p ?conn w)"
  let ?w3 = "(set_client ((client w)\<lparr>connection := None\<rparr>) ?w2)\<lparr>quit := True\<rparr>"
  have ccb: "client_connectionCallback (client w) = Some (UserConnCallback 0)" using ok by (simp add: bench_ok_def)
  have con: "conn_state conn = kConnected" "\<not> quit w" "connection (client w) \<noteq> None" using up st conn by (auto simp: state_of_def)
  have rm: "EventLoop_removeChannel os cur (conn_channel conn) (put_conn p ?conn w) = Inr ?w2"
    using disableAll.interest_ok[of "put_conn p ?conn w" cur "conn_channel conn" ch os] ch t conn_parts_up(1)[OF parts] con(1)
    by (simp add: removeChannel_eq)
  have more: "client ?w2 = client w" "users ?w2 = users w" "stdin ?w2 = stdin w" "upc ?w2 = upc w" "user_conn ?w2 = user_conn w" "batch ?w2 = batch w"
    using more_bench[of ?w2 w] by simp_all
  have "pendingTasks ?w2 = pendingTasks w" "quit ?w2 = quit w" by (simp_all add: with_interest_def put_channel_def)
  note more = more this
  have run: "handleClose os (bench_call os cur) cur p w = Inr ?w3"
    using p conn t con rm cb more ccb
    by (simp add: handleClose_def bench_callbacks_def call_conn_def client_call_def TcpClient_closeConnection_def app_call_def bench_user_def
        Bench_onConnection_def connected_def EventLoop_quit_def isInLoopThread_def assertInLoopThread_def set_client_def)
  have "conn_ok p ?w3"
    by (rule conn_okI[OF p, where conn = ?conn and ch = "ch\<lparr>ch_events := 0, pooling := False\<rparr>"])
      (use parts in \<open>auto simp: conn_parts_ok_def\<close>)
  then show ?thesis
    unfolding run using ok more cb fd
    by (simp add: bench_ok_def user_steps_def set_client_def bench_callbacks_def plain_def)
qed

text \<open>New content of the input buffer, and a kernel that has taken nothing.\<close>

lemma bench_ok_input:
  fixes w :: "('k, 'z) bench_world_scheme"
  assumes ok: "bench_ok sent u p fd whole w" and conn: "conns w p = Some conn" "conn_state conn = kConnected"
    and b: "buffer_inv b" and k: "sent k' fd = sent (kernel w) fd"
  shows "bench_ok sent u p fd whole (put_conn p (conn\<lparr>inputBuffer := b\<rparr>) (w\<lparr>kernel := k'\<rparr>))"
    "user_steps (put_conn p (conn\<lparr>inputBuffer := b\<rparr>) (w\<lparr>kernel := k'\<rparr>)) = user_steps w"
proof -
  let ?v = "w\<lparr>kernel := k'\<rparr>" and ?conn = "conn\<lparr>inputBuffer := b\<rparr>"
  have cok: "conn_ok p w" and cb: "bench_callbacks u (users w) conn" and fd: "sockfd conn = fd"
    using ok conn(1) by (auto simp: bench_ok_def)
  have v: "conn_ok p ?v" using cok conn_ok_cong[of ?v p w] by simp
  note put = put_input(1)[OF v _ conn(2) b]
  have s: "out_stream sent p (put_conn p ?conn ?v) = out_stream sent p w" using conn(1) fd k by (simp add: out_stream_def)
  show "bench_ok sent u p fd whole (put_conn p ?conn ?v)" "user_steps (put_conn p ?conn ?v) = user_steps w"
    using ok conn cb fd put s by (auto simp: bench_ok_def user_steps_def bench_callbacks_def plain_def)
qed

lemma bench_ok_sys:
  fixes w :: "('k, 'z) bench_world_scheme"
  assumes "sent (snd (f (kernel w))) = sent (kernel w)" "bench_ok sent u p fd whole w"
  shows "bench_ok sent u p fd whole (snd (sys f w)) \<and> user_steps (snd (sys f w)) = user_steps w"
proof -
  have "kernel (snd (sys f w)) = snd (f (kernel w))" by (simp add: sys_def case_prod_beta)
  then have "out_stream sent p (snd (sys f w)) = out_stream sent p w" using assms(1) by (simp add: out_stream_def split: option.splits)
  then show ?thesis
    using assms(2) conn_ok_cong[of "snd (sys f w)" p w] more_bench[of "snd (sys f w)" w]
    by (simp add: bench_ok_def user_steps_def)
qed

lemma message_ok:
  fixes w :: "('k, 'z) bench_world_scheme"
  assumes ok: "bench_ok sent u p fd whole w" and conn: "conns w p = Some conn" "conn_state conn = kConnected"
  shows "returns (call_conn (bench_call os cur) (messageCallback conn) p w) (\<lambda>w'. bench_ok sent u p fd whole w' \<and> tid w' = tid w \<and> user_steps w' = user_steps w)"
proof -
  have cok: "conn_ok p w" and cb: "bench_callbacks u (users w) conn" using ok conn(1) by (auto simp: bench_ok_def)
  have p: "p \<noteq> 0" and inv: "buffer_inv (inputBuffer conn)" using conn_ok_input[OF cok conn(1)] by auto
  have same: "w\<lparr>kernel := kernel w\<rparr> = w" by simp
  note put = bench_ok_input[OF ok conn, where k' = "kernel w", unfolded same]
  obtain str b where rd: "retrieveAllAsString (inputBuffer conn) = Inr (str, b)" "buffer_inv b"
    using retrieveAllAsString_ok[OF inv] by (auto simp: returns_iff)
  let ?w = "put_conn p (conn\<lparr>inputBuffer := b\<rparr>) w"
  have out: "bench_ok sent u p fd whole (?w\<lparr>stdout := xs\<rparr>)" "user_steps (?w\<lparr>stdout := xs\<rparr>) = user_steps w" for xs
    using put[OF rd(2)] by (simp_all add: bench_ok_def user_steps_def)
  show ?thesis
    using cb p conn rd out put[OF conjunct1[OF retrieveAll_ok[OF inv]]]
    by (auto simp: bench_callbacks_def call_conn_def client_call_def app_call_def bench_user_def UserInput_onMessage_def
        defaultMessageCallback_def modify_conn_def)
qed

text \<open>readv(2) and getsockopt(2) take no data for sending.\<close>

definition receive_spec :: "'k os \<Rightarrow> ('k \<Rightarrow> int \<Rightarrow> byte list) \<Rightarrow> bool" where
  "receive_spec os sent \<longleftrightarrow> readv_spec os \<and> (\<forall>fd n k. sent (snd (sys_readv os fd n k)) = sent k) \<and>
     (\<forall>fd k. sent (snd (sys_so_error os fd k)) = sent k)"

lemma readable_ok:
  fixes w :: "('k, 'z) bench_world_scheme"
  assumes spec: "receive_spec os sent" and ok: "bench_ok sent u p fd whole w" and t: "tid w = cur"
  shows "result_in {LengthError} (bench_act os cur me u p Readable w) (\<lambda>w'. bench_ok sent u p fd whole w' \<and> tid w' = tid w \<and> user_steps w' = user_steps w)"
proof -
  let ?Q = "\<lambda>w'. bench_ok sent u p fd whole w' \<and> tid w' = tid w \<and> user_steps w' = user_steps w"
  obtain conn ch where p: "p \<noteq> 0" and conn: "conns w p = Some conn" and ch: "channels w (conn_channel conn) = Some ch" "conn_channel conn \<noteq> 0"
    and parts: "conn_parts_ok (wakeupfd w) conn ch" and st: "conn_state conn = kDisconnected \<or> conn_state conn = kConnected" and fd: "sockfd conn = fd"
    using bench_okE[OF ok] by metis
  have rd: "result_in {LengthError} (handleRead os (bench_call os cur) cur p w) ?Q" if up: "conn_state conn = kConnected"
  proof -
    obtain rv k1 where rv: "sys_readv os fd (readFd_capacity (inputBuffer conn)) (kernel w) = (rv, k1)" by fastforce
    have sys: "sys (sys_readv os (sockfd conn) (readFd_capacity (inputBuffer conn))) w = (rv, w\<lparr>kernel := k1\<rparr>)" using rv fd by (simp add: sys_def)
    have k1: "sent k1 = sent (kernel w)" using spec rv unfolding receive_spec_def by (metis snd_conv)
    have inv: "buffer_inv (inputBuffer conn)" using parts by (simp add: conn_parts_ok_def)
    let ?v = "\<lambda>b. put_conn p (conn\<lparr>inputBuffer := b\<rparr>) (w\<lparr>kernel := k1\<rparr>)"
    note v = bench_ok_input[OF ok conn up, of _ k1]
    have close: "returns (handleClose os (bench_call os cur) cur p (?v b)) ?Q" if "buffer_inv b" for b
      using peer_closes[OF v(1)[OF that], of cur os] v(2)[OF that] t up k1 by (simp add: state_of_def)
    have msg: "returns (call_conn (bench_call os cur) (messageCallback conn) p (?v b)) ?Q" if "buffer_inv b" for b
      using message_ok[OF v(1)[OF that], of "conn\<lparr>inputBuffer := b\<rparr>" os cur] v(2)[OF that] up k1 by simp
    show ?thesis
    proof (cases rv)
      case (Inl err)
      have err: "sent (snd (sys_so_error os fd k1)) = sent k1" using spec by (simp add: receive_spec_def)
      let ?v0 = "?v (inputBuffer conn)"
      have "?Q (snd (sys (sys_so_error os fd) ?v0))"
        using bench_ok_sys[of sent "sys_so_error os fd" ?v0] v[OF inv] err k1 by (simp add: put_conn_def)
      then show ?thesis
        using Inl p conn up t sys fd by (simp add: handleRead_def readFd_def handleError_def)
    next
      case (Inr data)
      have "length data \<le> readFd_capacity (inputBuffer conn)"
        using spec rv Inr unfolding receive_spec_def readv_spec_def by (fastforce split: prod.splits sum.splits)
      note res = readFd_result[OF inv this]
      show ?thesis
      proof (cases "readFd (Inr data) (inputBuffer conn)")
        case (Inl e)
        then show ?thesis using res Inr p conn up t sys by (simp add: handleRead_def)
      next
        case (Inr r)
        obtain n err b where r: "r = (n, err, b)" by (cases r)
        have nb: "n = int (length data)" "buffer_inv b" using res Inr r by auto
        have "handleRead os (bench_call os cur) cur p w = (if data = [] then handleClose os (bench_call os cur) cur p (?v b)
            else call_conn (bench_call os cur) (messageCallback conn) p (?v b))"
          using \<open>rv = Inr data\<close> Inr r nb(1) p conn up t sys by (simp add: handleRead_def)
        then show ?thesis using close[OF nb(2)] msg[OF nb(2)] by (simp add: returns_result_in)
      qed
    qed
  qed
  have "conn_state conn = kConnected" if "isReading ch" using that parts st by (auto simp: conn_parts_ok_def isReading_def)
  then show ?thesis using p conn ch ok rd by (auto simp: bench_invoke_simps)
qed

section \<open>Every interleaving\<close>

lemma user_ok:
  fixes w :: "('k, 'z) bench_world_scheme"
  assumes "write_spec os sent" "bench_ok sent u p fd whole w" "me \<noteq> tid w" "0 < user_steps w"
  shows "returns (user_step os me u w) (\<lambda>w'. bench_ok sent u p fd whole w' \<and> tid w' = tid w \<and> Suc (user_steps w') = user_steps w)"
proof (cases "upc w = U_new")
  case True
  then show ?thesis by (rule user_new_ok[OF assms(2)])
next
  case False
  then have pc: "upc w = U_loop" using assms(2) by (auto simp: bench_ok_def)
  then obtain line lines where "stdin w = line # lines" using assms(4) by (cases "stdin w") (auto simp: user_steps_def)
  then show ?thesis by (rule user_line_ok[OF assms(1,2) pc _ assms(3)])
qed

lemma bench_act_ok:
  fixes w :: "('k, 'z) bench_world_scheme"
  assumes spec: "write_spec os sent" "receive_spec os sent" and alive: "\<And>d k. \<not> write_broken os fd d k"
    and ok: "bench_ok sent u p fd whole w" and t: "tid w = cur" "me \<noteq> cur" and left: "a = User \<Longrightarrow> 0 < user_steps w"
  shows "result_in {LengthError} (bench_act os cur me u p a w) (\<lambda>w'. bench_ok sent u p fd whole w' \<and> tid w' = cur \<and>
    user_steps w = user_steps w' + (if a = User then 1 else 0))"
proof (cases a)
  case User
  then show ?thesis using user_ok[OF spec(1) ok, of me] t left by (auto simp: returns_iff)
next
  case Take
  then show ?thesis using take_ok[OF ok] t by (auto simp: returns_iff)
next
  case Task
  then show ?thesis using task_ok[OF spec(1) alive ok t(1), of me] t by (auto elim!: result_in_mono)
next
  case Writable
  then show ?thesis using writable_ok[OF spec(1) ok t(1), of me] t by (auto simp: returns_iff)
next
  case Readable
  then show ?thesis using readable_ok[OF spec(2) ok t(1), of me] t by (auto elim!: result_in_mono)
qed

lemma bench_run_ok:
  fixes w :: "('k, 'z) bench_world_scheme"
  assumes spec: "write_spec os sent" "receive_spec os sent" and alive: "\<And>d k. \<not> write_broken os fd d k" and me: "me \<noteq> cur"
  shows "bench_ok sent u p fd whole w \<Longrightarrow> tid w = cur \<Longrightarrow> count_list acts User \<le> user_steps w \<Longrightarrow>
    result_in {LengthError} (rfold (bench_act os cur me u p) acts w) (bench_ok sent u p fd whole)"
proof (induction acts arbitrary: w)
  case (Cons a acts)
  have "result_in {LengthError} (bench_act os cur me u p a w) (\<lambda>w'. bench_ok sent u p fd whole w' \<and> tid w' = cur \<and>
      user_steps w = user_steps w' + (if a = User then 1 else 0))"
    by (rule bench_act_ok[OF spec alive Cons.prems(1,2) me]) (use Cons.prems(3) in auto)
  then show ?case
    unfolding rfold.simps by (rule result_in_rbind) (rule Cons.IH, use Cons.prems(3) in \<open>auto split: if_splits\<close>)
qed simp

text \<open>
  The connection is up, its callbacks are those that \<open>newConnection\<close> has set, nothing is queued, and
  \<open>onConnection\<close> has just started the thread, which will read \<open>lines\<close>.
\<close>

definition bench_begins :: "nat \<Rightarrow> string list \<Rightarrow> ('k, 'z) bench_world_scheme \<Rightarrow> bool" where
  "bench_begins p lines w \<longleftrightarrow> conn_ok p w \<and> user_conn w = p \<and> upc w = U_new \<and> stdin w = lines \<and> batch w = [] \<and> pendingTasks w = [] \<and>
     \<not> quit w \<and> connection (client w) \<noteq> None \<and> client_connectionCallback (client w) = Some (UserConnCallback 0) \<and>
     (\<exists>conn. conns w p = Some conn \<and> conn_state conn = kConnected \<and> plain conn \<and> closeCallback conn = Some TcpClient_closeConnection_cb \<and>
        messageCallback conn = Some DefaultMessageCallback)"


section \<open>After the thread has left\<close>

text \<open>
  The \<open>UserInput\<close> is a local variable of the thread, but the connection keeps the callback that is bound
  to it: data that arrives after \<open>run\<close> has returned is given to a destroyed object.
\<close>

lemma message_after_run:
  assumes "upc w = U_leave" "conns w p = Some conn" "messageCallback conn = Some (UserConnCallback (Suc u))"
  shows "rbind (user_step os me u w) (call_conn (bench_call os cur) (messageCallback conn) p) = Inl UseAfterFree"
  using assms by (simp add: user_step_def call_conn_def client_call_def app_call_def bench_user_def UserInput_onMessage_def)

section \<open>Witness\<close>

text \<open>Two lines; the thread sends the first, the loop runs it, and data arrives in between.\<close>

definition sample_bench :: "sample_kernel bench_world" where
  "sample_bench = put_conn 20 (sample_conn\<lparr>closeCallback := Some TcpClient_closeConnection_cb\<rparr>)
     (client_world.extend
       (conn_world.extend sample_world (client_world.fields Map.empty
         \<lparr>client_connected = True, client_peer = InetAddress_new 80 True, retryTimer = 0, connector = 40, connection = Some 20,
          client_connectionCallback = Some (UserConnCallback 0), client_messageCallback = Some DefaultMessageCallback,
          client_writeCompleteCallback = None\<rparr>))
       (bench_world.fields Map.empty [''ab'', ''c''] [] U_new 20 []))"

lemma sample_bench_simps [simp]:
  "conns sample_bench 20 = Some (sample_conn\<lparr>closeCallback := Some TcpClient_closeConnection_cb\<rparr>)" "tid sample_bench = 1" "wakeupfd sample_bench = 4"
  "channels sample_bench 21 = Some ((Channel_new 7)\<lparr>pooling := True, ch_events := EPOLLIN OR EPOLLPRI\<rparr>)"
  "kernel sample_bench = sample_state" "pendingTasks sample_bench = []" "quit sample_bench = False"
  "user_conn sample_bench = 20" "upc sample_bench = U_new" "stdin sample_bench = [''ab'', ''c'']" "batch sample_bench = []"
  "connection (client sample_bench) = Some 20" "client_connectionCallback (client sample_bench) = Some (UserConnCallback 0)"
  by (simp_all add: sample_bench_def sample_world_def put_channel_def put_conn_def conn_world.defs client_world.defs bench_world.defs
      sample_loop_def EventLoop.defs)

lemma sample_bench_begins: "bench_begins 20 [''ab'', ''c''] sample_bench"
  by (simp add: bench_begins_def conn_ok_def sample_conn_def conn_parts_ok_def sample_buffer_inv Channel_new_def isWriting_def
      epoll_masks sample_buffer_empty plain_def)

lemma sample_receive: "receive_spec sample_os sk_sent"
  using sample_readv by (simp add: receive_spec_def)


end
