(* ===== verification/Server_Connections.thy ===== *)
theory Server_Connections
  imports TcpServerSingle Connection_Dispatch
begin

unbundle bit_operations_syntax

text \<open>
  The connections of a server at work: \<open>TcpServerSingle\<close> as a user of \<open>TcpConnection\<close>. What a handler or a
  task of one connection may change (the contract of \<open>Connection_Dispatch\<close>), and that sending, closing
  with the server's \<open>closeConnection\<close>, and every task the library queues keep to it.
\<close>

section \<open>What belongs to a connection of the server\<close>

definition user_cb :: "conn_callback \<Rightarrow> bool" where
  "user_cb cb = (case cb of UserConnCallback n \<Rightarrow> True | _ \<Rightarrow> False)"

text \<open>The tasks the library queues for connection \<open>p\<close> when all calls come from the thread of the loop.\<close>

fun conn_task :: "nat \<Rightarrow> closure \<Rightarrow> bool" where
  "conn_task p (TcpConnection_sendInLoop_fn q data) \<longleftrightarrow> q = p \<and> length data \<le> max_size"
| "conn_task p (TcpConnection_shutdownInLoop_fn q) \<longleftrightarrow> q = p"
| "conn_task p (TcpConnection_forceCloseInLoop_fn q) \<longleftrightarrow> q = p"
| "conn_task p (WriteComplete_fn cb q) \<longleftrightarrow> q = p \<and> user_cb cb"
| "conn_task p (HighWaterMark_fn cb q n) \<longleftrightarrow> q = p \<and> user_cb cb"
| "conn_task p _ \<longleftrightarrow> False"

text \<open>
  The callbacks of the connection are those the server has set and the application may set, and the
  connection is in the server's set exactly while it is up.
\<close>

definition server_callbacks :: "TcpConnection \<Rightarrow> bool" where
  "server_callbacks conn \<longleftrightarrow> closeCallback conn = Some TcpServerSingle_closeConnection_cb \<and>
     (messageCallback conn = Some DefaultMessageCallback \<or> pred_option user_cb (messageCallback conn)) \<and>
     pred_option user_cb (writeCompleteCallback conn) \<and> pred_option user_cb (highWaterMarkCallback conn)"

definition served :: "nat \<Rightarrow> ('k, 'z) server_world_scheme \<Rightarrow> bool" where
  "served p w \<longleftrightarrow> app_callback (server_connectionCallback (server w)) \<and>
     (case conns w p of None \<Rightarrow> False
      | Some conn \<Rightarrow> server_callbacks conn \<and> (p \<in> connections (server w) \<longleftrightarrow> is_up (conn_state conn)))"

text \<open>What a handler of connection \<open>p\<close> may change of the world.\<close>

definition serves :: "nat \<Rightarrow> ('k, 'z) server_world_scheme \<Rightarrow> ('k, 'z) server_world_scheme \<Rightarrow> bool" where
  "serves p w w' \<longleftrightarrow>
     (\<forall>q. q \<noteq> p \<longrightarrow> conns w' q = conns w q) \<and> (conns w' p = None \<longleftrightarrow> conns w p = None) \<and> channel_of p w' = channel_of p w \<and>
     (\<forall>c. c \<noteq> channel_of p w \<longrightarrow> channels w' c = channels w c) \<and>
     wakeupfd w' = wakeupfd w \<and> wakeupChannel w' = wakeupChannel w \<and> timerChannel (timerQueue w') = timerChannel (timerQueue w) \<and>
     (\<exists>ps. server w' = (server w)\<lparr>connections := ps\<rparr> \<and> ps - {p} = connections (server w) - {p}) \<and>
     (\<exists>ts. pendingTasks w' = pendingTasks w @ ts \<and> list_all (conn_task p) ts) \<and>
     (served p w \<longrightarrow> served p w')"

lemma servesI:
  assumes "\<And>q. q \<noteq> p \<Longrightarrow> conns w' q = conns w q" "conns w' p = None \<longleftrightarrow> conns w p = None" "channel_of p w' = channel_of p w"
    "\<And>c. c \<noteq> channel_of p w \<Longrightarrow> channels w' c = channels w c" "wakeupfd w' = wakeupfd w" "wakeupChannel w' = wakeupChannel w"
    "timerChannel (timerQueue w') = timerChannel (timerQueue w)" "server w' = (server w)\<lparr>connections := ps\<rparr>" "ps - {p} = connections (server w) - {p}"
    "pendingTasks w' = pendingTasks w @ ts" "list_all (conn_task p) ts" "served p w \<Longrightarrow> served p w'"
  shows "serves p w w'"
  using assms unfolding serves_def by blast

lemma serves_trans:
  assumes "serves p w w1" "serves p w1 w2"
  shows "serves p w w2"
proof -
  obtain ps ts where 1: "server w1 = (server w)\<lparr>connections := ps\<rparr>" "ps - {p} = connections (server w) - {p}"
    "pendingTasks w1 = pendingTasks w @ ts" "list_all (conn_task p) ts" using assms(1) by (auto simp: serves_def)
  obtain qs us where 2: "server w2 = (server w1)\<lparr>connections := qs\<rparr>" "qs - {p} = connections (server w1) - {p}"
    "pendingTasks w2 = pendingTasks w1 @ us" "list_all (conn_task p) us" using assms(2) by (auto simp: serves_def)
  show ?thesis
    by (rule servesI[where ps = qs and ts = "ts @ us"]) (use assms 1 2 in \<open>simp_all add: serves_def\<close>)
qed

lemma channel_of_eq: "conns w p = Some conn \<Longrightarrow> channel_of p w = conn_channel conn"
  by (simp add: channel_of_def)

lemma serves_same:
  assumes "conns w' = conns w" "channels w' = channels w" "wakeupfd w' = wakeupfd w" "wakeupChannel w' = wakeupChannel w"
    "server w' = server w" "pendingTasks w' = pendingTasks w" "timerQueue w' = timerQueue w"
  shows "serves p w w'"
  by (rule servesI[where ps = "connections (server w)" and ts = "[]"]) (use assms in \<open>simp_all add: channel_of_def served_def split: option.splits\<close>)

lemma serves_put_conn:
  assumes "conns w p = Some conn" "conn_channel conn' = conn_channel conn" "is_up (conn_state conn') = is_up (conn_state conn)"
    "server_callbacks conn \<Longrightarrow> server_callbacks conn'"
  shows "serves p w (put_conn p conn' w)"
  by (rule servesI[where ps = "connections (server w)" and ts = "[]"])
    (use assms in \<open>simp_all add: channel_of_def served_def put_conn_def\<close>)

lemma serves_put_channel:
  assumes "conns w p = Some conn"
  shows "serves p w (put_channel (conn_channel conn) ch w)"
  by (rule servesI[where ps = "connections (server w)" and ts = "[]"])
    (use assms in \<open>simp_all add: channel_of_def served_def put_channel_def\<close>)

lemma serves_sys: "serves p w (snd (sys f w))"
  by (rule serves_same) (simp_all add: sys_def case_prod_beta)

lemma serves_interest:
  assumes "conns w p = Some conn"
  shows "serves p w (with_interest os (conn_channel conn) ch ev w)"
  by (rule servesI[where ps = "connections (server w)" and ts = "[]"])
    (use assms in \<open>simp_all add: channel_of_def served_def with_interest_def put_channel_def\<close>)

lemma serves_queue:
  assumes "conn_task p t"
  shows "serves p w (queueInLoop os cur t w)"
proof -
  have "server (queueInLoop os cur t w) = server w" "wakeupChannel (queueInLoop os cur t w) = wakeupChannel w"
    by (simp_all add: queueInLoop_def queueInLoop_wake_def queueInLoop_push_def EventLoop_wakeup_def sys_def case_prod_beta)
  then show ?thesis
    by (intro servesI[where ps = "connections (server w)" and ts = "[t]"])
      (use assms in \<open>simp_all add: channel_of_def served_def split: option.splits\<close>)
qed

lemma serves_writeComplete:
  assumes "served p w" "conns w p = Some conn" "writeCompleteCallback conn' = writeCompleteCallback conn"
  shows "serves p w (queue_writeComplete os cur p conn' w)"
proof (cases "writeCompleteCallback conn'")
  case None
  then show ?thesis by (simp add: queue_writeComplete_def serves_same)
next
  case (Some cb)
  then have "user_cb cb" using assms by (auto simp: served_def server_callbacks_def)
  then show ?thesis using Some by (simp add: queue_writeComplete_def serves_queue)
qed

lemmas serves_blocks = serves_put_conn serves_put_channel serves_sys serves_interest serves_queue serves_writeComplete

section \<open>Sending\<close>

lemma handleWrite_serves:
  assumes spec: "write_spec os sent" and ok: "conn_ok p w" and sv: "served p w" and t: "tid w = cur" and conn: "conns w p = Some conn"
    and ready: "conn_state conn = kDisconnected \<or> conn_state conn \<noteq> kConnecting \<and> content (outputBuffer conn) \<noteq> []"
    and run: "handleWrite os cur p w = Inr w'"
  shows "serves p w w'"
proof (cases "conn_state conn = kDisconnected")
  case True
  have "p \<noteq> 0" using ok by (auto elim: conn_okE)
  then show ?thesis using True conn run by (simp add: handleWrite_def serves_same)
next
  case False
  then have up: "conn_state conn = kConnected \<or> conn_state conn = kDisconnecting" and out: "content (outputBuffer conn) \<noteq> []"
    using ready by (cases "conn_state conn", auto)+
  from ok conn obtain ch where p: "p \<noteq> 0" and ch: "channels w (conn_channel conn) = Some ch"
    and parts: "conn_parts_ok (wakeupfd w) conn ch" by (auto elim: conn_okE)
  obtain r w1 where w1: "sys (sys_write os (sockfd conn) (content (outputBuffer conn))) w = (r, w1)" by fastforce
  have k: "sys_write os (sockfd conn) (content (outputBuffer conn)) (kernel w) = (r, kernel w1)" and conns1: "conns w1 = conns w"
    using w1 by (auto simp: sys_def case_prod_beta)
  have n: "n \<le> length (content (outputBuffer conn))" if "r = Inr n" for n
    using write_specD(2)[OF spec] k that by blast
  have s1: "serves p w w1" using serves_sys[of p w] w1 by (metis snd_conv)
  show ?thesis
  proof (cases r)
    case (Inl e)
    then show ?thesis using handleWrite_eq[OF p conn ch t parts up out w1 n] run s1 by simp
  next
    case (Inr n)
    then obtain b where w': "w' = (if content b = [] then drained os cur p (conn\<lparr>outputBuffer := b\<rparr>) ch w1 else put_conn p (conn\<lparr>outputBuffer := b\<rparr>) w1)"
      using handleWrite_eq[OF p conn ch t parts up out w1 n] run by auto
    let ?conn = "conn\<lparr>outputBuffer := b\<rparr>"
    let ?w2 = "put_conn p ?conn w1"
    let ?w3 = "with_interest os (conn_channel ?conn) ch (ch_events ch AND NOT EPOLLOUT) ?w2"
    let ?w4 = "if conn_state conn = kDisconnecting then snd (sys (sys_shutdown_wr os (sockfd conn)) ?w3) else ?w3"
    have s2: "serves p w ?w2"
      by (rule serves_trans[OF s1], rule serves_put_conn[where conn = conn]) (use conn conns1 in \<open>auto simp: server_callbacks_def\<close>)
    have s3: "serves p w ?w3" by (rule serves_trans[OF s2], rule serves_interest) simp
    have "serves p ?w3 (snd (sys (sys_shutdown_wr os (sockfd conn)) ?w3))" by (rule serves_sys)
    then have s4: "serves p w ?w4" using s3 by (auto intro: serves_trans)
    have "serves p ?w4 (queue_writeComplete os cur p ?conn ?w4)"
      by (rule serves_writeComplete[where conn = ?conn]) (use s4 sv in \<open>auto simp: serves_def\<close>)
    from serves_trans[OF s4 this] have "serves p w (drained os cur p ?conn ch w1)"
      by (cases "conn_state conn = kDisconnecting") (simp_all add: drained_def Let_def)
    then show ?thesis using w' s2 by simp
  qed
qed

text \<open>The contract of \<open>Connection_Dispatch\<close>, for the connections of a server.\<close>

interpretation server_dispatch: dispatch_frame served serves
proof unfold_locales
  show "serves p w w1 \<Longrightarrow> serves p w1 w2 \<Longrightarrow> serves p w w2" for p and w w1 w2 :: "('k, 'z) server_world_scheme" by (rule serves_trans)
  show "serves p w w' \<Longrightarrow> served p w \<Longrightarrow> served p w'" for p and w w' :: "('k, 'z) server_world_scheme" by (simp add: serves_def)
  show "serves p w (w\<lparr>kernel := k\<rparr>)" for p and w :: "('k, 'z) server_world_scheme" and k by (rule serves_same) simp_all
qed (auto intro: serves_put_conn serves_put_channel handleWrite_serves simp: server_callbacks_def)

lemma sendInLoop_buffer_step:
  assumes ok: "conn_ok p w" and sv: "served p w" and t: "tid w = cur" and conn: "conns w p = Some conn"
    and n: "n < length data" "length data \<le> max_size"
    and run: "sendInLoop_buffer os cur p data n conn w = Inr w'"
  shows "serves p w w' \<and> view_of p w' = view_of p w \<and> has_output p w'"
proof -
  obtain ch where p: "p \<noteq> 0" and ch: "channels w (conn_channel conn) = Some ch" and c: "conn_channel conn \<noteq> 0"
    and inv: "buffer_inv (outputBuffer conn)"
    using ok conn by (auto elim!: conn_okE simp: conn_parts_ok_def)
  let ?q = "\<lambda>cb. HighWaterMark_fn cb p (size_add (readableBytes (outputBuffer conn)) (size_sub (length data) n))"
  obtain w1 b where w1: "w1 = w \<or> (\<exists>cb. highWaterMarkCallback conn = Some cb \<and> w1 = queueInLoop os cur (?q cb) w)"
    and b: "Buffer_append (drop n data) (outputBuffer conn) = Inr b"
    and w': "enableWrite os cur (conn_channel conn) (put_conn p (conn\<lparr>outputBuffer := b\<rparr>) w1) = Inr w'"
    using run by (auto simp: sendInLoop_buffer_def Let_def rbind_eq_Inr split: option.splits if_splits)
  have out: "content b \<noteq> []" using buf.enqueue_Inr[OF inv _ b] n by simp
  have "pred_option user_cb (highWaterMarkCallback conn)" using sv conn by (simp add: served_def server_callbacks_def)
  then have s1: "serves p w w1" using w1 by (auto intro: serves_queue serves_same)
  have same: "conns w1 = conns w" "channels w1 = channels w" "tid w1 = tid w" using w1 by auto
  let ?w2 = "put_conn p (conn\<lparr>outputBuffer := b\<rparr>) w1"
  have s2: "serves p w ?w2"
    by (rule serves_trans[OF s1], rule serves_put_conn[where conn = conn]) (use conn same in \<open>auto simp: server_callbacks_def\<close>)
  have w'': "w' = with_interest os (conn_channel conn) ch (ch_events ch OR EPOLLOUT) ?w2"
    using enableWrite.interest_ok[of ?w2 cur "conn_channel conn" ch os] w' ch c t same mask_nonzero(2)[of "ch_events ch"] by simp
  have "serves p ?w2 w'" unfolding w'' using serves_interest[of ?w2 p "conn\<lparr>outputBuffer := b\<rparr>"] by simp
  moreover have "view_of p w' = view_of p w" using w'' conn ch same by (simp add: view_of_def chan_view_def dispatch_view_def)
  ultimately show ?thesis using serves_trans[OF s2] out w'' by (simp add: has_output_def)
qed

text \<open>The two halves of \<open>sendInLoop\<close>, in a state where the connection is up.\<close>

lemma sendInLoop_write_step:
  assumes spec: "write_spec os sent" and sv: "served p w" and conn: "conns w p = Some conn"
    and run: "sendInLoop_write os cur p data conn w = (n, faultError, w1)"
  shows "serves p w w1 \<and> n \<le> length data \<and> conns w1 = conns w \<and> channels w1 = channels w \<and> tid w1 = tid w \<and> wakeupfd w1 = wakeupfd w"
proof -
  obtain r w2 where w2: "sys (sys_write os (sockfd conn) data) w = (r, w2)" by fastforce
  have eq: "w2 = snd (sys (sys_write os (sockfd conn) data) w)" using w2 by simp
  have s: "serves p w w2" unfolding eq by (rule serves_sys)
  have k: "sys_write os (sockfd conn) data (kernel w) = (r, kernel w2)" using w2 by (auto simp: sys_def case_prod_beta)
  have n: "m \<le> length data" if "r = Inr m" for m
    using write_specD(2)[OF spec, of "sockfd conn" data "kernel w" m "kernel w2"] k that by simp
  have "serves p w2 (queue_writeComplete os cur p conn w2)"
    by (rule serves_writeComplete[where conn = conn]) (use s sv conn eq in \<open>auto simp: serves_def\<close>)
  then have "serves p w (queue_writeComplete os cur p conn w2)" by (rule serves_trans[OF s])
  moreover have "conns w2 = conns w" "channels w2 = channels w" "tid w2 = tid w" "wakeupfd w2 = wakeupfd w" by (simp_all add: eq)
  ultimately show ?thesis using run w2 s n by (cases r) (auto simp: sendInLoop_write_def split: if_splits)
qed

lemma view_of_cong: "conns w' = conns w \<Longrightarrow> channels w' = channels w \<Longrightarrow> view_of p w' = view_of p w"
  by (simp add: view_of_def split: option.split)

lemma has_output_cong: "conns w' = conns w \<Longrightarrow> has_output p w' = has_output p w"
  by (simp add: has_output_def)

lemma sendInLoop_serves:
  assumes spec: "write_spec os sent" and ok: "conn_ok p w" and sv: "served p w" and t: "tid w = cur"
    and st: "state_of p w \<noteq> kConnecting" and len: "length data \<le> max_size" and run: "sendInLoop os cur p data w = Inr w'"
  shows "serves p w w' \<and> view_of p w' = view_of p w \<and> (has_output p w \<longrightarrow> has_output p w')"
proof -
  obtain conn ch where p: "p \<noteq> 0" and conn: "conns w p = Some conn" and ch: "channels w (conn_channel conn) = Some ch"
    and parts: "conn_parts_ok (wakeupfd w) conn ch" using conn_okE[OF ok] .
  have c: "conn_channel conn \<noteq> 0" using parts by (simp add: conn_parts_ok_def)
  have same: "serves p w w" by (rule serves_same) simp_all
  note pre = p conn ch c t
  consider "conn_state conn = kDisconnected" | "conn_state conn \<noteq> kDisconnected" "isWriting ch" "data = []"
    | "conn_state conn \<noteq> kDisconnected" "isWriting ch" "data \<noteq> []" | "conn_state conn \<noteq> kDisconnected" "\<not> isWriting ch" by blast
  then show ?thesis
  proof cases
    case 3
    then have "sendInLoop_buffer os cur p data 0 conn w = Inr w'" using run pre len by (simp add: sendInLoop_def size_sub_data)
    from sendInLoop_buffer_step[OF ok sv t conn _ len this] show ?thesis using 3(3) by simp
  next
    case 4
    obtain n faultError w1 where w1: "sendInLoop_write os cur p data conn w = (n, faultError, w1)" by (metis prod_cases3)
    note wr = sendInLoop_write_step[OF spec sv conn w1]
    have next_w: "w' = w1 \<or> n < length data \<and> sendInLoop_buffer os cur p data n conn w1 = Inr w'"
      using run 4 pre w1 len size_sub_data[of n data] wr by (auto simp: sendInLoop_def rbind_eq_Inr split: if_splits)
    have "conn_ok p w1" "served p w1" "tid w1 = cur" "conns w1 p = Some conn"
      using wr ok sv t conn conn_ok_cong[of w1 p w] by (auto simp: serves_def)
    from sendInLoop_buffer_step[OF this _ len, of n os w'] show ?thesis
      using next_w wr view_of_cong[of w1 w p] has_output_cong[of w1 w p] by (auto intro: serves_trans)
  qed (use run pre same size_sub_data[of 0 "[]"] in \<open>simp_all add: sendInLoop_def\<close>)
qed

lemma sendInLoop_step:
  assumes "write_spec os sent" and "conn_ok p w" and "served p w" and "tid w = cur" and "state_of p w \<noteq> kConnecting" and "length data \<le> max_size"
  shows "result_in {LengthError} (sendInLoop os cur p data w) (dispatch_step serves p w)"
  by (rule result_in_mono[OF sendInLoop_ok[OF assms(1,4,2,5,6)] order_refl])
    (use sendInLoop_serves[OF assms] in \<open>auto simp: dispatch_step_def send_post_def sends_from_def conn_forward_def\<close>)

section \<open>The application\<close>

text \<open>
  What a callback of the application may do with the connection it is given: anything that keeps the
  connection's invariant and moves it forward (\<open>send\<close>, \<open>shutdown\<close>, \<open>forceClose\<close>), without touching other
  connections; or end in a fault of \<open>E\<close>.
\<close>

definition good_app ::
  "fault set \<Rightarrow> nat \<Rightarrow> (nat \<Rightarrow> nat \<Rightarrow> ('k, 'z) server_op) \<Rightarrow> (conn_callback \<Rightarrow> nat \<Rightarrow> nat \<Rightarrow> ('k, 'z) server_op) \<Rightarrow> bool"
where
  "good_app E cur user hwm \<longleftrightarrow>
     (\<forall>p w. conn_ok p w \<and> tid w = cur \<and> served p w \<and> state_of p w \<noteq> kConnecting \<longrightarrow>
        (\<forall>n. result_in E (user n p w) (dispatch_step serves p w)) \<and>
        (\<forall>cb n. result_in E (hwm cb p n w) (dispatch_step serves p w)))"

lemma good_appD:
  assumes "good_app E cur user hwm" "conn_ok p w" "tid w = cur" "served p w" "state_of p w \<noteq> kConnecting"
  shows "result_in E (user n p w) (dispatch_step serves p w)" "result_in E (hwm cb p n w) (dispatch_step serves p w)"
  using assms unfolding good_app_def by blast+

lemma step_refl: "conn_ok p w \<Longrightarrow> dispatch_step serves p w w"
  by (rule dispatch_step_same) (simp_all add: serves_same)

lemma input_step:
  assumes ok: "conn_ok p w" and conn: "conns w p = Some conn" and inv: "buffer_inv b"
  shows "dispatch_step serves p w (put_conn p (conn\<lparr>inputBuffer := b\<rparr>) w)" (is "dispatch_step serves p w ?w")
proof -
  obtain ch where p: "p \<noteq> 0" and ch: "channels w (conn_channel conn) = Some ch" and parts: "conn_parts_ok (wakeupfd w) conn ch"
    using ok conn by (auto elim!: conn_okE)
  have "conn_ok p ?w"
    by (rule conn_okI[OF p, where conn = "conn\<lparr>inputBuffer := b\<rparr>" and ch = ch])
      (use parts ch inv in \<open>auto simp: conn_parts_ok_def split: ConnectState.splits\<close>)
  moreover have "serves p w ?w" by (rule serves_put_conn[OF conn]) (simp_all add: server_callbacks_def)
  ultimately show ?thesis using conn ch by (simp add: dispatch_step_def conn_forward_def view_of_def has_output_def state_of_def)
qed

lemma app_call_step:
  assumes app: "good_app E cur user hwm" and ok: "conn_ok p w" and t: "tid w = cur" and sv: "served p w" and st: "state_of p w \<noteq> kConnecting"
    and cb: "app_callback (Some cb) \<or> user_cb cb \<or> cb = DefaultMessageCallback"
  shows "result_in E (app_call user cb p w) (dispatch_step serves p w)"
proof (cases cb)
  case DefaultConnectionCallback
  obtain conn where "conns w p = Some conn" "p \<noteq> 0" using ok by (auto elim: conn_okE)
  then show ?thesis using DefaultConnectionCallback step_refl[OF ok] by (simp add: app_call_def defaultConnectionCallback_def)
next
  case DefaultMessageCallback
  obtain conn where conn: "conns w p = Some conn" "p \<noteq> 0" "buffer_inv (inputBuffer conn)"
    using ok by (auto elim!: conn_okE simp: conn_parts_ok_def)
  then have "buffer_inv (retrieveAll (inputBuffer conn))" by (simp add: buffer_inv_def retrieveAll_def)
  from input_step[OF ok conn(1) this] show ?thesis
    using DefaultMessageCallback conn by (simp add: app_call_def defaultMessageCallback_def modify_conn_def)
qed (use cb good_appD(1)[OF app ok t sv st] in \<open>simp_all add: app_call_def app_callback_def user_cb_def\<close>)

section \<open>Closing, and the tasks of a connection\<close>

lemma kDisconnected_last: "kDisconnected \<le> s \<longleftrightarrow> s = kDisconnected"
  by (cases s) (simp_all add: less_eq_ConnectState_def)

text \<open>The world \<open>closeConnection\<close> hands to the connection callback.\<close>

lemma closed_step:
  fixes os :: "'k os" and w :: "('k, 'z) server_world_scheme"
  assumes conn: "conns w p = Some conn" and ch: "channels w (conn_channel conn) = Some ch" and p: "p \<noteq> 0" and t: "tid w = cur"
    and parts: "conn_parts_ok (wakeupfd w) conn ch" and st: "is_up (conn_state conn)" and sv: "served p w"
  defines "w3 \<equiv> set_connections (connections (server w) - {p}) (with_interest os (conn_channel conn) ch 0 (put_conn p (conn\<lparr>conn_state := kDisconnected\<rparr>) w))"
  shows "dispatch_step serves p w w3" "served p w3" "conn_ok p w3"
    "handleClose os (server_call user cur) cur p w = call_conn (app_call user) (server_connectionCallback (server w)) p w3"
proof -
  let ?w2 = "with_interest os (conn_channel conn) ch 0 (put_conn p (conn\<lparr>conn_state := kDisconnected\<rparr>) w)"
  have c: "conn_channel conn \<noteq> 0" using parts by (simp add: conn_parts_ok_def)
  note pre = handleClose_prefix[OF p conn ch c t parts st[unfolded is_up_def], where os = os]
  have eqs: "conns w3 = conns ?w2" "channels w3 = channels ?w2" "wakeupfd w3 = wakeupfd ?w2" "tid w3 = tid ?w2" by (simp_all add: w3_def)
  show ok: "conn_ok p w3" using pre(2) conn_ok_cong[of w3 p ?w2] eqs by simp
  have sv': "server_callbacks conn" "p \<in> connections (server w)" "app_callback (server_connectionCallback (server w))"
    using sv conn st by (auto simp: served_def)
  then show sv3: "served p w3" by (simp add: served_def w3_def server_callbacks_def is_up_def)
  have "serves p w w3"
    by (rule servesI[where ps = "connections (server w) - {p}" and ts = "[]"])
      (use conn sv3 in \<open>simp_all add: w3_def channel_of_def set_connections_def with_interest_def put_channel_def put_conn_def\<close>)
  moreover have "state_of p w3 = kDisconnected" by (simp add: w3_def state_of_def)
  moreover have "view_of p w3 = view_of p w" using pre(3) view_of_cong[OF eqs(1,2)] by simp
  ultimately show "dispatch_step serves p w w3"
    using ok pre(4) eqs(4) kDisconnected_last by (cases "state_of p w") (auto simp: dispatch_step_def conn_forward_def less_eq_ConnectState_def)
  have "closeConnection (app_call user) cur p ?w2 = call_conn (app_call user) (server_connectionCallback (server w)) p w3"
    using sv' t by (simp add: closeConnection_def w3_def set_connections_def)
  then show "handleClose os (server_call user cur) cur p w = call_conn (app_call user) (server_connectionCallback (server w)) p w3"
    using pre(1)[of "server_call user cur"] sv'(1) by (simp add: server_callbacks_def call_conn_def[of "server_call user cur"] server_call_def)
qed

lemma server_close_step:
  assumes app: "good_app E cur user hwm" and ok: "conn_ok p w" and t: "tid w = cur" and sv: "served p w" and up: "is_up (state_of p w)"
  shows "result_in E (handleClose os (server_call user cur) cur p w) (\<lambda>w'. dispatch_step serves p w w' \<and> state_of p w' = kDisconnected)"
proof -
  obtain conn ch where c: "p \<noteq> 0" "conns w p = Some conn" "channels w (conn_channel conn) = Some ch" "conn_parts_ok (wakeupfd w) conn ch"
    using conn_okE[OF ok] .
  have up': "is_up (conn_state conn)" using up c by (simp add: state_of_def)
  let ?w3 = "set_connections (connections (server w) - {p}) (with_interest os (conn_channel conn) ch 0 (put_conn p (conn\<lparr>conn_state := kDisconnected\<rparr>) w))"
  note cl = closed_step[OF c(2,3,1) t c(4) up' sv, where os = os]
  obtain cb where cb: "server_connectionCallback (server w) = Some cb" "app_callback (Some cb)"
    using sv by (cases "server_connectionCallback (server w)") (auto simp: served_def app_callback_def)
  have st: "state_of p ?w3 = kDisconnected" by (simp add: state_of_def)
  have "result_in E (app_call user cb p ?w3) (dispatch_step serves p ?w3)"
    by (rule app_call_step[OF app cl(3) _ cl(2)]) (use t st cb(2) in auto)
  then have "result_in E (app_call user cb p ?w3) (\<lambda>w'. dispatch_step serves p w w' \<and> state_of p w' = kDisconnected)"
    by (rule result_in_mono) (use st server_dispatch.dispatch_step_trans[OF cl(1)] kDisconnected_last in \<open>auto simp: dispatch_step_def conn_forward_def\<close>)
  then show ?thesis unfolding cl(4) using cb(1) by (simp add: call_conn_def)
qed

lemma server_tame:
  fixes user :: "nat \<Rightarrow> nat \<Rightarrow> ('k, 'z) server_op"
  assumes app: "good_app E cur user hwm"
  shows "tame served serves E os cur p (server_call user cur)"
  unfolding tame_def
proof (intro allI impI conjI; elim conjE)
  fix w :: "('k, 'z) server_world_scheme" and conn assume a: "conn_ok p w" "tid w = cur" "served p w" "is_up (state_of p w)" "conns w p = Some conn"
  then obtain cb where cb: "messageCallback conn = Some cb" "user_cb cb \<or> cb = DefaultMessageCallback"
    using conn_ok_message[OF a(1,5)] by (auto simp: served_def server_callbacks_def)
  have "result_in E (app_call user cb p w) (dispatch_step serves p w)"
    by (rule app_call_step[OF app a(1-3)]) (use a(4) cb(2) in \<open>auto simp: is_up_def\<close>)
  then show "result_in E (call_conn (server_call user cur) (messageCallback conn) p w) (dispatch_step serves p w)"
    using cb by (auto simp: call_conn_def server_call_def user_cb_def split: conn_callback.splits)
qed (rule server_close_step[OF app])

text \<open>Every task the library queues for a connection, run when the connection is up or already closed.\<close>

lemma shutdownInLoop_step:
  assumes ok: "conn_ok p w" and t: "tid w = cur"
  shows "result_in E (shutdownInLoop os cur p w) (dispatch_step serves p w)"
proof -
  obtain conn ch where c: "p \<noteq> 0" "conns w p = Some conn" "channels w (conn_channel conn) = Some ch" "conn_parts_ok (wakeupfd w) conn ch"
    using conn_okE[OF ok] .
  have "dispatch_step serves p w (snd (sys (sys_shutdown_wr os (sockfd conn)) w))"
    by (rule dispatch_step_same[OF ok]) (simp_all add: serves_sys)
  then show ?thesis
    using shutdownInLoop_eq[OF c(1,2) _ c(3) t, of os] c(4) step_refl[OF ok] by (simp add: conn_parts_ok_def)
qed

lemma conn_task_step:
  assumes app: "good_app E cur user hwm" and spec: "write_spec os sent" and ok: "conn_ok p w" and t: "tid w = cur" and sv: "served p w"
    and st: "state_of p w \<noteq> kConnecting" and task: "conn_task p task"
  shows "result_in (insert LengthError E) (conn_invoke os (server_call user cur) hwm other cur task w) (dispatch_step serves p w)"
proof -
  obtain conn where conn: "conns w p = Some conn" "p \<noteq> 0" using ok by (auto elim: conn_okE)
  have up: "is_up (state_of p w)" if "state_of p w \<noteq> kDisconnected" using that st by (cases "state_of p w") (auto simp: is_up_def)
  have call: "server_call user cur cb p w = app_call user cb p w" if "user_cb cb" for cb
    using that by (auto simp: server_call_def user_cb_def split: conn_callback.splits)
  show ?thesis
  proof (cases task)
    case (TcpConnection_sendInLoop_fn q data)
    then have q: "q = p" "length data \<le> max_size" using task by simp_all
    show ?thesis
      using result_in_mono[OF sendInLoop_step[OF spec ok sv t st q(2)], of "insert LengthError E" "dispatch_step serves p w"]
        TcpConnection_sendInLoop_fn q(1) by (simp add: conn_invoke_def)
  next
    case (TcpConnection_shutdownInLoop_fn q)
    then show ?thesis using shutdownInLoop_step[OF ok t] task by (simp add: conn_invoke_def)
  next
    case (TcpConnection_forceCloseInLoop_fn q)
    have "result_in (insert LengthError E) (handleClose os (server_call user cur) cur p w) (dispatch_step serves p w)"
      if "conn_state conn \<noteq> kDisconnected"
      by (rule result_in_mono[OF server_close_step[OF app ok t sv up]]) (use that conn in \<open>auto simp: state_of_def\<close>)
    then show ?thesis
      using TcpConnection_forceCloseInLoop_fn task conn t step_refl[OF ok] by (simp add: conn_invoke_def forceCloseInLoop_def)
  next
    case (WriteComplete_fn cb q)
    then have "user_cb cb" "q = p" using task by simp_all
    then show ?thesis
      using app_call_step[OF app ok t sv st, of cb] WriteComplete_fn by (auto simp: conn_invoke_def call elim!: result_in_mono)
  next
    case (HighWaterMark_fn cb q n)
    then show ?thesis
      using result_in_mono[OF good_appD(2)[OF app ok t sv st, of cb n], of "insert LengthError E" "dispatch_step serves p w"] task
      by (simp add: conn_invoke_def subset_insertI)
  qed (use task in simp_all)
qed

end
