(* ===== verification/Server_World.thy ===== *)
theory Server_World
  imports Server_Connections
begin

unbundle bit_operations_syntax

text \<open>
  The world of a server at work: \<open>EventLoop\<close>, \<open>Channel\<close>, \<open>Acceptor\<close>, \<open>TcpServerSingle\<close> and
  \<open>TcpConnection\<close> together. What the function objects of the loop run, the invariant of the whole, and that
  every event of the eventfd, the listening socket and the connections, and every pending task keeps it. An
  object that is no longer owned stays in the map of the model, since a handler or task of it may still
  be running.
\<close>

section \<open>The function objects of the loop\<close>

text \<open>\<open>alloc\<close> gives the addresses of the next connection and its channel.\<close>

definition server_other ::
  "'k os \<Rightarrow> (nat \<Rightarrow> nat \<Rightarrow> ('k, 'z) server_op) \<Rightarrow> (('k, 'z) server_world_scheme \<Rightarrow> nat \<times> nat) \<Rightarrow>
   (closure \<Rightarrow> ('k, 'z) server_op) \<Rightarrow> nat \<Rightarrow> closure \<Rightarrow> ('k, 'z) server_op"
where
  "server_other os user alloc other cur f w =
     (case f of
        EventLoop_handleRead_fn \<Rightarrow> Inr (EventLoop_handleRead os w)
      | Acceptor_handleRead_fn \<Rightarrow>
          (case alloc w of (p, c) \<Rightarrow> Acceptor_handleRead os (\<lambda>cb. newConnection os (server_call user cur) cur p c) cur w)
      | _ \<Rightarrow> other f w)"

definition server_invoke ::
  "'k os \<Rightarrow> (nat \<Rightarrow> nat \<Rightarrow> ('k, 'z) server_op) \<Rightarrow> (conn_callback \<Rightarrow> nat \<Rightarrow> nat \<Rightarrow> ('k, 'z) server_op) \<Rightarrow>
   (('k, 'z) server_world_scheme \<Rightarrow> nat \<times> nat) \<Rightarrow> (closure \<Rightarrow> ('k, 'z) server_op) \<Rightarrow> nat \<Rightarrow> closure \<Rightarrow> ('k, 'z) server_op"
where
  "server_invoke os user hwm alloc other cur =
     conn_invoke os (server_call user cur) hwm (server_other os user alloc other cur) cur"

section \<open>Invariant\<close>

text \<open>A connection, up or closed, with a channel that calls its handlers.\<close>

definition live :: "nat \<Rightarrow> ('k, 'z) server_world_scheme \<Rightarrow> bool" where
  "live p w \<longleftrightarrow> conn_ok p w \<and> served p w \<and> state_of p w \<noteq> kConnecting \<and>
     (\<exists>ch. channels w (channel_of p w) = Some ch \<and> wired p ch)"

text \<open>A channel of the loop or the acceptor: it is registered, and only reading has a callback.\<close>

definition listens :: "closure \<Rightarrow> nat \<Rightarrow> ('k, 'z) EventLoop_scheme \<Rightarrow> bool" where
  "listens f c w \<longleftrightarrow> c \<noteq> 0 \<and> (\<exists>ch. channels w c = Some ch \<and> pooling ch \<and> \<not> ch_tied ch \<and> ch_readCallback ch = Some f \<and>
     ch_writeCallback ch = None \<and> ch_closeCallback ch = None \<and> ch_errorCallback ch = None)"

text \<open>The channels that are nobody else's: those of the eventfd, the listening socket and the timers.\<close>

definition loop_channels :: "('k, 'z) server_world_scheme \<Rightarrow> nat set" where
  "loop_channels w = {wakeupChannel w, acceptChannel (acceptor w), timerChannel (timerQueue w)}"

text \<open>What never changes while the loop runs.\<close>

definition loop_ids :: "('k, 'z) server_world_scheme \<Rightarrow> int \<times> nat \<times> Acceptor \<times> nat" where
  "loop_ids w = (wakeupfd w, wakeupChannel w, acceptor w, timerChannel (timerQueue w))"

lemma loop_ids_simps [simp]:
  "loop_ids (put_channel c ch w) = loop_ids w" "loop_ids (w\<lparr>activeChannels := cs\<rparr>) = loop_ids w" "loop_ids (snd (sys f w)) = loop_ids w"
  "loop_ids (w\<lparr>pendingTasks := ts\<rparr>) = loop_ids w" "loop_ids (w\<lparr>doingPendingTasks := x\<rparr>) = loop_ids w"
  "loop_ids (w\<lparr>poller := ep\<rparr>) = loop_ids w" "loop_ids (w\<lparr>quit := x\<rparr>) = loop_ids w"
  "loop_ids (w\<lparr>kernel := k\<rparr>) = loop_ids w"
  by (simp_all add: loop_ids_def acceptor_def put_channel_def sys_def case_prod_beta)

lemma loop_idsD:
  assumes "loop_ids w' = loop_ids w"
  shows "wakeupfd w' = wakeupfd w" "wakeupChannel w' = wakeupChannel w" "acceptor w' = acceptor w"
    "timerChannel (timerQueue w') = timerChannel (timerQueue w)"
  using assms by (simp_all add: loop_ids_def)

definition callbacks_set :: "TcpServerSingle \<Rightarrow> bool" where
  "callbacks_set s \<longleftrightarrow> app_callback (server_connectionCallback s) \<and>
     (server_messageCallback s = Some DefaultMessageCallback \<or> (\<exists>n. server_messageCallback s = Some (UserConnCallback n))) \<and>
     pred_option user_cb (server_writeCompleteCallback s) \<and>
     newConnectionCallback (server_acceptor s) = Some TcpServerSingle_newConnection_cb"

definition world_ok :: "nat \<Rightarrow> ('k, 'z) server_world_scheme \<Rightarrow> bool" where
  "world_ok cur w \<longleftrightarrow> tid w = cur \<and> 0 \<le> wakeupfd w \<and> callbacks_set (server w) \<and>
     (\<forall>p \<in> dom (conns w). live p w \<and> channel_of p w \<notin> loop_channels w) \<and>
     inj_on (\<lambda>p. channel_of p w) (dom (conns w)) \<and>
     wakeupChannel w \<noteq> acceptChannel (acceptor w) \<and>
     listens EventLoop_handleRead_fn (wakeupChannel w) w \<and> listens Acceptor_handleRead_fn (acceptChannel (acceptor w)) w \<and>
     (\<forall>c ch. channels w c = Some ch \<and> pooling ch \<longrightarrow> c \<in> loop_channels w \<or> (\<exists>p \<in> dom (conns w). channel_of p w = c)) \<and>
     (\<forall>t \<in> set (pendingTasks w). \<exists>p \<in> dom (conns w). conn_task p t) \<and>
     channels w (timerChannel (timerQueue w)) \<noteq> None \<and> finite (dom (conns w)) \<and> finite (dom (channels w))"

lemma world_okD:
  assumes "world_ok cur w"
  shows "tid w = cur" "0 \<le> wakeupfd w" "callbacks_set (server w)"
    "conns w p = Some conn \<Longrightarrow> live p w" "conns w p = Some conn \<Longrightarrow> channel_of p w \<notin> loop_channels w"
    "conns w p = Some conn \<Longrightarrow> conns w q = Some conn' \<Longrightarrow> p \<noteq> q \<Longrightarrow> channel_of p w \<noteq> channel_of q w"
    "wakeupChannel w \<noteq> acceptChannel (acceptor w)" "listens EventLoop_handleRead_fn (wakeupChannel w) w"
    "listens Acceptor_handleRead_fn (acceptChannel (acceptor w)) w"
    "channels w c = Some ch \<Longrightarrow> pooling ch \<Longrightarrow> c \<in> loop_channels w \<or> (\<exists>p conn. conns w p = Some conn \<and> channel_of p w = c)"
    "t \<in> set (pendingTasks w) \<Longrightarrow> \<exists>p conn. conns w p = Some conn \<and> conn_task p t"
    "channels w (timerChannel (timerQueue w)) \<noteq> None" "finite (dom (conns w))" "finite (dom (channels w))"
  using assms unfolding world_ok_def inj_on_def by blast+

text \<open>Fields the invariant does not read may change.\<close>

lemma world_ok_cong:
  assumes "world_ok cur w" "conns w' = conns w" "channels w' = channels w" "server w' = server w" "wakeupfd w' = wakeupfd w"
    "wakeupChannel w' = wakeupChannel w" "timerQueue w' = timerQueue w" "tid w' = tid w" "set (pendingTasks w') \<subseteq> set (pendingTasks w)"
  shows "world_ok cur w'"
proof -
  have "live p w' = live p w" for p
    unfolding live_def served_def state_of_def channel_of_def using assms conn_ok_cong[of w' p w] by (simp only:)
  then show ?thesis
    using assms unfolding world_ok_def
    by (auto simp: loop_channels_def acceptor_def channel_of_def listens_def)
qed

text \<open>What a step for connection \<open>p\<close> leaves: the contract of \<open>Server_Connections\<close>.\<close>

definition conn_step :: "nat \<Rightarrow> ('k, 'z) server_world_scheme \<Rightarrow> ('k, 'z) server_world_scheme \<Rightarrow> bool" where
  "conn_step p w w' \<longleftrightarrow> conn_forward p w w' \<and> serves p w w' \<and> view_of p w' = view_of p w"

lemma dispatch_conn_step: "dispatch_step serves p w w' \<Longrightarrow> conn_step p w w'"
  by (simp add: dispatch_step_def conn_step_def)

lemma live_other:
  assumes "serves p w w'" "q \<noteq> p" "live q w" "channel_of q w \<noteq> channel_of p w"
  shows "live q w' \<and> channel_of q w' = channel_of q w"
proof -
  have f: "conns w' q = conns w q" "channels w' (channel_of q w) = channels w (channel_of q w)" "wakeupfd w' = wakeupfd w"
    using assms(1,2,4) by (simp_all add: serves_def)
  obtain ps where ps: "server w' = (server w)\<lparr>connections := ps\<rparr>" "q \<in> ps \<longleftrightarrow> q \<in> connections (server w)"
    using assms(1,2) unfolding serves_def by blast
  have c: "channel_of q w' = channel_of q w" using f(1) by (simp add: channel_of_def)
  have "conn_ok q w'" using conn_ok_frame[of q w w'] assms(3) f by (simp add: live_def)
  moreover have "served q w'" using assms(3) f(1) ps by (simp add: live_def served_def split: option.splits)
  ultimately show ?thesis using assms(3) f c by (simp add: live_def state_of_def)
qed

lemma live_self:
  assumes "conn_step p w w'" "live p w"
  shows "live p w'"
proof -
  have fwd: "conn_ok p w'" "state_of p w \<le> state_of p w'" and s: "serves p w w'" and v: "view_of p w' = view_of p w"
    using assms(1) by (simp_all add: conn_step_def conn_forward_def)
  obtain ch where ch: "channels w (channel_of p w) = Some ch" "wired p ch" using assms(2) by (auto simp: live_def)
  obtain conn conn' ch' where c: "conns w p = Some conn" "conns w' p = Some conn'" "channels w' (conn_channel conn') = Some ch'"
    using fwd(1) assms(2) by (auto simp: live_def elim!: conn_okE)
  have "wired p ch'" using v c ch by (auto simp: view_of_def channel_of_def chan_view_def dispatch_view_def wired_def)
  moreover have "state_of p w' \<noteq> kConnecting"
    using fwd(2) assms(2) by (cases "state_of p w") (auto simp: live_def less_eq_ConnectState_def)
  ultimately show ?thesis using fwd s c assms(2) by (simp add: live_def serves_def channel_of_def)
qed

lemma listens_other: "listens f c w \<Longrightarrow> channels w' c = channels w c \<Longrightarrow> listens f c w'"
  by (simp add: listens_def)

lemma world_ok_step:
  assumes ok: "world_ok cur w" and conn: "conns w p = Some conn" and step: "conn_step p w w'"
  shows "world_ok cur w'"
proof -
  note D = world_okD[OF ok]
  have s: "serves p w w'" using step by (simp add: conn_step_def)
  obtain ps ts where f: "server w' = (server w)\<lparr>connections := ps\<rparr>" "pendingTasks w' = pendingTasks w @ ts" "list_all (conn_task p) ts"
    using s unfolding serves_def by blast
  have g: "wakeupfd w' = wakeupfd w" "wakeupChannel w' = wakeupChannel w" "timerChannel (timerQueue w') = timerChannel (timerQueue w)"
    "channel_of p w' = channel_of p w" "\<And>c. c \<noteq> channel_of p w \<Longrightarrow> channels w' c = channels w c" "tid w' = tid w"
    using s step by (simp_all add: serves_def conn_step_def conn_forward_def)
  have dom: "dom (conns w') = dom (conns w)"
  proof -
    have "conns w' q = None \<longleftrightarrow> conns w q = None" for q using s by (cases "q = p") (simp_all add: serves_def)
    then show ?thesis by (auto simp: dom_def)
  qed
  have lc: "loop_channels w' = loop_channels w" by (simp add: loop_channels_def acceptor_def f g)
  have live: "live q w' \<and> channel_of q w' = channel_of q w" if "conns w q = Some conn'" for q conn'
    using live_other[OF s] live_self[OF step] D(4,6) that conn g(4) by (cases "q = p") blast+
  have "\<forall>t \<in> set (pendingTasks w'). \<exists>q \<in> dom (conns w'). conn_task q t"
  proof
    fix t assume "t \<in> set (pendingTasks w')"
    then consider "t \<in> set (pendingTasks w)" | "conn_task p t" using f(2,3) by (auto simp: list_all_iff)
    then show "\<exists>q \<in> dom (conns w'). conn_task q t" unfolding dom using D(11) conn by cases blast+
  qed
  moreover have "c \<in> loop_channels w' \<or> (\<exists>q \<in> dom (conns w'). channel_of q w' = c)" if "channels w' c = Some ch" "pooling ch" for c ch
  proof (cases "c = channel_of p w")
    case True
    then show ?thesis using conn g(4) unfolding dom by auto
  next
    case False
    then have "c \<in> loop_channels w \<or> (\<exists>q conn. conns w q = Some conn \<and> channel_of q w = c)" using D(10) that g(5) by simp
    then show ?thesis using live unfolding dom lc by (metis domI)
  qed
  moreover have "inj_on (\<lambda>q. channel_of q w') (dom (conns w'))"
    unfolding dom using D(6) live by (intro inj_onI) (metis domD)
  moreover have "listens EventLoop_handleRead_fn (wakeupChannel w') w'" "listens Acceptor_handleRead_fn (acceptChannel (acceptor w')) w'"
    using listens_other[OF D(8), of w'] listens_other[OF D(9), of w'] D(5)[OF conn] g(2,5) f(1) by (auto simp: loop_channels_def acceptor_def)
  moreover have "callbacks_set (server w')" using D(3) f(1) by (simp add: callbacks_set_def)
  moreover have "\<forall>q \<in> dom (conns w'). live q w' \<and> channel_of q w' \<notin> loop_channels w'"
    unfolding dom lc using live D(5) by (auto simp: dom_def)
  moreover have "finite (dom (channels w'))"
    by (rule finite_subset[of _ "insert (channel_of p w) (dom (channels w))"]) (use g(5) D(14) in \<open>auto simp: dom_def\<close>)
  moreover have "channels w' (timerChannel (timerQueue w')) \<noteq> None"
    using D(12) D(5)[OF conn] g(3,5) by (auto simp: loop_channels_def)
  ultimately show ?thesis
    unfolding world_ok_def using D(1,2,7,13) dom g f(1) by (simp add: acceptor_def)
qed

text \<open>The invariant does not read \<open>revents_\<close> nor the flag of the dispatch.\<close>

definition same_interest :: "Channel \<Rightarrow> Channel \<Rightarrow> bool" where
  "same_interest ch ch' \<longleftrightarrow> (\<exists>r b. ch' = ch\<lparr>ch_revents := r, ch_handlingEvents := b\<rparr>)"

lemma same_interestI [intro]:
  "same_interest ch (ch\<lparr>ch_revents := r\<rparr>)" "same_interest ch (ch\<lparr>ch_handlingEvents := b\<rparr>)"
  unfolding same_interest_def by (rule exI[of _ r], rule exI[of _ "ch_handlingEvents ch"], simp)
    (rule exI[of _ "ch_revents ch"], rule exI[of _ b], simp)

lemma conn_ok_interest:
  assumes "conn_ok p w" "channels w c = Some ch" "same_interest ch ch'"
  shows "conn_ok p (put_channel c ch' w)"
proof -
  obtain conn cch where c: "p \<noteq> 0" "conns w p = Some conn" "channels w (conn_channel conn) = Some cch"
    "conn_parts_ok (wakeupfd w) conn cch" using conn_okE[OF assms(1)] .
  have "conn_parts_ok (wakeupfd w) conn ch'" if "cch = ch"
    using c(4) assms(3) that by (auto simp: conn_parts_ok_def same_interest_def isWriting_def split: ConnectState.splits)
  then show ?thesis using c assms(2) by (auto simp: conn_ok_def)
qed

lemma world_ok_interest:
  assumes ok: "world_ok cur w" and ch: "channels w c = Some ch" "same_interest ch ch'"
  shows "world_ok cur (put_channel c ch' w)" (is "world_ok cur ?w")
proof -
  note D = world_okD[OF ok]
  have [simp]: "wakeupChannel ?w = wakeupChannel w" "channel_of p ?w = channel_of p w" "state_of p ?w = state_of p w"
    "loop_channels ?w = loop_channels w" "served p ?w = served p w" for p
    by (simp_all add: put_channel_def channel_of_def state_of_def loop_channels_def acceptor_def served_def split: option.split)
  have live: "live p ?w" if "live p w" for p
    using that conn_ok_interest[OF _ ch, of p] ch by (auto simp: live_def same_interest_def wired_def)
  have listens: "listens f d ?w" if "listens f d w" for f d using that ch by (auto simp: listens_def same_interest_def)
  have "d \<in> loop_channels w \<or> (\<exists>p conn. conns w p = Some conn \<and> channel_of p w = d)"
    if "channels ?w d = Some dch" "pooling dch" for d dch
    using D(10)[of d] that ch by (cases "d = c") (auto simp: same_interest_def)
  then have "\<forall>d dch. channels ?w d = Some dch \<and> pooling dch \<longrightarrow> d \<in> loop_channels w \<or> (\<exists>p \<in> dom (conns w). channel_of p w = d)"
    by blast
  moreover have "channels ?w (timerChannel (timerQueue w)) \<noteq> None" using D(12) by simp
  ultimately show ?thesis
    unfolding world_ok_def using D(1,2,3,7,13,14) listens[OF D(8)] listens[OF D(9)] live ok
    by (auto simp: acceptor_def world_ok_def)
qed

section \<open>Events of the eventfd and the listening socket\<close>

text \<open>Channels that exist are left as they are.\<close>

definition grows :: "nat set \<Rightarrow> ('k, 'z) server_world_scheme \<Rightarrow> ('k, 'z) server_world_scheme \<Rightarrow> bool" where
  "grows C w w' \<longleftrightarrow> (\<forall>d. d \<notin> C \<and> channels w d \<noteq> None \<longrightarrow> channels w' d = channels w d) \<and>
     loop_ids w' = loop_ids w"

lemma serves_ids: "serves p w w' \<Longrightarrow> loop_ids w' = loop_ids w"
  by (auto simp: serves_def loop_ids_def acceptor_def)

lemma serves_grows: "serves p w w' \<Longrightarrow> grows {channel_of p w} w w'"
  using serves_ids[of p w w'] by (simp add: serves_def grows_def)

lemma listens_dispatch:
  assumes ok: "world_ok cur w" and f: "listens f c w"
    and run: "\<And>ch. channels w c = Some ch \<Longrightarrow> result_in E (invoke f (put_channel c (ch\<lparr>ch_handlingEvents := True\<rparr>) w))
      (\<lambda>w'. world_ok cur w' \<and> grows {} (put_channel c (ch\<lparr>ch_handlingEvents := True\<rparr>) w) w')"
  shows "result_in E (handleEvents alive invoke cur c w) (\<lambda>w'. world_ok cur w' \<and> grows {c} w w')"
proof -
  obtain ch where c: "c \<noteq> 0" and ch: "channels w c = Some ch" and plain: "\<not> ch_tied ch" "ch_readCallback ch = Some f" "ch_writeCallback ch = None"
    "ch_closeCallback ch = None" "ch_errorCallback ch = None" using f by (auto simp: listens_def)
  let ?ch = "ch\<lparr>ch_handlingEvents := True\<rparr>" and ?P = "\<lambda>r. r AND (EPOLLIN OR EPOLLPRI OR EPOLLRDHUP) \<noteq> 0"
  let ?w1 = "put_channel c ?ch w"
  have w1: "world_ok cur ?w1" "grows {} ?w1 ?w1" using world_ok_interest[OF ok ch] by (auto simp: grows_def)
  have rd: "result_in E (dispatch_if invoke c ?P ch_readCallback ?w1) (\<lambda>w'. world_ok cur w' \<and> grows {} ?w1 w')"
    using c plain run[OF ch] w1 by (simp add: dispatch_if_def)
  have fin: "result_in E (rbind (dispatch_if invoke c (\<lambda>r. r AND EPOLLOUT \<noteq> 0) ch_writeCallback v)
      (modify_channel c (\<lambda>ch. ch\<lparr>ch_handlingEvents := False\<rparr>))) (\<lambda>w'. world_ok cur w' \<and> grows {c} w w')"
    if v: "world_ok cur v" "grows {} ?w1 v" for v
  proof -
    have vc: "channels v c = Some ?ch" using v(2) by (simp add: grows_def)
    have "world_ok cur (put_channel c (?ch\<lparr>ch_handlingEvents := False\<rparr>) v)" by (rule world_ok_interest[OF v(1) vc]) blast
    moreover have "grows {c} w (put_channel c (?ch\<lparr>ch_handlingEvents := False\<rparr>) v)" using v(2) by (auto simp: grows_def)
    ultimately show ?thesis using vc c plain by (simp add: dispatch_if_def)
  qed
  have "handleEvents alive invoke cur c w = rbind (dispatch_if invoke c ?P ch_readCallback ?w1) (\<lambda>v.
      rbind (dispatch_if invoke c (\<lambda>r. r AND EPOLLOUT \<noteq> 0) ch_writeCallback v) (modify_channel c (\<lambda>ch. ch\<lparr>ch_handlingEvents := False\<rparr>)))"
    using ch c plain world_okD(1)[OF ok] by (simp add: handleEvents_def handleEventWithGuard_def dispatch_if_def[of _ _ _ ch_closeCallback] dispatch_if_def[of _ _ _ ch_errorCallback])
  then show ?thesis by (simp only:) (rule result_in_rbind[OF rd], elim conjE, rule fin)
qed

lemma wakeup_event:
  assumes ok: "world_ok cur w"
  shows "result_in E (handleEvents alive (server_invoke os user hwm alloc other cur) cur (wakeupChannel w) w)
    (\<lambda>w'. world_ok cur w' \<and> grows {wakeupChannel w} w w')"
proof (rule listens_dispatch[OF ok world_okD(8)[OF ok]])
  fix ch assume ch: "channels w (wakeupChannel w) = Some ch"
  let ?w1 = "put_channel (wakeupChannel w) (ch\<lparr>ch_handlingEvents := True\<rparr>) w"
  have "world_ok cur ?w1" by (rule world_ok_interest[OF ok ch]) blast
  then have "world_ok cur (EventLoop_handleRead os ?w1)"
    by (rule world_ok_cong) (simp_all add: EventLoop_handleRead_def sys_def case_prod_beta)
  then show "result_in E (server_invoke os user hwm alloc other cur EventLoop_handleRead_fn ?w1) (\<lambda>w'. world_ok cur w' \<and> grows {} ?w1 w')"
    by (simp add: server_invoke_def conn_invoke_def server_other_def grows_def EventLoop_handleRead_def)
qed

text \<open>
  The allocator gives addresses not in use; \<open>accept4\<close> gives a descriptor other than the eventfd, or fails with
  one of the two errors that are not fatal.
\<close>

definition alloc_spec :: "(('k, 'z) server_world_scheme \<Rightarrow> nat \<times> nat) \<Rightarrow> bool" where
  "alloc_spec alloc \<longleftrightarrow> (\<forall>w p c. alloc w = (p, c) \<and> finite (dom (conns w)) \<and> finite (dom (channels w)) \<longrightarrow>
     p \<noteq> 0 \<and> c \<noteq> 0 \<and> conns w p = None \<and> channels w c = None)"

definition accept_spec :: "'k os \<Rightarrow> int \<Rightarrow> bool" where
  "accept_spec os wfd \<longleftrightarrow> (\<forall>fd k. case fst (sys_accept4 os fd k) of
     Inl (err, a) \<Rightarrow> err = ECONNABORTED \<or> err = EMFILE | Inr (connfd, a) \<Rightarrow> connfd \<noteq> wfd)"

lemma world_ok_established:
  assumes ok: "world_ok cur w" and new: "p \<noteq> 0" "c \<noteq> 0" "conns w p = None" "channels w c = None" "connfd \<noteq> wakeupfd w"
    and b: "buffer_inv b" "content b = []"
  shows "world_ok cur (established os p c connfd loc peer b w)" and "live p (established os p c connfd loc peer b w)"
proof -
  let ?w = "established os p c connfd loc peer b w"
  note D = world_okD[OF ok]
  have msg: "server_messageCallback (server w) \<noteq> None" using D(3) by (auto simp: callbacks_set_def)
  have f: "wakeupChannel ?w = wakeupChannel w" "timerQueue ?w = timerQueue w" "pendingTasks ?w = pendingTasks w"
    by (simp_all add: established_def with_interest_def put_channel_def put_conn_def set_connections_def)
  have lc: "loop_channels ?w = loop_channels w" by (simp add: loop_channels_def acceptor_def f)
  have cp: "channel_of p ?w = c" by (simp add: channel_of_def new_conn_def)
  show livep: "live p ?w"
    using established_ok[OF new(1,2,5) msg b, of os loc peer] D(3) cp
    by (auto simp: live_def served_def state_of_def new_conn_def server_callbacks_def callbacks_set_def user_cb_def is_up_def wired_def new_channel_def)
  have old: "live q ?w \<and> channel_of q ?w = channel_of q w \<and> channel_of q w \<noteq> c" if "conns w q = Some conn" for q conn
  proof -
    have l: "live q w" by (rule D(4)[OF that])
    have qp: "q \<noteq> p" "channel_of q w \<noteq> c" using that new(3,4) l by (auto simp: live_def)
    then have "conn_ok q ?w" using conn_ok_frame[of q w ?w] l by (simp add: live_def)
    then show ?thesis using l qp that by (auto simp: live_def served_def state_of_def channel_of_def split: option.splits)
  qed
  have c: "c \<notin> loop_channels w" using D(8,9,12) new(4) by (auto simp: loop_channels_def listens_def)
  have "\<forall>q \<in> dom (conns ?w). live q ?w \<and> channel_of q ?w \<notin> loop_channels ?w"
    unfolding lc using old D(5) livep cp c by auto
  moreover have "inj_on (\<lambda>q. channel_of q ?w) (dom (conns ?w))"
  proof (rule inj_onI)
    fix x y assume xy: "x \<in> dom (conns ?w)" "y \<in> dom (conns ?w)" "channel_of x ?w = channel_of y ?w"
    then have "x = p \<or> (\<exists>conn. conns w x = Some conn)" "y = p \<or> (\<exists>conn. conns w y = Some conn)" by auto
    then show "x = y" using old D(6) cp xy(3) by metis
  qed
  moreover have "d \<in> loop_channels ?w \<or> (\<exists>q \<in> dom (conns ?w). channel_of q ?w = d)" if "channels ?w d = Some ch" "pooling ch" for d ch
  proof (cases "d = c")
    case True
    then show ?thesis using cp by auto
  next
    case False
    then have "d \<in> loop_channels w \<or> (\<exists>q conn. conns w q = Some conn \<and> channel_of q w = d)" using that D(10) by simp
    then show ?thesis unfolding lc using old by fastforce
  qed
  moreover have "listens EventLoop_handleRead_fn (wakeupChannel ?w) ?w" "listens Acceptor_handleRead_fn (acceptChannel (acceptor ?w)) ?w"
    using listens_other[OF D(8), of ?w] listens_other[OF D(9), of ?w] c f by (auto simp: loop_channels_def acceptor_def)
  moreover have "\<forall>t \<in> set (pendingTasks ?w). \<exists>q \<in> dom (conns ?w). conn_task q t" using D(11) f(3) by fastforce
  moreover have "callbacks_set (server ?w)" using D(3) by (simp add: callbacks_set_def)
  ultimately show "world_ok cur ?w"
    unfolding world_ok_def using D(1,2,7,12,13,14) f by (simp add: acceptor_def)
qed

lemma newConnection_step:
  assumes ok: "world_ok cur w" and app: "good_app E cur user hwm"
    and fresh: "p \<noteq> 0" "c \<noteq> 0" "conns w p = None" "channels w c = None" "connfd \<noteq> wakeupfd w"
  shows "result_in E (newConnection os (server_call user cur) cur p c connfd loc peer w) (\<lambda>w'. world_ok cur w' \<and> grows {} w w')"
proof -
  obtain b where b: "buffer_inv b" "content b = []" and run: "newConnection os (server_call user cur) cur p c connfd loc peer w =
      call_conn (server_call user cur) (server_connectionCallback (server w)) p (established os p c connfd loc peer b w)"
    using newConnection_run[OF world_okD(1)[OF ok] fresh(1,2), of os "server_call user cur" connfd loc peer] by metis
  let ?w1 = "established os p c connfd loc peer b w"
  note est = world_ok_established[OF ok fresh b, of os loc peer]
  obtain cb where cb: "server_connectionCallback (server w) = Some cb" "app_callback (Some cb)"
    using world_okD(3)[OF ok] by (cases "server_connectionCallback (server w)") (auto simp: callbacks_set_def app_callback_def)
  have "result_in E (app_call user cb p ?w1) (dispatch_step serves p ?w1)"
    by (rule app_call_step[OF app]) (use est(2) world_okD(1)[OF est(1)] cb(2) in \<open>auto simp: live_def\<close>)
  moreover have "world_ok cur w' \<and> grows {} w w'" if "dispatch_step serves p ?w1 w'" for w'
  proof
    show "world_ok cur w'" by (rule world_ok_step[OF est(1) _ dispatch_conn_step[OF that]]) simp
    have "channel_of p ?w1 = c" by (simp add: channel_of_def new_conn_def)
    moreover have "loop_ids ?w1 = loop_ids w"
      by (simp add: loop_ids_def acceptor_def established_def with_interest_def put_channel_def put_conn_def set_connections_def)
    moreover have "grows {channel_of p ?w1} ?w1 w'" using that by (intro serves_grows) (simp add: dispatch_step_def)
    moreover have "d \<noteq> c" if "channels w d \<noteq> None" for d using that fresh(4) by auto
    ultimately show "grows {} w w'" by (simp add: grows_def)
  qed
  ultimately have "result_in E (app_call user cb p ?w1) (\<lambda>w'. world_ok cur w' \<and> grows {} w w')" by (auto elim!: result_in_mono)
  then show ?thesis unfolding run using server_call_app[OF cb(2), of user cur] cb(1) by (simp add: call_conn_def)
qed

lemma accept_step:
  assumes ok: "world_ok cur w" and app: "good_app E cur user hwm" and acc: "accept_spec os (wakeupfd w)" and alloc: "alloc_spec alloc"
  shows "result_in E (server_invoke os user hwm alloc other cur Acceptor_handleRead_fn w) (\<lambda>w'. world_ok cur w' \<and> grows {} w w')"
proof -
  note D = world_okD[OF ok]
  obtain p c where pc: "alloc w = (p, c)" by fastforce
  let ?w1 = "snd (sys (sys_accept4 os (acceptfd (acceptor w))) w)"
  define r where "r = fst (sys_accept4 os (acceptfd (acceptor w)) (kernel w))"
  define connfd where "connfd = (case r of Inl (err, a) \<Rightarrow> -1 | Inr (fd, a) \<Rightarrow> fd)"
  define peer where "peer = setAddress (case r of Inl (err, a) \<Rightarrow> a | Inr (fd, a) \<Rightarrow> a) (InetAddress_new 0 False)"
  have ok1: "world_ok cur ?w1" by (rule world_ok_cong[OF ok]) (simp_all add: sys_def case_prod_beta)
  have "alloc w = (p, c) \<Longrightarrow> p \<noteq> 0 \<and> c \<noteq> 0 \<and> conns w p = None \<and> channels w c = None"
    using alloc D(13,14) unfolding alloc_spec_def by blast
  then have fresh: "p \<noteq> 0" "c \<noteq> 0" "conns ?w1 p = None" "channels ?w1 c = None" using pc by simp_all
  have spec: "case r of Inl (err, a) \<Rightarrow> err = ECONNABORTED \<or> err = EMFILE | Inr (connfd, a) \<Rightarrow> connfd \<noteq> wakeupfd w"
    using acc unfolding accept_spec_def r_def by blast
  then have fd: "connfd \<noteq> wakeupfd ?w1" using D(2) by (auto simp: connfd_def split: sum.splits)
  have cb: "newConnectionCallback (acceptor ?w1) = Some TcpServerSingle_newConnection_cb"
    using D(3) by (simp add: callbacks_set_def acceptor_def)
  have "server_invoke os user hwm alloc other cur Acceptor_handleRead_fn w =
      Acceptor_handleRead os (\<lambda>cb. newConnection os (server_call user cur) cur p c) cur w"
    by (simp add: server_invoke_def conn_invoke_def server_other_def pc)
  also have "\<dots> = newConnection os (server_call user cur) cur p c connfd (acceptor_local (acceptor ?w1)) peer ?w1"
    using D(1) spec cb unfolding connfd_def peer_def
    by (auto simp: Acceptor_handleRead_def case_prod_beta Let_def r_def[symmetric] split: sum.splits)
  finally show ?thesis
    using newConnection_step[OF ok1 app fresh fd, of os "acceptor_local (acceptor ?w1)" peer] by (simp add: grows_def)
qed

lemma accept_event:
  assumes ok: "world_ok cur w" and app: "good_app E cur user hwm" and acc: "accept_spec os (wakeupfd w)" and alloc: "alloc_spec alloc"
  shows "result_in E (handleEvents alive (server_invoke os user hwm alloc other cur) cur (acceptChannel (acceptor w)) w)
    (\<lambda>w'. world_ok cur w' \<and> grows {acceptChannel (acceptor w)} w w')"
proof (rule listens_dispatch[OF ok world_okD(9)[OF ok]])
  fix ch assume ch: "channels w (acceptChannel (acceptor w)) = Some ch"
  let ?w1 = "put_channel (acceptChannel (acceptor w)) (ch\<lparr>ch_handlingEvents := True\<rparr>) w"
  have "world_ok cur ?w1" by (rule world_ok_interest[OF ok ch]) blast
  then show "result_in E (server_invoke os user hwm alloc other cur Acceptor_handleRead_fn ?w1) (\<lambda>w'. world_ok cur w' \<and> grows {} ?w1 w')"
    by (rule accept_step[OF _ app _ alloc]) (use acc in simp)
qed

section \<open>The events of one iteration\<close>

text \<open>An event that waits for its dispatch: a channel that is registered, with what epoll reported.\<close>

definition due :: "nat \<Rightarrow> ('k, 'z) server_world_scheme \<Rightarrow> bool" where
  "due c w \<longleftrightarrow> c \<noteq> timerChannel (timerQueue w) \<and> (\<exists>ch. channels w c = Some ch \<and> pooling ch \<and> reported ch)"

lemma due_grows: "due d w \<Longrightarrow> grows C w w' \<Longrightarrow> d \<notin> C \<Longrightarrow> due d w'"
  by (auto simp: due_def grows_def dest: loop_idsD(4))

lemma connection_event:
  assumes ok: "world_ok cur w" and app: "good_app E cur user hwm" and spec: "write_spec os sent" and readv: "readv_spec os"
    and conn: "conns w p = Some conn" and due: "due (channel_of p w) w"
  shows "result_in (insert LengthError E) (handleEvents (\<lambda>q v. conns v q \<noteq> None) (server_invoke os user hwm alloc other cur) cur (channel_of p w) w)
    (\<lambda>w'. world_ok cur w' \<and> grows {channel_of p w} w w')"
proof -
  have c: "channel_of p w = conn_channel conn" by (rule channel_of_eq[OF conn])
  have l: "conn_ok p w" "served p w" "state_of p w \<noteq> kConnecting" using world_okD(4)[OF ok conn] by (simp_all add: live_def)
  obtain ch where ch: "channels w (conn_channel conn) = Some ch" "pooling ch" "reported ch" "wired p ch"
    using due world_okD(4)[OF ok conn] c by (auto simp: due_def live_def)
  have "conn_parts_ok (wakeupfd w) conn ch" using l(1) conn ch(1) by (auto elim: conn_okE)
  then have up: "is_up (conn_state conn)" using ch(2) l(3) conn by (cases "conn_state conn") (auto simp: conn_parts_ok_def is_up_def state_of_def)
  have "world_ok cur w' \<and> grows {channel_of p w} w w'" if "conn_forward p w w' \<and> serves p w w' \<and> view_of p w' = view_of p w" for w'
    using that world_ok_step[OF ok conn] by (simp add: conn_step_def serves_grows)
  then show ?thesis
    unfolding server_invoke_def c
    by (intro result_in_mono[OF server_dispatch.dispatch_ok[OF spec readv server_tame[OF app] world_okD(1)[OF ok] l(1,2) conn up ch(1,4,3)]])
      (auto simp: c)
qed

lemma any_event:
  assumes ok: "world_ok cur w" and app: "good_app E cur user hwm" and spec: "write_spec os sent" and readv: "readv_spec os"
    and acc: "accept_spec os (wakeupfd w)" and alloc: "alloc_spec alloc" and due: "due c w"
  shows "result_in (insert LengthError E) (handleEvents (\<lambda>q v. conns v q \<noteq> None) (server_invoke os user hwm alloc other cur) cur c w)
    (\<lambda>w'. world_ok cur w' \<and> grows {c} w w')"
proof -
  have "c \<noteq> timerChannel (timerQueue w)" "c \<in> loop_channels w \<or> (\<exists>p conn. conns w p = Some conn \<and> channel_of p w = c)"
    using due world_okD(10)[OF ok] by (auto simp: due_def)
  then consider "c = wakeupChannel w" | "c = acceptChannel (acceptor w)" | p conn where "conns w p = Some conn" "channel_of p w = c"
    by (auto simp: loop_channels_def)
  then show ?thesis
  proof cases
    case 1
    then show ?thesis by (simp only:) (rule wakeup_event[OF ok])
  next
    case 2
    then show ?thesis by (simp only:) (rule result_in_mono[OF accept_event[OF ok app acc alloc]], blast)
  next
    case 3
    show ?thesis using connection_event[OF ok app spec readv 3(1)] due unfolding 3(2) .
  qed
qed

lemma events_ok:
  assumes app: "good_app E cur user hwm" and spec: "write_spec os sent" and readv: "readv_spec os" and alloc: "alloc_spec alloc"
    and "world_ok cur w" and "accept_spec os (wakeupfd w)" and "distinct cs" and "\<forall>c \<in> set cs. due c w"
  shows "result_in (insert LengthError E)
    (rfold (handleEvents (\<lambda>q v. conns v q \<noteq> None) (server_invoke os user hwm alloc other cur) cur) cs w)
    (\<lambda>w'. world_ok cur w' \<and> loop_ids w' = loop_ids w)"
  using assms(5-8)
proof (induction cs arbitrary: w)
  case (Cons c cs)
  have c: "due c w" using Cons.prems(4) by simp
  have "result_in (insert LengthError E)
      (rfold (handleEvents (\<lambda>q v. conns v q \<noteq> None) (server_invoke os user hwm alloc other cur) cur) cs w')
      (\<lambda>w'. world_ok cur w' \<and> loop_ids w' = loop_ids w)" if w': "world_ok cur w'" "grows {c} w w'" for w'
  proof -
    have fd: "loop_ids w' = loop_ids w" "wakeupfd w' = wakeupfd w" using w'(2) loop_idsD(1)[of w' w] by (simp_all add: grows_def)
    have "\<forall>c \<in> set cs. due c w'" using Cons.prems(3,4) due_grows[OF _ w'(2)] by fastforce
    from Cons.IH[OF w'(1) _ _ this] show ?thesis using fd Cons.prems(2,3) by simp
  qed
  then show ?case
    unfolding rfold.simps by (intro result_in_rbind[OF any_event[OF Cons.prems(1) app spec readv Cons.prems(2) alloc c]]) auto
qed simp

section \<open>The pending tasks\<close>

lemma task_step:
  assumes ok: "world_ok cur w" and app: "good_app E cur user hwm" and spec: "write_spec os sent" and conn: "conns w p = Some conn"
    and task: "conn_task p t"
  shows "result_in (insert LengthError E) (server_invoke os user hwm alloc other cur t w)
    (\<lambda>w'. world_ok cur w' \<and> dom (conns w') = dom (conns w) \<and> loop_ids w' = loop_ids w)"
proof -
  have l: "conn_ok p w" "served p w" "state_of p w \<noteq> kConnecting" using world_okD(4)[OF ok conn] by (simp_all add: live_def)
  have "dom (conns w') = dom (conns w)" "loop_ids w' = loop_ids w" if "serves p w w'" for w'
  proof -
    have "conns w' q = None \<longleftrightarrow> conns w q = None" for q using that by (cases "q = p") (simp_all add: serves_def)
    then show "dom (conns w') = dom (conns w)" by (auto simp: dom_def)
    show "loop_ids w' = loop_ids w" by (rule serves_ids[OF that])
  qed
  then show ?thesis
    unfolding server_invoke_def
    by (intro result_in_mono[OF conn_task_step[OF app spec l(1) world_okD(1)[OF ok] l(2,3) task] order_refl])
      (auto simp: dispatch_step_def intro: world_ok_step[OF ok conn dispatch_conn_step, unfolded dispatch_step_def])
qed

lemma tasks_ok:
  assumes app: "good_app E cur user hwm" and spec: "write_spec os sent"
    and "world_ok cur w" and "\<forall>t \<in> set ts. \<exists>p \<in> dom (conns w). conn_task p t"
  shows "result_in (insert LengthError E) (rfold (server_invoke os user hwm alloc other cur) ts w)
    (\<lambda>w'. world_ok cur w' \<and> loop_ids w' = loop_ids w)"
  using assms(3,4)
proof (induction ts arbitrary: w)
  case (Cons t ts)
  obtain p conn where "conns w p = Some conn" "conn_task p t" using Cons.prems(2) by auto
  from task_step[OF Cons.prems(1) app spec this] show ?case
    unfolding rfold.simps by (rule result_in_rbind) (use Cons.IH Cons.prems(2) in fastforce)
qed simp

lemma doPendingTasks_ok:
  assumes app: "good_app E cur user hwm" and spec: "write_spec os sent" and ok: "world_ok cur w"
  shows "result_in (insert LengthError E) (doPendingTasks (server_invoke os user hwm alloc other cur) cur w)
    (\<lambda>w'. world_ok cur w' \<and> loop_ids w' = loop_ids w)"
proof -
  let ?w = "w\<lparr>pendingTasks := [], doingPendingTasks := True\<rparr>"
  have "world_ok cur ?w" by (rule world_ok_cong[OF ok]) simp_all
  then have "result_in (insert LengthError E) (rfold (server_invoke os user hwm alloc other cur) (pendingTasks w) ?w)
      (\<lambda>w'. world_ok cur w' \<and> loop_ids w' = loop_ids ?w)"
    by (rule tasks_ok[OF app spec]) (use world_okD(11)[OF ok] in fastforce)
  then have "result_in (insert LengthError E) (rbind (rfold (server_invoke os user hwm alloc other cur) (pendingTasks w) ?w)
      (\<lambda>w2. Inr (w2\<lparr>doingPendingTasks := False\<rparr>))) (\<lambda>w'. world_ok cur w' \<and> loop_ids w' = loop_ids w)"
    by (rule result_in_rbind) (auto intro: world_ok_cong)
  then show ?thesis using world_okD(1)[OF ok] by (simp add: doPendingTasks_def Let_def)
qed

end
