(* ===== verification/Server_Start.thy ===== *)
theory Server_Start
  imports Server_World
begin

unbundle bit_operations_syntax

text \<open>
  A server from its constructors on, in the order \<open>TcpServer::runInThread\<close> has: the loop, the server, the callbacks of
  the application, \<open>start\<close>. What they leave is the invariant of \<open>Server_World\<close>.
\<close>

section \<open>Set-up\<close>

text \<open>
  The world of a thread that has made its loop; the fields \<open>s\<close> of the server are not initialised yet, \<open>z\<close> is
  the application's own state.
\<close>

definition loop_world :: "'k EventLoop \<Rightarrow> TcpServerSingle \<Rightarrow> 'z \<Rightarrow> ('k, 'z) server_world_scheme" where
  "loop_world l s z =
     server_world.extend (conn_world.extend (EventLoop.extend l (conn_world.fields Map.empty)) (server_world.fields s)) z"

text \<open>The callbacks an application sets.\<close>

definition set_callbacks ::
  "conn_callback option \<Rightarrow> conn_callback option \<Rightarrow> conn_callback option \<Rightarrow> ('k, 'z) server_world_scheme \<Rightarrow> ('k, 'z) server_world_scheme"
where
  "set_callbacks onConnection onMessage onWriteComplete w =
     w\<lparr>server := server_setWriteCompleteCallback onWriteComplete
        (server_setMessageCallback onMessage (server_setConnectionCallback onConnection (server w)))\<rparr>"

definition server_setup ::
  "'k os \<Rightarrow> nat \<Rightarrow> nat \<Rightarrow> InetAddress \<Rightarrow> conn_callback option \<Rightarrow> conn_callback option \<Rightarrow> conn_callback option \<Rightarrow> ('k, 'z) server_op"
where
  "server_setup os cur c local onConnection onMessage onWriteComplete w =
     rbind (TcpServerSingle_new os c local w) (\<lambda>w1.
     TcpServerSingle_start os cur (set_callbacks onConnection onMessage onWriteComplete w1))"

section \<open>The loop\<close>

definition loop_ready :: "nat \<Rightarrow> ('k, 'z) server_world_scheme \<Rightarrow> bool" where
  "loop_ready cur w \<longleftrightarrow> tid w = cur \<and> 0 \<le> wakeupfd w \<and> conns w = Map.empty \<and> pendingTasks w = [] \<and>
     listens EventLoop_handleRead_fn (wakeupChannel w) w \<and>
     dom (channels w) = {wakeupChannel w, timerChannel (timerQueue w)}"

lemma EventLoop_new_state:
  assumes "EventLoop_new os cur has_loop epfd evfd tfd wc tc k = Inr l" "wc \<noteq> 0" "tc \<noteq> 0" "wc \<noteq> tc"
  shows "tid l = cur" "wakeupfd l = evfd" "pendingTasks l = []" "wakeupChannel l = wc" "timerChannel (timerQueue l) = tc"
    "listens EventLoop_handleRead_fn wc l" "dom (channels l) = {wc, tc}"
proof -
  let ?tch = "(Channel_new tfd)\<lparr>ch_readCallback := Some TimerQueue_handleRead_fn\<rparr>"
  let ?wch = "(Channel_new evfd)\<lparr>ch_readCallback := Some EventLoop_handleRead_fn\<rparr>"
  obtain ep k' where l: "l = with_interest os wc ?wch (EPOLLIN OR EPOLLPRI)
      \<lparr>tid = cur, quit = False, doingPendingTasks = False, poller = ep, activeChannels = [], wakeupfd = evfd, wakeupChannel = wc,
       pendingTasks = [], timerQueue = \<lparr>timerfd = tfd, timerChannel = tc, timers = []\<rparr>,
       channels = [wc \<mapsto> ?wch, tc \<mapsto> ?tch\<lparr>ch_events := EPOLLIN OR EPOLLPRI, pooling := True\<rparr>], timer_heap = Map.empty, kernel = k'\<rparr>"
    using assms mask_nonzero(1)[of 0]
    by (auto simp: EventLoop_new_def TimerQueue_new_def rbind_eq_Inr Let_def put_channel_def enableRead.interest_eq
        setReadCallback_def Channel_new_def with_interest_def fun_upd_twist)
  show "tid l = cur" "wakeupfd l = evfd" "pendingTasks l = []" "wakeupChannel l = wc" "timerChannel (timerQueue l) = tc"
    using l by (simp_all add: with_interest_def put_channel_def)
  show "listens EventLoop_handleRead_fn wc l" using l assms(2) mask_nonzero(1)[of 0] by (simp add: listens_def Channel_new_def)
  show "dom (channels l) = {wc, tc}" using l by auto
qed

lemma loop_world_simps [simp]:
  "tid (loop_world l s z) = tid l" "wakeupfd (loop_world l s z) = wakeupfd l" "pendingTasks (loop_world l s z) = pendingTasks l"
  "wakeupChannel (loop_world l s z) = wakeupChannel l" "timerQueue (loop_world l s z) = timerQueue l" "channels (loop_world l s z) = channels l"
  "conns (loop_world l s z) = Map.empty"
  by (simp_all add: loop_world_def EventLoop.defs conn_world.defs server_world.defs)

lemma loop_world_ready:
  assumes "EventLoop_new os cur has_loop epfd evfd tfd wc tc k = Inr l" "wc \<noteq> 0" "tc \<noteq> 0" "wc \<noteq> tc" "0 \<le> evfd"
  shows "loop_ready cur (loop_world l s z)"
  using EventLoop_new_state[OF assms(1-4)] assms(5) by (simp add: loop_ready_def listens_def)

section \<open>The server\<close>

text \<open>System calls leave the objects alone.\<close>

definition same_objects :: "('k, 'z) server_world_scheme \<Rightarrow> ('k, 'z) server_world_scheme \<Rightarrow> bool" where
  "same_objects w w' \<longleftrightarrow> tid w' = tid w \<and> wakeupfd w' = wakeupfd w \<and> wakeupChannel w' = wakeupChannel w \<and> timerQueue w' = timerQueue w \<and>
     pendingTasks w' = pendingTasks w \<and> conns w' = conns w \<and> channels w' = channels w \<and> server w' = server w"

lemma same_objects_sys:
  "sys_or_fatal f w = Inr w' \<Longrightarrow> same_objects w w'" "createSocket os w = Inr (fd, w') \<Longrightarrow> same_objects w w'"
  by (auto simp: sys_or_fatal_def createSocket_def same_objects_def sys_def case_prod_beta rbind_eq_Inr Let_def)

text \<open>The fields the set-up leaves: those of \<open>w\<close> with the acceptor's channel \<open>ch\<close> at \<open>c\<close>, and the server.\<close>

definition set_up ::
  "nat \<Rightarrow> Channel \<Rightarrow> TcpServerSingle \<Rightarrow> ('k, 'z) server_world_scheme \<Rightarrow> ('k, 'z) server_world_scheme \<Rightarrow> bool"
where
  "set_up c ch s w w' \<longleftrightarrow> tid w' = tid w \<and> wakeupfd w' = wakeupfd w \<and> wakeupChannel w' = wakeupChannel w \<and> timerQueue w' = timerQueue w \<and>
     pendingTasks w' = pendingTasks w \<and> conns w' = conns w \<and> channels w' = (channels w)(c \<mapsto> ch) \<and> server w' = s"

lemma Acceptor_new_set_up:
  assumes "Acceptor_new os c local w = Inr w'"
  shows "\<exists>fd. set_up c (Channel_new fd) ((server w)\<lparr>server_acceptor := \<lparr>listening = False, acceptfd = fd, acceptChannel = c,
    acceptor_local = local, newConnectionCallback = None\<rparr>\<rparr>) w w'"
proof -
  let ?a = "\<lambda>fd. \<lparr>listening = False, acceptfd = fd, acceptChannel = c, acceptor_local = local, newConnectionCallback = None\<rparr>"
  obtain fd w1 w2 w3 where "createSocket os w = Inr (fd, w1)"
    "sys_or_fatal (sys_setsockopt os fd ''SO_REUSEADDR'') (set_acceptor (?a fd) (put_channel c (Channel_new fd) w1)) = Inr w2"
    "sys_or_fatal (sys_setsockopt os fd ''SO_REUSEPORT'') w2 = Inr w3" "sys_or_fatal (sys_bind os fd (getSockaddr local)) w3 = Inr w'"
    using assms by (auto simp: Acceptor_new_def rbind_eq_Inr)
  from same_objects_sys(2)[OF this(1)] same_objects_sys(1)[OF this(2)] same_objects_sys(1)[OF this(3)] same_objects_sys(1)[OF this(4)]
  have "set_up c (Channel_new fd) ((server w)\<lparr>server_acceptor := ?a fd\<rparr>) w w'"
    by (simp add: same_objects_def set_up_def set_acceptor_def put_channel_def)
  then show ?thesis by blast
qed

definition started_server ::
  "nat \<Rightarrow> int \<Rightarrow> InetAddress \<Rightarrow> conn_callback option \<Rightarrow> conn_callback option \<Rightarrow> conn_callback option \<Rightarrow> TcpServerSingle"
where
  "started_server c fd local onConnection onMessage onWriteComplete =
     \<lparr>server_acceptor = \<lparr>listening = False, acceptfd = fd, acceptChannel = c, acceptor_local = local,
        newConnectionCallback = Some TcpServerSingle_newConnection_cb\<rparr>, connections = {}, server_connectionCallback = onConnection,
      server_messageCallback = onMessage, server_writeCompleteCallback = onWriteComplete\<rparr>"

lemma server_setup_set_up:
  assumes "server_setup os cur c local onConnection onMessage onWriteComplete w = Inr w'" "c \<noteq> 0"
  shows "\<exists>fd. set_up c ((Channel_new fd)\<lparr>ch_readCallback := Some Acceptor_handleRead_fn, ch_events := EPOLLIN OR EPOLLPRI, pooling := True\<rparr>)
    (started_server c fd local onConnection onMessage onWriteComplete) w w'"
proof -
  let ?w0 = "w\<lparr>server := (server w)\<lparr>connections := {}, server_connectionCallback := None, server_messageCallback := None,
    server_writeCompleteCallback := None\<rparr>\<rparr>"
  let ?cb = "set_callbacks onConnection onMessage onWriteComplete"
  obtain w1 where w1: "Acceptor_new os c local ?w0 = Inr w1"
    "Acceptor_listen os cur (?cb (setNewConnectionCallback TcpServerSingle_newConnection_cb w1)) = Inr w'"
    using assms(1) by (auto simp: server_setup_def TcpServerSingle_new_def TcpServerSingle_start_def rbind_eq_Inr)
  obtain fd where fd: "set_up c (Channel_new fd) ((server ?w0)\<lparr>server_acceptor := \<lparr>listening = False, acceptfd = fd, acceptChannel = c,
    acceptor_local = local, newConnectionCallback = None\<rparr>\<rparr>) ?w0 w1" using Acceptor_new_set_up[OF w1(1)] by blast
  let ?w2 = "?cb (setNewConnectionCallback TcpServerSingle_newConnection_cb w1)"
  have w2: "set_up c (Channel_new fd) (started_server c fd local onConnection onMessage onWriteComplete) w ?w2"
    using fd by (simp add: set_up_def set_callbacks_def setNewConnectionCallback_def set_acceptor_def acceptor_def started_server_def
        server_setConnectionCallback_def server_setMessageCallback_def server_setWriteCompleteCallback_def)
  then have acc: "acceptChannel (acceptor ?w2) = c" by (simp add: set_up_def acceptor_def started_server_def)
  obtain w3 where t: "tid ?w2 = cur" and w3: "sys_or_fatal (sys_listen os (acceptfd (acceptor ?w2))) ?w2 = Inr w3"
    and rest: "rbind (modify_channel (acceptChannel (acceptor w3)) (Channel.setReadCallback Acceptor_handleRead_fn) w3) (enableRead os cur c) = Inr w'"
    using w1(2) acc by (auto simp: Acceptor_listen_def rbind_eq_Inr)
  note f3 = same_objects_sys(1)[OF w3]
  have "w' = with_interest os c ((Channel_new fd)\<lparr>ch_readCallback := Some Acceptor_handleRead_fn\<rparr>) (EPOLLIN OR EPOLLPRI)
      (put_channel c ((Channel_new fd)\<lparr>ch_readCallback := Some Acceptor_handleRead_fn\<rparr>) w3)"
    using rest f3 w2 acc t assms(2) mask_nonzero(1)[of 0]
    by (auto simp: same_objects_def set_up_def acceptor_def enableRead.interest_eq Channel.setReadCallback_def Channel_new_def)
  then show ?thesis using f3 w2 mask_nonzero(1)[of 0]
    by (auto simp: set_up_def same_objects_def with_interest_def put_channel_def intro!: exI[of _ fd])
qed

lemma server_setup_world:
  assumes ready: "loop_ready cur w" and c: "c \<noteq> 0" "channels w c = None"
    and cbs: "app_callback onConnection" "onMessage = Some DefaultMessageCallback \<or> (\<exists>n. onMessage = Some (UserConnCallback n))"
      "pred_option user_cb onWriteComplete"
    and run: "server_setup os cur c local onConnection onMessage onWriteComplete w = Inr w'"
  shows "world_ok cur w'" "wakeupfd w' = wakeupfd w" "acceptChannel (acceptor w') = c" "timerQueue w' = timerQueue w"
proof -
  obtain fd where up: "set_up c ((Channel_new fd)\<lparr>ch_readCallback := Some Acceptor_handleRead_fn, ch_events := EPOLLIN OR EPOLLPRI, pooling := True\<rparr>)
    (started_server c fd local onConnection onMessage onWriteComplete) w w'" using server_setup_set_up[OF run c(1)] by blast
  then show "wakeupfd w' = wakeupfd w" "acceptChannel (acceptor w') = c" "timerQueue w' = timerQueue w"
    by (simp_all add: set_up_def acceptor_def started_server_def)
  have c': "c \<noteq> wakeupChannel w" "c \<noteq> timerChannel (timerQueue w)" using ready c(2) by (auto simp: loop_ready_def)
  have d: "dom (channels w') = {wakeupChannel w, timerChannel (timerQueue w), c}" using up ready by (auto simp: set_up_def loop_ready_def)
  have lc: "loop_channels w' = dom (channels w')" using up d by (auto simp: loop_channels_def set_up_def acceptor_def started_server_def)
  have "listens EventLoop_handleRead_fn (wakeupChannel w') w'" "listens Acceptor_handleRead_fn (acceptChannel (acceptor w')) w'"
    using up ready c(1) c'(1) by (auto simp: set_up_def loop_ready_def listens_def acceptor_def started_server_def Channel_new_def)
  moreover have "channels w' (timerChannel (timerQueue w')) \<noteq> None" using up ready c'(2) by (auto simp: set_up_def loop_ready_def dom_def)
  moreover have "callbacks_set (server w')" using up cbs by (simp add: set_up_def started_server_def callbacks_set_def)
  ultimately show "world_ok cur w'"
    using up ready c' d lc unfolding world_ok_def by (auto simp: set_up_def loop_ready_def acceptor_def started_server_def)
qed

end
