(* ===== verification/Server_Loop.thy ===== *)
theory Server_Loop
  imports Server_Start
begin

unbundle bit_operations_syntax

text \<open>
  The loop of a server: what \<open>epoll_wait\<close> reports, one iteration of \<open>EventLoop::loop\<close>, the states the loop can
  reach, and a server from its constructors on.
\<close>

section \<open>Polling\<close>

text \<open>
  What \<open>epoll_wait\<close> does: it fills at most \<open>maxEvents\<close> slots, each with a registered channel, none twice, and
  with events as \<open>reported\<close> says. No timer is due in this iteration.
\<close>

definition max_events :: "('k, 'z) EventLoop_scheme \<Rightarrow> int" where
  "max_events w = sint (word_of_nat (ep_events_size (poller w)) :: 32 word)"

definition event_ok :: "('k, 'z) EventLoop_scheme \<Rightarrow> 32 word \<times> nat \<Rightarrow> bool" where
  "event_ok w e \<longleftrightarrow> snd e \<noteq> timerChannel (timerQueue w) \<and>
     (\<exists>ch. channels w (snd e) = Some ch \<and> pooling ch \<and> reported (ch\<lparr>ch_revents := fst e\<rparr>))"

definition epoll_reports :: "'k os \<Rightarrow> ('k, 'z) EventLoop_scheme \<Rightarrow> bool" where
  "epoll_reports os w \<longleftrightarrow> (case fst (sys_epoll_wait os (max_events w) (kernel w)) of
     Inl err \<Rightarrow> True
   | Inr evs \<Rightarrow> int (length evs) \<le> max_events w \<and> distinct (map snd evs) \<and> (\<forall>e \<in> set evs. event_ok w e))"

lemma sint_word_of_nat_le: "sint (word_of_nat n :: 32 word) \<le> int n"
proof -
  have "sint (word_of_nat n :: 32 word) \<le> uint (word_of_nat n :: 32 word)" 
    by (simp add: sint_uint signed_take_bit_int_less_eq_self_iff) (rule order_trans[OF _ unsigned_greater_eq], simp)
  also have "\<dots> \<le> int n" by (simp add: uint_word_of_int_eq unsigned_of_nat take_bit_nat_less_eq_self)
  finally show ?thesis .
qed

lemma event_channel:
  assumes ok: "world_ok cur w" and e: "event_ok w e"
  obtains ch where "channels w (snd e) = Some ch" "snd e \<noteq> 0" "pooling ch" "reported (ch\<lparr>ch_revents := fst e\<rparr>)"
proof -
  obtain ch where ch: "channels w (snd e) = Some ch" "pooling ch" "reported (ch\<lparr>ch_revents := fst e\<rparr>)" using e by (auto simp: event_ok_def)
  have "snd e \<noteq> 0" using world_okD(10)[OF ok ch(1,2)]
  proof
    assume "snd e \<in> loop_channels w"
    then show ?thesis using e world_okD(8,9)[OF ok] by (auto simp: loop_channels_def event_ok_def listens_def)
  next
    assume "\<exists>p conn. conns w p = Some conn \<and> channel_of p w = snd e"
    then obtain p conn where p: "conns w p = Some conn" "channel_of p w = snd e" by blast
    then have "conn_ok p w" using world_okD(4)[OF ok p(1)] by (simp add: live_def)
    then show ?thesis using p by (auto simp: channel_of_def conn_parts_ok_def elim!: conn_okE)
  qed
  then show thesis using that ch by blast
qed

lemma event_ok_other: "event_ok w e \<Longrightarrow> snd e \<noteq> c \<Longrightarrow> event_ok ((put_channel c ch w)\<lparr>activeChannels := cs\<rparr>) e"
  by (simp add: event_ok_def)

lemma pushes_ok:
  assumes "world_ok cur w" "distinct (map snd evs)" "\<forall>e \<in> set evs. event_ok w e"
  shows "returns (rfold EPollPoller_push evs w) (\<lambda>w'. world_ok cur w' \<and> loop_ids w' = loop_ids w \<and>
    activeChannels w' = activeChannels w @ map snd evs \<and> (\<forall>c \<in> snd ` set evs. due c w') \<and> grows (snd ` set evs) w w')"
  using assms
proof (induction evs arbitrary: w)
  case (Cons e evs)
  obtain ch where ch: "channels w (snd e) = Some ch" "snd e \<noteq> 0" "pooling ch" "reported (ch\<lparr>ch_revents := fst e\<rparr>)"
    using event_channel[OF Cons.prems(1), of e] Cons.prems(3) by auto
  let ?ch = "ch\<lparr>ch_revents := fst e\<rparr>"
  let ?w1 = "(put_channel (snd e) ?ch w)\<lparr>activeChannels := activeChannels w @ [snd e]\<rparr>"
  have "world_ok cur (put_channel (snd e) ?ch w)" by (rule world_ok_interest[OF Cons.prems(1) ch(1)]) blast
  then have ok1: "world_ok cur ?w1" by (rule world_ok_cong) simp_all
  have ev1: "\<forall>e \<in> set evs. event_ok ?w1 e"
  proof
    fix d assume "d \<in> set evs"
    then have "event_ok w d" "snd d \<noteq> snd e" using Cons.prems(2,3) by (auto simp: image_iff)
    then show "event_ok ?w1 d" by (rule event_ok_other)
  qed
  have push: "EPollPoller_push e w = Inr ?w1"
    using ch by (simp add: EPollPoller_push_def setRevents_def case_prod_beta put_channel_def)
  have due1: "due (snd e) ?w1" using ch Cons.prems(3) by (simp add: due_def event_ok_def)
  have fresh: "snd e \<notin> snd ` set evs" using Cons.prems(2) by simp
  have "distinct (map snd evs)" using Cons.prems(2) by simp
  from Cons.IH[OF ok1 this ev1] obtain w' where w': "rfold EPollPoller_push evs ?w1 = Inr w'" "world_ok cur w'" "loop_ids w' = loop_ids ?w1"
    "activeChannels w' = activeChannels ?w1 @ map snd evs" "\<forall>c \<in> snd ` set evs. due c w'" "grows (snd ` set evs) ?w1 w'"
    unfolding returns_iff by blast
  have "grows (snd ` set (e # evs)) w w'" using w'(6) by (simp add: grows_def)
  then show ?case using w' push due_grows[OF due1 w'(6) fresh] by simp
qed (simp add: grows_def)

lemma poll_ok:
  assumes ok: "world_ok cur w" and rep: "epoll_reports os w"
  shows "returns (EPollPoller_poll os cur (w\<lparr>activeChannels := []\<rparr>)) (\<lambda>w1. world_ok cur w1 \<and> loop_ids w1 = loop_ids w \<and>
    distinct (activeChannels w1) \<and> (\<forall>c \<in> set (activeChannels w1). due c w1))"
proof -
  let ?w = "w\<lparr>activeChannels := []\<rparr>"
  let ?f = "sys_epoll_wait os (max_events w)"
  obtain r w1 where s: "sys ?f ?w = (r, w1)" by fastforce
  then have r: "fst (?f (kernel w)) = r" and w1: "w1 = ?w\<lparr>kernel := kernel w1\<rparr>" by (auto simp: sys_def case_prod_beta)
  have f1: "activeChannels w1 = []" "loop_ids w1 = loop_ids w" "wakeupfd w1 = wakeupfd w" "timerQueue w1 = timerQueue w" "channels w1 = channels w"
    "conns w1 = conns w" "server w1 = server w" "wakeupChannel w1 = wakeupChannel w" "tid w1 = tid w" "pendingTasks w1 = pendingTasks w"
    by (subst w1, simp)+
  have ok1: "world_ok cur w1" by (rule world_ok_cong[OF ok]) (simp_all add: f1)
  have e1: "event_ok w1 e = event_ok w e" for e by (simp add: event_ok_def f1)
  have t: "tid ?w = cur" using world_okD(1)[OF ok] by simp
  have start: "EPollPoller_poll os cur ?w = (case r of Inl err \<Rightarrow> Inr w1
      | Inr evs \<Rightarrow> if evs = [] then Inr w1
          else rbind (ensure (length evs \<le> ep_events_size (poller w)) OutOfBounds) (\<lambda>_.
            rbind (rfold EPollPoller_push evs w1) (\<lambda>l2. Inr (if int (length evs) = max_events w
              then l2\<lparr>poller := (poller l2)\<lparr>ep_events_size := 2 * ep_events_size (poller w)\<rparr>\<rparr> else l2))))"
    unfolding EPollPoller_poll_def using t s by (simp add: max_events_def Let_def split: sum.splits)
  show ?thesis
  proof (cases r)
    case (Inl err)
    then show ?thesis using start ok1 f1 by simp
  next
    case (Inr evs)
    have evs: "int (length evs) \<le> max_events w" "distinct (map snd evs)" "\<forall>e \<in> set evs. event_ok w1 e"
      using rep r Inr e1 by (auto simp: epoll_reports_def)
    have len: "length evs \<le> ep_events_size (poller w)"
      using evs(1) sint_word_of_nat_le[of "ep_events_size (poller w)"] by (simp add: max_events_def)
    obtain w2 where w2: "rfold EPollPoller_push evs w1 = Inr w2" "world_ok cur w2" "loop_ids w2 = loop_ids w" "activeChannels w2 = map snd evs"
      "\<forall>c \<in> snd ` set evs. due c w2"
      using pushes_ok[OF ok1 evs(2,3)] f1 unfolding returns_iff by auto
    let ?w3 = "w2\<lparr>poller := (poller w2)\<lparr>ep_events_size := 2 * ep_events_size (poller w)\<rparr>\<rparr>"
    have "world_ok cur ?w3" by (rule world_ok_cong[OF w2(2)]) simp_all
    moreover have "due c ?w3 = due c w2" for c by (simp add: due_def)
    ultimately show ?thesis using start Inr w2 len ok1 f1 evs(2) by simp
  qed
qed

section \<open>One iteration, and the whole loop\<close>

lemma iteration_ok:
  assumes "good_app E cur user hwm" and "write_spec os sent" and "readv_spec os" and "alloc_spec alloc"
    and "world_ok cur w" and "accept_spec os (wakeupfd w)" and "epoll_reports os w"
  shows "result_in (insert LengthError E)
    (EventLoop_iteration os (\<lambda>q v. conns v q \<noteq> None) (server_invoke os user hwm alloc other cur) cur w)
    (\<lambda>w'. world_ok cur w' \<and> loop_ids w' = loop_ids w)"
proof -
  obtain w1 where w1: "EPollPoller_poll os cur (w\<lparr>activeChannels := []\<rparr>) = Inr w1" "world_ok cur w1" "loop_ids w1 = loop_ids w"
    "distinct (activeChannels w1)" "\<forall>c \<in> set (activeChannels w1). due c w1"
    using poll_ok[OF assms(5,7)] unfolding returns_iff by blast
  have acc: "accept_spec os (wakeupfd w1)" using assms(6) loop_idsD(1)[OF w1(3)] by simp
  have tasks: "result_in (insert LengthError E) (doPendingTasks (server_invoke os user hwm alloc other cur) cur w2)
      (\<lambda>w'. world_ok cur w' \<and> loop_ids w' = loop_ids w)" if "world_ok cur w2 \<and> loop_ids w2 = loop_ids w1" for w2
    using doPendingTasks_ok[OF assms(1,2), of w2 alloc other] that w1(3) by simp
  show ?thesis
    unfolding EventLoop_iteration_def w1(1) rbind_Inr
    by (rule result_in_rbind[OF events_ok[OF assms(1-4) w1(2) acc w1(4,5)]], rule tasks)
qed

text \<open>The states the loop can be in between two iterations.\<close>

inductive loop_reaches ::
  "'k os \<Rightarrow> (closure \<Rightarrow> ('k, 'z) server_op) \<Rightarrow> nat \<Rightarrow> ('k, 'z) server_world_scheme \<Rightarrow> ('k, 'z) server_world_scheme \<Rightarrow> bool"
  for os invoke cur w0
where
  start: "loop_reaches os invoke cur w0 w0"
| iterate: "loop_reaches os invoke cur w0 w \<Longrightarrow> \<not> quit w \<Longrightarrow>
    EventLoop_iteration os (\<lambda>q v. conns v q \<noteq> None) invoke cur w = Inr w' \<Longrightarrow> loop_reaches os invoke cur w0 w'"

lemma while_reaches:
  assumes "\<And>v. loop_reaches os invoke cur w0 v \<Longrightarrow> \<not> quit v \<Longrightarrow>
      result_in F (EventLoop_iteration os (\<lambda>q v. conns v q \<noteq> None) invoke cur v) P"
    and "\<And>v. loop_reaches os invoke cur w0 v \<Longrightarrow> P v" and "loop_reaches os invoke cur w0 w"
    and "EventLoop_while os (\<lambda>q v. conns v q \<noteq> None) invoke cur n w = Some r"
  shows "result_in F r P"
  using assms(3,4)
proof (induction n arbitrary: w)
  case 0
  then show ?case using assms(2) by (auto split: if_splits)
next
  case (Suc n)
  show ?case
  proof (cases "quit w")
    case True
    then show ?thesis using Suc.prems assms(2) by auto
  next
    case False
    note it = assms(1)[OF Suc.prems(1) False]
    show ?thesis
    proof (cases "EventLoop_iteration os (\<lambda>q v. conns v q \<noteq> None) invoke cur w")
      case (Inl e)
      then have "r = Inl e" using Suc.prems(2) False by simp
      then show ?thesis using it Inl by simp
    next
      case (Inr w')
      then show ?thesis using Suc.IH[OF loop_reaches.iterate[OF Suc.prems(1) False Inr]] Suc.prems(2) False by simp
    qed
  qed
qed

lemma reachable_ok:
  assumes "good_app E cur user hwm" and "write_spec os sent" and "readv_spec os" and "alloc_spec alloc"
    and "world_ok cur w0" and "accept_spec os (wakeupfd w0)"
    and "\<And>w. loop_reaches os (server_invoke os user hwm alloc other cur) cur w0 w \<Longrightarrow> world_ok cur w \<Longrightarrow> loop_ids w = loop_ids w0 \<Longrightarrow>
      epoll_reports os w"
    and "loop_reaches os (server_invoke os user hwm alloc other cur) cur w0 w"
  shows "world_ok cur w \<and> loop_ids w = loop_ids w0 \<and>
    result_in (insert LengthError E) (EventLoop_iteration os (\<lambda>q v. conns v q \<noteq> None) (server_invoke os user hwm alloc other cur) cur w)
      (\<lambda>w'. world_ok cur w' \<and> loop_ids w' = loop_ids w0)"
  using assms(8)
proof (induction rule: loop_reaches.induct)
  case start
  have "epoll_reports os w0" by (rule assms(7)[OF loop_reaches.start assms(5) refl])
  from iteration_ok[OF assms(1-6) this, of other] show ?case using assms(5) by simp
next
  case (iterate w w')
  then have ok: "world_ok cur w'" "loop_ids w' = loop_ids w0" by simp_all
  have acc: "accept_spec os (wakeupfd w')" using loop_idsD(1)[OF ok(2)] assms(6) by simp
  have "epoll_reports os w'" using assms(7)[OF loop_reaches.iterate[OF iterate.hyps] ok] .
  from iteration_ok[OF assms(1-4) ok(1) acc this, of other] show ?case using ok by simp
qed

text \<open>\<open>EventLoop::loop\<close> itself, where it returns or faults after at most \<open>n\<close> iterations.\<close>

lemma server_loop_returns:
  assumes "good_app E cur user hwm" and "write_spec os sent" and "readv_spec os" and "alloc_spec alloc"
    and "world_ok cur (w\<lparr>quit := False\<rparr>)" and "accept_spec os (wakeupfd w)"
    and reports: "\<And>v. loop_reaches os (server_invoke os user hwm alloc other cur) cur (w\<lparr>quit := False\<rparr>) v \<Longrightarrow> world_ok cur v \<Longrightarrow>
      loop_ids v = loop_ids (w\<lparr>quit := False\<rparr>) \<Longrightarrow> epoll_reports os v"
    and run: "EventLoop_loop os (\<lambda>q v. conns v q \<noteq> None) (server_invoke os user hwm alloc other cur) cur n w = Some r"
  shows "result_in (insert LengthError E) r (world_ok cur)"
proof -
  let ?inv = "server_invoke os user hwm alloc other cur" and ?w = "w\<lparr>quit := False\<rparr>"
  have acc: "accept_spec os (wakeupfd ?w)" using assms(6) by simp
  have ok: "world_ok cur v" "result_in (insert LengthError E) (EventLoop_iteration os (\<lambda>q v. conns v q \<noteq> None) ?inv cur v) (world_ok cur)"
    if "loop_reaches os ?inv cur ?w v" for v
    using reachable_ok[OF assms(1-5) acc reports that] by (auto elim!: result_in_mono)
  have "EventLoop_while os (\<lambda>q v. conns v q \<noteq> None) ?inv cur n ?w = Some r"
    using run world_okD(1)[OF assms(5)] by (simp add: EventLoop_loop_def)
  from while_reaches[OF ok(2) ok(1) loop_reaches.start this] show ?thesis .
qed

section \<open>A server from its constructors on\<close>


section \<open>Witness\<close>

text \<open>
  An application that greets every peer is within the contract; a kernel on which a connection request
  arrives in every iteration; an allocator.
\<close>

lemma sender_good:
  assumes "write_spec os sent" "length data \<le> max_size"
  shows "good_app {LengthError} cur (\<lambda>n p. conn_send os cur p data) (\<lambda>cb p n w. Inr w)"
proof -
  have "result_in {LengthError} (conn_send os cur p data w) (dispatch_step serves p w)"
    if ok: "conn_ok p w" "tid w = cur" "served p w" "state_of p w \<noteq> kConnecting" for p and w :: "('a, 'b) server_world_scheme"
  proof -
    obtain conn where "conns w p = Some conn" "p \<noteq> 0" using ok(1) by (auto elim: conn_okE)
    then show ?thesis
      using sendInLoop_step[OF assms(1) ok(1,3,2,4) assms(2)] step_refl[OF ok(1)] ok(2) by (simp add: conn_send_def isInLoopThread_def)
  qed
  then show ?thesis by (simp add: good_app_def step_refl)
qed

definition greet_os :: "sample_kernel os" where
  "greet_os = sample_os\<lparr>sys_epoll_wait := (\<lambda>n k. (if 1 \<le> n then Inr [(EPOLLIN, 10)] else Inl 22, k)),
     sys_accept4 := (\<lambda>fd k. (Inr (9, \<lparr>sin_family = 2, sin_port = 5000, sin_addr = 1\<rparr>), k))\<rparr>"

lemma greet_os_specs: "write_spec greet_os sk_sent" "readv_spec greet_os" "accept_spec greet_os 4"
  using sample_os_write sample_readv by (simp_all add: greet_os_def write_spec_def readv_spec_def accept_spec_def)

definition next_address :: "(nat \<rightharpoonup> 'o) \<Rightarrow> nat" where
  "next_address h = Suc (Max (insert 0 (dom h)))"

lemma next_address_fresh: "finite (dom h) \<Longrightarrow> h (next_address h) = None"
proof (rule ccontr)
  assume fin: "finite (dom h)" and "h (next_address h) \<noteq> None"
  then have "next_address h \<le> Max (insert 0 (dom h))" by (intro Max_ge) auto
  then show False by (simp add: next_address_def)
qed

definition greet_alloc :: "('k, 'z) server_world_scheme \<Rightarrow> nat \<times> nat" where
  "greet_alloc w = (next_address (conns w), next_address (channels w))"

lemma greet_alloc_spec: "alloc_spec greet_alloc"
  by (auto simp: alloc_spec_def greet_alloc_def next_address_fresh) (simp_all add: next_address_def)

definition greet_loop :: "sample_kernel EventLoop" where
  "greet_loop = projr (EventLoop_new greet_os 1 False 3 4 6 2 3 sample_state)"

definition greet_world :: "sample_kernel server_world" where
  "greet_world = projr (server_setup greet_os 1 10 (InetAddress_new 80 True) (Some (UserConnCallback 0)) (Some DefaultMessageCallback) None
     (loop_world greet_loop (server sample_server) ()))"

lemma greet_loop_new: "EventLoop_new greet_os 1 False 3 4 6 2 3 sample_state = Inr greet_loop"
  using mask_nonzero(1)[of 0]
  by (simp add: greet_loop_def EventLoop_new_def TimerQueue_new_def EPollPoller_new_def enableRead.interest_eq setReadCallback_def
      Channel_new_def Let_def)

lemma greet_world_new:
  "server_setup greet_os 1 10 (InetAddress_new 80 True) (Some (UserConnCallback 0)) (Some DefaultMessageCallback) None
     (loop_world greet_loop (server sample_server) ()) = Inr greet_world"
  using EventLoop_new_state(1)[OF greet_loop_new] mask_nonzero(1)[of 0]
  by (simp add: greet_world_def server_setup_def TcpServerSingle_new_def TcpServerSingle_start_def Acceptor_new_def Acceptor_listen_def
      createSocket_def sys_or_fatal_def sys_def greet_os_def sample_os_def set_callbacks_def setNewConnectionCallback_def set_acceptor_def
      acceptor_def modify_channel_def put_channel_def server_setConnectionCallback_def server_setMessageCallback_def
      server_setWriteCompleteCallback_def enableRead.interest_eq Channel.setReadCallback_def Channel_new_def)

lemma greet_reports:
  assumes "world_ok 1 v" "loop_ids v = loop_ids greet_world"
  shows "epoll_reports greet_os v"
proof -
  have ready: "loop_ready 1 (loop_world greet_loop (server sample_server) ())" by (rule loop_world_ready[OF greet_loop_new]) simp_all
  have "channels (loop_world greet_loop (server sample_server) ()) 10 = None"
    using EventLoop_new_state(7)[OF greet_loop_new] domIff[of 10 "channels greet_loop"] by simp
  from server_setup_world(3,4)[OF ready _ this _ _ _ greet_world_new]
  have c: "acceptChannel (acceptor v) = 10" "timerChannel (timerQueue v) = 3"
    using loop_idsD(3,4)[OF assms(2)] EventLoop_new_state(5)[OF greet_loop_new] by (simp_all add: app_callback_def)
  obtain ch where "channels v 10 = Some ch" "pooling ch" using world_okD(9)[OF assms(1)] c(1) by (auto simp: listens_def)
  then show ?thesis
    using c(2) by (simp add: epoll_reports_def greet_os_def event_ok_def reported_def hangs_up_def epoll_masks)
qed


end
