(* ===== verification/TcpServer_Threads.thy ===== *)
theory TcpServer_Threads
  imports TcpServer
begin

text \<open>
  The threads of \<open>TcpServer\<close>: an invariant of \<open>startInLoop\<close>, \<open>runInThread\<close> and the destructor in
  every interleaving, and that the destructor comes to its end.
\<close>

section \<open>What the loop of a thread leaves alone\<close>

text \<open>
  The configuration of a server: its address, the callback of its acceptor and the callbacks
  for connections. No operation of a loop changes it, nor the thread of the loop, nor its flag
  \<open>quit_\<close>, unless the application does.
\<close>

definition server_config ::
  "TcpServerSingle \<Rightarrow> InetAddress \<times> new_conn_callback option \<times> conn_callback option \<times> conn_callback option \<times> conn_callback option"
where
  "server_config v = (acceptor_local (server_acceptor v), newConnectionCallback (server_acceptor v),
     server_connectionCallback v, server_messageCallback v, server_writeCompleteCallback v)"

definition same_setup :: "nat \<Rightarrow> 'k server_world \<Rightarrow> 'k server_world \<Rightarrow> bool" where
  "same_setup i w w' \<longleftrightarrow> tid w' = tid w \<and> server_config (server w') = server_config (server w) \<and>
     (0 < i \<longrightarrow> quit w' = quit w)"

lemma same_setup_refl [simp]: "same_setup i w w"
  by (simp add: same_setup_def)

lemma same_setup_trans: "same_setup i w w' \<Longrightarrow> same_setup i w' w'' \<Longrightarrow> same_setup i w w''"
  by (auto simp: same_setup_def)

lemma same_setup_frame [simp]:
  "same_setup i w (put_channel c ch w)" "same_setup i w (snd (sys call w))" "same_setup i w (with_interest os c ch e w)"
  "same_setup i w (w\<lparr>activeChannels := a\<rparr>)" "same_setup i w (w\<lparr>poller := q\<rparr>)" "same_setup i w (w\<lparr>pendingTasks := t\<rparr>)"
  "same_setup i w (w\<lparr>doingPendingTasks := b\<rparr>)" 
  by (simp_all add: same_setup_def put_channel_def sys_def with_interest_def case_prod_beta)

definition keeps_setup :: "nat \<Rightarrow> ('k server_world \<Rightarrow> 'k server_world result) \<Rightarrow> bool" where
  "keeps_setup i f \<longleftrightarrow> (\<forall>w. result_in UNIV (f w) (same_setup i w))"

lemma keeps_setup_rbind:
  assumes "result_in UNIV r (same_setup i w)" and "\<And>w'. result_in UNIV (f w') (same_setup i w')"
  shows "result_in UNIV (rbind r f) (same_setup i w)"
  using assms(1) by (rule result_in_rbind) (rule result_in_mono[OF assms(2)], auto intro: same_setup_trans)

lemma keeps_setup_bind:
  assumes "result_in UNIV r (same_setup i w)" and "keeps_setup i f"
  shows "result_in UNIV (rbind r f) (same_setup i w)"
  using keeps_setup_rbind assms by (auto simp: keeps_setup_def)

lemma keeps_setup_guard: "(\<And>x. r = Inr x \<Longrightarrow> result_in UNIV (f x) P) \<Longrightarrow> result_in UNIV (rbind r f) P"
  by (cases r) auto

lemma keeps_setup_rfold: "(\<And>x. keeps_setup i (f x)) \<Longrightarrow> result_in UNIV (rfold f xs w) (same_setup i w)"
proof (induction xs arbitrary: w)
  case (Cons x xs)
  then show ?case by (auto simp: keeps_setup_def intro!: keeps_setup_rbind)
qed simp

lemma keeps_setup_modify: "result_in UNIV (modify_channel c f w) (same_setup i w)"
  unfolding modify_channel_def by (rule keeps_setup_guard) simp

lemma keeps_setup_poll: "result_in UNIV (EPollPoller_poll os cur w) (same_setup i w)"
proof -
  have push: "keeps_setup i (EPollPoller_push x)" for x
    unfolding keeps_setup_def EPollPoller_push_def case_prod_beta
    by (auto intro!: keeps_setup_rbind keeps_setup_modify)
  let ?n = "sint (word_of_nat (ep_events_size (poller w)) :: 32 word)"
  have s: "same_setup i w (snd (sys (sys_epoll_wait os ?n) w))" by simp
  obtain r w1 where r: "sys (sys_epoll_wait os ?n) w = (r, w1)" by fastforce
  then have w1: "same_setup i w w1" using s by simp
  show ?thesis
  proof (cases r)
    case (Inl e)
    then show ?thesis using r w1 unfolding EPollPoller_poll_def by (auto intro!: keeps_setup_guard simp: Let_def)
  next
    case (Inr evs)
    have "result_in UNIV (rbind (rfold EPollPoller_push evs w1) (\<lambda>l2.
                 Inr (if int (length evs) = ?n
                      then l2\<lparr>poller := (poller l2)\<lparr>ep_events_size := 2 * ep_events_size (poller w)\<rparr>\<rparr>
                      else l2))) (same_setup i w)"
      by (rule keeps_setup_rbind[OF result_in_mono[OF keeps_setup_rfold[OF push]]])
        (auto intro: same_setup_trans[OF w1])
    then show ?thesis using r w1 Inr unfolding EPollPoller_poll_def
      by (auto intro!: keeps_setup_guard simp: Let_def)
  qed
qed

lemma keeps_setup_events:
  fixes invoke :: "closure \<Rightarrow> 'k server_world \<Rightarrow> 'k server_world result"
  assumes "\<And>f. keeps_setup i (invoke f)"
  shows "keeps_setup i (handleEvents alive invoke cur c)"
proof -
  have d: "keeps_setup i (dispatch_if invoke c t cb)" for t cb
    unfolding keeps_setup_def dispatch_if_def
    using assms by (auto simp: keeps_setup_def intro!: keeps_setup_guard split: option.splits)
  have "keeps_setup i (handleEventWithGuard invoke c)"
    unfolding keeps_setup_def handleEventWithGuard_def
    by (intro allI keeps_setup_rbind keeps_setup_modify) (use d in \<open>simp_all add: keeps_setup_def\<close>)
  then show ?thesis
    unfolding keeps_setup_def handleEvents_def
    by (auto intro!: keeps_setup_guard split: option.splits)
qed

lemma keeps_setup_iteration:
  fixes invoke :: "closure \<Rightarrow> 'k server_world \<Rightarrow> 'k server_world result"
  assumes "\<And>f. keeps_setup i (invoke f)"
  shows "keeps_setup i (EventLoop_iteration os alive invoke cur)"
proof -
  have t: "keeps_setup i (doPendingTasks invoke cur)"
    unfolding keeps_setup_def
  proof
    fix w :: "'k server_world"
    let ?w1 = "w\<lparr>pendingTasks := [], doingPendingTasks := True\<rparr>"
    have "same_setup i w ?w1" by (simp add: same_setup_def)
    then have "result_in UNIV (rfold invoke (pendingTasks w) ?w1) (same_setup i w)"
      by (intro result_in_mono[OF keeps_setup_rfold[OF assms]]) (auto intro: same_setup_trans)
    then show "result_in UNIV (doPendingTasks invoke cur w) (same_setup i w)"
      unfolding doPendingTasks_def Let_def by (intro keeps_setup_guard keeps_setup_rbind) simp_all
  qed
  show ?thesis
    unfolding keeps_setup_def EventLoop_iteration_def
    by (intro allI keeps_setup_rbind keeps_setup_bind[OF _ t] result_in_mono[OF keeps_setup_poll] keeps_setup_rfold
        keeps_setup_events assms) (auto intro: same_setup_trans[rotated])
qed

section \<open>The server of a thread is set up as the \<open>TcpServer\<close> says\<close>

definition configured :: "TcpServer \<Rightarrow> nat \<Rightarrow> 'k server_world \<Rightarrow> bool" where
  "configured t i w \<longleftrightarrow> tid w = i \<and>
     server_config (server w) = (ts_local t, Some TcpServerSingle_newConnection_cb, ts_connectionCallback t,
       ts_messageCallback t, ts_writeCompleteCallback t)"

lemma configured_same: "configured t i w \<Longrightarrow> same_setup i' w w' \<Longrightarrow> configured t i w'"
  by (auto simp: configured_def same_setup_def)

lemma keeps_setup_sys_or_fatal: "result_in UNIV (sys_or_fatal call w) (same_setup i w)"
  using same_setup_frame(2)[of i w call]
  by (auto simp: sys_or_fatal_def case_prod_beta Let_def intro!: keeps_setup_guard)

lemma make_server_configured:
  assumes "make_server os c t w = Inr w'"
  shows "configured t (tid w) w' \<and> quit w' = quit w"
proof -
  have sys: "tid w2 = tid w1 \<and> quit w2 = quit w1 \<and> server w2 = server w1"
    if "sys_or_fatal call w1 = Inr w2" for call and w1 w2 :: "'a server_world"
    using that by (auto simp: sys_or_fatal_def sys_def case_prod_beta Let_def rbind_eq_Inr)
  show ?thesis
    using assms
    by (auto simp: make_server_def TcpServerSingle_new_def Acceptor_new_def createSocket_def case_prod_beta Let_def
        rbind_eq_Inr configured_def server_config_def setNewConnectionCallback_def set_acceptor_def acceptor_def
        server_setWriteCompleteCallback_def server_setMessageCallback_def server_setConnectionCallback_def
        put_channel_def sys_def dest!: sys)
qed

lemma keeps_setup_enableRead: "keeps_setup i (enableRead os cur c)"
proof -
  have "keeps_setup i (Channel_update os cur c)"
    unfolding keeps_setup_def Channel_update_def EventLoop_updateChannel_def EPollPoller_updateChannel_def EPollPoller_ctl_def
    by (auto intro!: keeps_setup_guard simp: same_setup_def sys_def put_channel_def case_prod_beta)
  then show ?thesis
    unfolding keeps_setup_def enableRead_def by (intro allI keeps_setup_rbind keeps_setup_modify) simp_all
qed

lemma keeps_setup_start: "keeps_setup i (TcpServerSingle_start os cur)"
  unfolding keeps_setup_def TcpServerSingle_start_def Acceptor_listen_def
  by (intro allI keeps_setup_guard keeps_setup_rbind keeps_setup_sys_or_fatal keeps_setup_modify)
    (rule keeps_setup_enableRead[unfolded keeps_setup_def, rule_format])

lemma thread_world_configured:
  assumes "thread_world os f t i k = Inr w"
  shows "configured t i w \<and> \<not> quit w"
proof -
  obtain l where l: "EventLoop_new os i False (f_epfd f) (f_evfd f) (f_tfd f) (f_wakeup f) (f_timer f) k = Inr l"
    and w: "make_server os (f_accept f) t
       (conn_world.extend (EventLoop.extend l (conn_world.fields Map.empty))
         (server_world.fields
           \<lparr>server_acceptor = \<lparr>listening = False, acceptfd = -1, acceptChannel = 0, acceptor_local = ts_local t,
                newConnectionCallback = None\<rparr>,
            connections = {}, server_connectionCallback = None, server_messageCallback = None,
            server_writeCompleteCallback = None\<rparr>)) = Inr w"
    using assms by (auto simp: thread_world_def rbind_eq_Inr)
  have en: "tid l' = tid l0 \<and> quit l' = quit l0" if "enableRead os i c l0 = Inr l'" for c and l0 l' :: "'a EventLoop"
    using that by (auto simp: enableRead_def modify_channel_Inr rbind_eq_Inr Channel_update_def EventLoop_updateChannel_def
        EPollPoller_updateChannel_def EPollPoller_ctl_def sys_def put_channel_def case_prod_beta split: if_splits)
  have "tid l = i \<and> \<not> quit l"
    using l by (auto simp: EventLoop_new_def TimerQueue_new_def rbind_eq_Inr modify_channel_Inr put_channel_def Let_def dest!: en)
  then show ?thesis
    using make_server_configured[OF w] by (simp add: conn_world.defs server_world.defs EventLoop.defs)
qed

text \<open>
  The application: its thread callback and the callbacks it runs leave the configuration of
  the servers alone, and in the threads of the server they do not call \<open>quit\<close>.
\<close>

definition well_behaved ::
  "(nat \<Rightarrow> nat \<Rightarrow> 'k server_world \<Rightarrow> 'k server_world result) \<Rightarrow>
   (nat \<Rightarrow> closure \<Rightarrow> 'k server_world \<Rightarrow> 'k server_world result) \<Rightarrow> bool"
where
  "well_behaved init invoke \<longleftrightarrow> (\<forall>n i. keeps_setup i (init n i)) \<and> (\<forall>i f. keeps_setup i (invoke i f))"

lemma begin_service_setup:
  assumes "well_behaved init invoke"
  shows "keeps_setup i (begin_service os init t i)"
  unfolding keeps_setup_def begin_service_def
  by (intro allI keeps_setup_bind[OF _ keeps_setup_start])
    (use assms in \<open>auto simp: well_behaved_def keeps_setup_def split: option.splits\<close>)

text \<open>A server before \<open>start\<close>; the constructor and every setter lead to such a state.\<close>

definition prepared :: "TcpServer \<Rightarrow> bool" where
  "prepared t \<longleftrightarrow> 0 < numThreads t \<and> ts_threads t = [] \<and>
     (numThreads t = 1 \<and> eventLoops t = [] \<or> eventLoops t = replicate (numThreads t) None)"

lemma prepared_new: "prepared (TcpServer_new local)"
  by (simp add: prepared_def TcpServer_new_def)

lemma prepared_setNumThread:
  assumes "prepared t" "setNumThread cur n base t = Inr t'"
  shows "prepared t'"
  using assms
  by (auto simp: prepared_def setNumThread_def rbind_eq_Inr vector_resize_def min_def replicate_add[symmetric] split: if_splits)

lemma prepared_set:
  "prepared t \<Longrightarrow> prepared (setThreadInitCallback cb t)" "prepared t \<Longrightarrow> prepared (ts_setConnectionCallback cc t)"
  "prepared t \<Longrightarrow> prepared (ts_setMessageCallback cc t)" "prepared t \<Longrightarrow> prepared (ts_setWriteCompleteCallback cc t)"
  by (simp_all add: prepared_def setThreadInitCallback_def ts_setConnectionCallback_def ts_setMessageCallback_def
      ts_setWriteCompleteCallback_def)

section \<open>Invariant\<close>

text \<open>
  For the base thread, what its position tells; for thread i (\<open>worker_ok\<close>), that the pointer in
  \<open>eventLoops_\<close> is set exactly between its two assignments, that a thread the base thread has
  waited for has set it, that its server is configured, and that it leaves its loop only when
  the destructor has asked it to.
\<close>

definition main_ok :: "'k server_system \<Rightarrow> bool" where
  "main_ok s \<longleftrightarrow>
     (let t = ts s; len = length (ts_threads t); n = numThreads t in
      case main s of
        M_idle \<Rightarrow> len = 0 \<and> tid (worlds s 0) = 0
      | M_for i \<Rightarrow> i = Suc len \<and> i \<le> n \<and> configured t 0 (worlds s 0)
      | M_wait i \<Rightarrow> i = Suc len \<and> i < n \<and> configured t 0 (worlds s 0)
      | M_run \<Rightarrow> Suc len = n \<and> configured t 0 (worlds s 0)
      | M_quit i \<Rightarrow> True
      | M_call i j \<Rightarrow> j = i \<and> 0 < i \<and> i < length (eventLoops t) \<and> worker s i \<noteq> W_none
      | M_join k \<Rightarrow> \<forall>i. 0 < i \<and> i \<le> k \<and> i \<le> len \<longrightarrow> worker s i = W_exit
      | M_done \<Rightarrow> \<forall>i. 0 < i \<and> i \<le> len \<longrightarrow> worker s i = W_exit)"

definition begun :: "'k server_system \<Rightarrow> nat" where
  "begun s = (case main s of M_wait i \<Rightarrow> Suc i | _ \<Rightarrow> Suc (length (ts_threads (ts s))))"

definition asked :: "'k server_system \<Rightarrow> nat \<Rightarrow> bool" where
  "asked s i = (case main s of M_quit k \<Rightarrow> i < k | M_call k j \<Rightarrow> i < k | M_join _ \<Rightarrow> True | M_done \<Rightarrow> True | _ \<Rightarrow> False)"

definition worker_ok :: "TcpServer \<Rightarrow> bool \<Rightarrow> bool \<Rightarrow> bool \<Rightarrow> nat \<Rightarrow> worker_pc \<Rightarrow> 'k server_world \<Rightarrow> bool" where
  "worker_ok t started waited quitting i pc w \<longleftrightarrow>
     (pc = W_none \<longleftrightarrow> \<not> started) \<and>
     (i < length (eventLoops t) \<longrightarrow>
        eventLoops t ! i = (if pc \<in> {W_init, W_enter, W_while, W_leave} then Some i else None)) \<and>
     (waited \<longrightarrow> pc \<notin> {W_new, W_publish}) \<and>
     (pc \<in> {W_publish, W_init, W_enter, W_while, W_leave} \<longrightarrow> configured t i w \<and> (\<not> quitting \<longrightarrow> \<not> quit w)) \<and>
     (pc \<in> {W_leave, W_exit} \<longrightarrow> quitting)"

definition in_order :: "nat list \<Rightarrow> bool" where
  "in_order ks \<longleftrightarrow> ks = [1..<Suc (length ks)]"

lemma in_order_simps [simp]: "in_order []" "in_order (ks @ [Suc (length ks)]) \<longleftrightarrow> in_order ks"
  by (auto simp: in_order_def)

definition server_inv :: "'k server_system \<Rightarrow> bool" where
  "server_inv s \<longleftrightarrow>
     (let t = ts s in
      0 < numThreads t \<and> (numThreads t = 1 \<and> eventLoops t = [] \<or> length (eventLoops t) = numThreads t) \<and>
      length (ts_threads t) < numThreads t \<and>
      in_order (ts_threads t) \<and> main_ok s \<and>
      (\<forall>i. worker_ok t (0 < i \<and> i < begun s) (0 < i \<and> i \<le> length (ts_threads t)) (asked s i) i (worker s i) (worlds s i)))"

definition system_start :: "'k server_system \<Rightarrow> bool" where
  "system_start s \<longleftrightarrow> prepared (ts s) \<and> main s = M_idle \<and> worker s = (\<lambda>_. W_none) \<and> halted s = None \<and> tid (worlds s 0) = 0"

lemma system_start_inv: "system_start s \<Longrightarrow> server_inv s"
  by (auto simp: system_start_def prepared_def server_inv_def main_ok_def worker_ok_def begun_def asked_def Let_def)

lemma configured_ts [simp]:
  "configured (t\<lparr>eventLoops := e\<rparr>) i w = configured t i w" "configured (t\<lparr>ts_threads := l\<rparr>) i w = configured t i w"
  by (simp_all add: configured_def)

lemma worker_ok_threads [simp]: "worker_ok (t\<lparr>ts_threads := l\<rparr>) a b c i pc w = worker_ok t a b c i pc w"
  by (simp add: worker_ok_def)

lemma server_inv_halted [simp]: "server_inv (s\<lparr>halted := h\<rparr>) = server_inv s"
proof -
  have "main_ok (s\<lparr>halted := h\<rparr>) = main_ok s" "begun (s\<lparr>halted := h\<rparr>) = begun s" "asked (s\<lparr>halted := h\<rparr>) = asked s"
    by (cases "main s"; simp add: main_ok_def begun_def asked_def fun_eq_iff)+
  then show ?thesis by (simp add: server_inv_def)
qed

lemma server_inv_worker:
  "server_inv s \<Longrightarrow>
   worker_ok (ts s) (0 < i \<and> i < begun s) (0 < i \<and> i \<le> length (ts_threads (ts s))) (asked s i) i (worker s i) (worlds s i)"
  by (simp add: server_inv_def Let_def)

lemma server_inv_thread:
  "server_inv s \<Longrightarrow> 0 < i \<Longrightarrow>
   worker_ok (ts s) (i < begun s) (i \<le> length (ts_threads (ts s))) (asked s i) i (worker s i) (worlds s i)"
  using server_inv_worker[of s i] by simp

lemma worker_inv_update:
  assumes inv: "server_inv s" and i: "0 < i" "i < begun s" "worker s i \<noteq> W_exit"
    and ok: "worker_ok ((ts s)\<lparr>eventLoops := (eventLoops (ts s))[i := p]\<rparr>) True (i \<le> length (ts_threads (ts s))) (asked s i) i pc w"
  shows "server_inv (s\<lparr>ts := (ts s)\<lparr>eventLoops := (eventLoops (ts s))[i := p]\<rparr>, worlds := (worlds s)(i := w),
    worker := (worker s)(i := pc)\<rparr>)"
proof -
  let ?s = "s\<lparr>ts := (ts s)\<lparr>eventLoops := (eventLoops (ts s))[i := p]\<rparr>, worlds := (worlds s)(i := w),
    worker := (worker s)(i := pc)\<rparr>"
  have b: "begun ?s = begun s" "asked ?s j = asked s j" for j
    by (simp_all add: begun_def asked_def split: main_pc.splits)
  have m: "main_ok ?s"
  proof -
    have "main_ok s" using inv by (simp add: server_inv_def Let_def)
    moreover have "pc \<noteq> W_none" using ok by (simp add: worker_ok_def)
    ultimately show ?thesis using i by (cases "main s") (auto simp: main_ok_def Let_def)
  qed
  have "worker_ok (ts ?s) (0 < j \<and> j < begun s) (0 < j \<and> j \<le> length (ts_threads (ts s))) (asked s j) j (worker ?s j) (worlds ?s j)" for j
    using server_inv_worker[OF inv, of j] ok i by (cases "j = i") (simp_all add: worker_ok_def)
  with inv m b show ?thesis by (simp add: server_inv_def Let_def)
qed

lemma worker_inv_commit:
  assumes inv: "server_inv s" and i: "0 < i" "i < begun s" "worker s i \<noteq> W_exit"
    and ok: "\<And>w. r = Inr w \<Longrightarrow>
      worker_ok (ts s) True (i \<le> length (ts_threads (ts s))) (asked s i) i pc w"
  shows "server_inv (commit i r (goto_worker i pc) s)"
proof (cases r)
  case (Inl e)
  then show ?thesis using inv by (simp add: commit_def)
next
  case (Inr w)
  then show ?thesis
    using worker_inv_update[OF inv i, of "eventLoops (ts s) ! i" pc w] ok by (simp add: commit_def goto_worker_def)
qed

lemma worker_act_inv:
  assumes inv: "server_inv s" and wb: "well_behaved init invoke" and i: "0 < i" and h: "halted s = None"
  shows "server_inv (worker_act os fresh init alive invoke i s)"
proof (cases "worker s i \<in> {W_none, W_exit}")
  case True
  then show ?thesis using inv by (auto simp: worker_act_def)
next
  case False
  let ?t = "ts s" and ?w = "worlds s i"
  have ok: "worker_ok ?t (i < begun s) (i \<le> length (ts_threads ?t)) (asked s i) i (worker s i) ?w"
    using server_inv_worker[OF inv, of i] i by simp
  then have b: "i < begun s" using False by (auto simp: worker_ok_def)
  have len: "i < length (eventLoops ?t)"
    using inv b i by (auto simp: server_inv_def Let_def begun_def main_ok_def split: main_pc.splits)
  note upd = worker_inv_update[OF inv i b] and com = worker_inv_commit[OF inv i b]
  show ?thesis
  proof (cases "worker s i")
    case W_new
    then show ?thesis using ok b
      by (auto simp: worker_act_def worker_ok_def intro!: com dest!: thread_world_configured)
  next
    case W_publish
    then show ?thesis using upd[of "Some i" W_init ?w] ok b len h
      by (auto simp: worker_act_def worker_ok_def goto_worker_def set_loop_at_def)
  next
    case W_init
    have "same_setup i ?w w" if "begin_service os init ?t i ?w = Inr w" for w
      using begin_service_setup[OF wb, of i os ?t] that by (auto simp: keeps_setup_def dest!: spec[of _ ?w])
    then have "worker_ok ?t True (i \<le> length (ts_threads ?t)) (asked s i) i W_enter w"
      if "begin_service os init ?t i ?w = Inr w" for w
      using W_init ok b i that configured_same[of ?t i ?w i w] by (simp add: worker_ok_def same_setup_def)
    then show ?thesis using W_init by (auto simp: worker_act_def intro!: com)
  next
    case W_enter
    then show ?thesis using ok b i
      by (auto simp: worker_act_def worker_ok_def rbind_eq_Inr configured_def intro!: com)
  next
    case W_while
    have "same_setup i ?w w" if "EventLoop_iteration os alive (invoke i) i ?w = Inr w" for w
      using keeps_setup_iteration[of i "invoke i" os alive i] wb that
      by (auto simp: keeps_setup_def well_behaved_def dest!: spec[of _ ?w])
    then have "worker_ok ?t True (i \<le> length (ts_threads ?t)) (asked s i) i W_while w"
      if "EventLoop_iteration os alive (invoke i) i ?w = Inr w" for w
      using W_while ok b i that configured_same[of ?t i ?w i w] by (simp add: worker_ok_def same_setup_def)
    then have "server_inv (commit i (EventLoop_iteration os alive (invoke i) i ?w) (goto_worker i W_while) s)"
      using W_while by (intro com) auto
    moreover have "server_inv (goto_worker i W_leave s)" if "quit ?w"
      using upd[of "eventLoops ?t ! i" W_leave ?w, unfolded list_update_id] W_while ok b len that
      by (simp add: goto_worker_def worker_ok_def)
    ultimately show ?thesis using W_while by (simp add: worker_act_def)
  next
    case W_leave
    then show ?thesis using upd[of None W_exit ?w] ok b len h
      by (auto simp: worker_act_def worker_ok_def goto_worker_def set_loop_at_def)
  qed (use False in auto)
qed


lemma server_inv_parts:
  assumes "server_inv s"
  shows "length (ts_threads (ts s)) < numThreads (ts s)" and "in_order (ts_threads (ts s))" and "main_ok s"
    and "numThreads (ts s) = 1 \<and> eventLoops (ts s) = [] \<or> length (eventLoops (ts s)) = numThreads (ts s)"
  using assms by (simp_all add: server_inv_def Let_def)

text \<open>A step of the base thread that changes neither threads nor worlds but its own.\<close>

lemma main_inv_update:
  assumes inv: "server_inv s" and len: "length ks < numThreads (ts s)" "in_order ks"
    and m: "main_ok (s\<lparr>ts := (ts s)\<lparr>ts_threads := ks\<rparr>, worlds := (worlds s)(0 := w), main := pc, worker := wk\<rparr>)"
    and wk: "\<And>i. 0 < i \<Longrightarrow> worker_ok (ts s) (i < begun (s\<lparr>ts := (ts s)\<lparr>ts_threads := ks\<rparr>, main := pc\<rparr>)) (i \<le> length ks)
        (asked (s\<lparr>main := pc\<rparr>) i) i (wk i) (worlds s i)"
    and z: "wk 0 = worker s 0"
  shows "server_inv (s\<lparr>ts := (ts s)\<lparr>ts_threads := ks\<rparr>, worlds := (worlds s)(0 := w), main := pc, worker := wk\<rparr>)"
proof -
  let ?s = "s\<lparr>ts := (ts s)\<lparr>ts_threads := ks\<rparr>, worlds := (worlds s)(0 := w), main := pc, worker := wk\<rparr>"
  have b: "begun ?s = begun (s\<lparr>ts := (ts s)\<lparr>ts_threads := ks\<rparr>, main := pc\<rparr>)" "asked ?s i = asked (s\<lparr>main := pc\<rparr>) i" for i
    by (simp_all add: begun_def asked_def split: main_pc.splits)
  have "worker_ok (ts s) False False (asked (s\<lparr>main := pc\<rparr>) 0) 0 (worker s 0) w"
    using server_inv_worker[OF inv, of 0] by (simp add: worker_ok_def)
  then have "worker_ok (ts s) (0 < i \<and> i < begun ?s) (0 < i \<and> i \<le> length ks) (asked ?s i) i (wk i) (((worlds s)(0 := w)) i)" for i
    using wk[of i] z b by (cases i) simp_all
  then show ?thesis using inv len m by (simp add: server_inv_def Let_def)
qed

lemma start_step_inv:
  assumes inv: "server_inv s" and wb: "well_behaved init invoke" and pc: "main s = M_idle"
  shows "server_inv (start_step os fresh init s)"
proof -
  let ?r = "rbind (make_server os (f_accept (fresh 0)) (ts s) (worlds s 0)) (begin_service os init (ts s) 0)"
  have idle: "ts_threads (ts s) = []" "tid (worlds s 0) = 0"
    using server_inv_parts(3)[OF inv] pc by (simp_all add: main_ok_def)
  have "configured (ts s) 0 w" if r: "?r = Inr w" for w
  proof -
    obtain w1 where w1: "make_server os (f_accept (fresh 0)) (ts s) (worlds s 0) = Inr w1"
      and w: "begin_service os init (ts s) 0 w1 = Inr w" using r by (auto simp: rbind_eq_Inr)
    have "same_setup 0 w1 w"
      using begin_service_setup[OF wb, of 0 os "ts s"] w by (auto simp: keeps_setup_def dest!: spec[of _ w1])
    then show ?thesis using make_server_configured[OF w1] idle configured_same by metis
  qed
  then have "server_inv (s\<lparr>ts := (ts s)\<lparr>ts_threads := ts_threads (ts s)\<rparr>, worlds := (worlds s)(0 := w), main := M_for 1, worker := worker s\<rparr>)"
    if "?r = Inr w" for w
    using that idle pc server_inv_parts[OF inv] server_inv_thread[OF inv]
    by (intro main_inv_update[OF inv]) (simp_all add: main_ok_def begun_def asked_def)
  then show ?thesis using inv by (auto simp: start_step_def commit_def goto_main_def split: sum.splits)
qed

lemma for_step_inv:
  assumes inv: "server_inv s" and pc: "main s = M_for i"
  shows "server_inv (for_step i s)"
proof -
  have m: "i = Suc (length (ts_threads (ts s)))" "i \<le> numThreads (ts s)" "configured (ts s) 0 (worlds s 0)"
    using server_inv_parts(3)[OF inv] pc by (simp_all add: main_ok_def Let_def)
  show ?thesis
  proof (cases "i < numThreads (ts s)")
    case True
    have w: "worker_ok (ts s) (j < Suc i) (j \<le> length (ts_threads (ts s))) False j (((worker s)(i := W_new)) j) (worlds s j)"
      if "0 < j" for j
      using server_inv_worker[OF inv, of j] m pc that by (cases "j = i") (auto simp: worker_ok_def begun_def asked_def)
    have "server_inv (s\<lparr>ts := (ts s)\<lparr>ts_threads := ts_threads (ts s)\<rparr>, worlds := (worlds s)(0 := worlds s 0), main := M_wait i,
        worker := (worker s)(i := W_new)\<rparr>)"
      using True m w server_inv_parts[OF inv]
      by (intro main_inv_update[OF inv]) (simp_all add: main_ok_def begun_def asked_def)
    then show ?thesis using True by (simp add: for_step_def goto_main_def goto_worker_def)
  next
    case False
    have "server_inv (s\<lparr>ts := (ts s)\<lparr>ts_threads := ts_threads (ts s)\<rparr>, worlds := (worlds s)(0 := worlds s 0), main := M_run,
        worker := worker s\<rparr>)"
      using False m pc server_inv_parts[OF inv] server_inv_thread[OF inv]
      by (intro main_inv_update[OF inv]) (simp_all add: main_ok_def begun_def asked_def)
    then show ?thesis using False by (simp add: for_step_def goto_main_def goto_worker_def)
  qed
qed

lemma wait_step_inv:
  assumes inv: "server_inv s" and pc: "main s = M_wait i"
  shows "server_inv (wait_step i s)"
proof -
  have m: "i = Suc (length (ts_threads (ts s)))" "i < numThreads (ts s)" "configured (ts s) 0 (worlds s 0)"
    using server_inv_parts(3)[OF inv] pc by (simp_all add: main_ok_def Let_def)
  have len: "i < length (eventLoops (ts s))" using m server_inv_parts(4)[OF inv] by auto
  have w: "worker_ok (ts s) (j < Suc i) (j \<le> i) False j (worker s j) (worlds s j)"
    if "0 < j" "eventLoops (ts s) ! i \<noteq> None" for j
    using server_inv_worker[OF inv, of j] m pc that len
    by (cases "j = i") (auto simp: worker_ok_def begun_def asked_def split: if_splits)
  have "server_inv (s\<lparr>ts := (ts s)\<lparr>ts_threads := ts_threads (ts s) @ [i]\<rparr>, worlds := (worlds s)(0 := worlds s 0), main := M_for (Suc i),
        worker := worker s\<rparr>)" if "eventLoops (ts s) ! i \<noteq> None"
    using m w[OF _ that] server_inv_parts[OF inv]
    by (intro main_inv_update[OF inv]) (simp_all add: main_ok_def begun_def asked_def)
  then show ?thesis using inv len by (auto simp: wait_step_def loop_at_def goto_main_def split: option.splits)
qed

lemma worker_ok_mono: "worker_ok t a b c i pc w \<Longrightarrow> (c \<Longrightarrow> c') \<Longrightarrow> worker_ok t a b c' i pc w"
  by (cases c; cases c') (simp_all add: worker_ok_def)

lemma worker_ok_quit:
  "worker_ok t a b c i pc w \<Longrightarrow> (configured t i w \<Longrightarrow> configured t i w') \<Longrightarrow> worker_ok t a b True i pc w'"
  by (simp add: worker_ok_def)

lemma main_inv_pc:
  assumes inv: "server_inv s" and m: "main_ok (s\<lparr>main := pc\<rparr>)" and b: "begun (s\<lparr>main := pc\<rparr>) = begun s"
    and a: "\<And>j. asked s j \<Longrightarrow> asked (s\<lparr>main := pc\<rparr>) j"
  shows "server_inv (s\<lparr>main := pc\<rparr>)"
proof -
  have "worker_ok (ts s) (j < begun (s\<lparr>main := pc\<rparr>)) (j \<le> length (ts_threads (ts s))) (asked (s\<lparr>main := pc\<rparr>) j) j (worker s j) (worlds s j)"
    if "0 < j" for j
    unfolding b by (rule worker_ok_mono[OF server_inv_thread[OF inv that]]) (rule a)
  then have "server_inv (s\<lparr>ts := (ts s)\<lparr>ts_threads := ts_threads (ts s)\<rparr>, worlds := (worlds s)(0 := worlds s 0), main := pc, worker := worker s\<rparr>)"
    using m server_inv_parts(1,2)[OF inv] by (intro main_inv_update[OF inv]) simp_all
  then show ?thesis by simp
qed

lemma quit_step_inv:
  assumes inv: "server_inv s" and pc: "main s = M_quit i"
  shows "server_inv (quit_step i s)"
proof -
  have upd: "server_inv (goto_main pc' s)" if "main_ok (s\<lparr>main := pc'\<rparr>)" "begun (s\<lparr>main := pc'\<rparr>) = begun s"
    "\<And>j. j < i \<Longrightarrow> asked (s\<lparr>main := pc'\<rparr>) j" for pc'
    unfolding goto_main_def using that pc by (intro main_inv_pc[OF inv]) (simp_all add: asked_def)
  have next_i: "server_inv (goto_main (M_quit (Suc i)) s)" and join: "server_inv (goto_main (M_join 0) s)"
    using pc by (auto intro!: upd simp: main_ok_def begun_def asked_def)
  have "server_inv (goto_main (M_call i j) s)" if "i < length (eventLoops (ts s))" "eventLoops (ts s) ! i = Some j" for j
  proof -
    have "j = i \<and> 0 < i \<and> worker s i \<noteq> W_none"
      using that server_inv_worker[OF inv, of i] by (cases "worker s i") (simp_all add: worker_ok_def)
    then show ?thesis using that pc by (intro upd) (simp_all add: main_ok_def begun_def asked_def)
  qed
  with next_i join show ?thesis by (simp add: quit_step_def split: option.split)
qed

lemma call_step_inv:
  assumes inv: "server_inv s" and pc: "main s = M_call i j"
  shows "server_inv (call_step os i j s)"
proof -
  have m: "j = i" "0 < i" using server_inv_parts(3)[OF inv] pc by (auto simp: main_ok_def Let_def)
  let ?w = "worlds s i"
  have q: "configured t i w' = configured t i ?w" if "EventLoop_quit os 0 ?w = Inr w'" for w' t
    using that by (auto simp: EventLoop_quit_def rbind_eq_Inr Let_def configured_def EventLoop_wakeup_def sys_def
        case_prod_beta split: if_splits)
  have "server_inv (s\<lparr>worlds := (worlds s)(i := w'), main := M_quit (Suc i)\<rparr>)" if r: "EventLoop_quit os 0 ?w = Inr w'" for w'
  proof -
    let ?s = "s\<lparr>worlds := (worlds s)(i := w'), main := M_quit (Suc i)\<rparr>"
    have b: "begun ?s = begun s" "asked ?s = (\<lambda>k. k < Suc i)" "asked s = (\<lambda>k. k < i)"
      using pc by (simp_all add: begun_def asked_def fun_eq_iff)
    have "worker_ok (ts s) (0 < k \<and> k < begun s) (0 < k \<and> k \<le> length (ts_threads (ts s))) (k < Suc i) k (worker s k) (worlds ?s k)" for k
    proof (cases "k = i")
      case True
      then show ?thesis using worker_ok_quit[OF server_inv_worker[OF inv, of i], of w'] q[OF r] by simp
    next
      case False
      then show ?thesis using worker_ok_mono[OF server_inv_worker[OF inv, of k], of "k < Suc i"] b(3) by simp
    qed
    moreover have "main_ok ?s" by (simp add: main_ok_def)
    ultimately show ?thesis using inv b by (simp add: server_inv_def Let_def)
  qed
  then show ?thesis using inv m by (auto simp: call_step_def commit_def goto_main_def split: sum.splits if_splits)
qed

lemma join_step_inv:
  assumes inv: "server_inv s" and pc: "main s = M_join k"
  shows "server_inv (join_step k s)"
proof -
  have "ts_threads (ts s) ! k = Suc k" if "k < length (ts_threads (ts s))"
    using that server_inv_parts(2)[OF inv] unfolding in_order_def by (metis One_nat_def Suc_less_eq nth_upt plus_1_eq_Suc)
  moreover have "\<forall>i. 0 < i \<and> i \<le> k \<and> i \<le> length (ts_threads (ts s)) \<longrightarrow> worker s i = W_exit"
    using server_inv_parts(3)[OF inv] pc by (simp add: main_ok_def Let_def)
  ultimately show ?thesis
    using inv pc unfolding join_step_def goto_main_def
    by (auto intro!: main_inv_pc[OF inv] simp: main_ok_def begun_def asked_def le_Suc_eq Let_def)
qed

lemma base_loop_inv:
  assumes inv: "server_inv s" and pc: "main s = M_run" and wb: "well_behaved init invoke"
  shows "server_inv (commit 0 (EventLoop_iteration os alive (invoke 0) 0 (worlds s 0)) (goto_main M_run) s)"
proof -
  have c: "configured (ts s) 0 (worlds s 0)" "Suc (length (ts_threads (ts s))) = numThreads (ts s)"
    using server_inv_parts(3)[OF inv] pc by (simp_all add: main_ok_def Let_def)
  have "same_setup 0 (worlds s 0) w" if "EventLoop_iteration os alive (invoke 0) 0 (worlds s 0) = Inr w" for w
    using keeps_setup_iteration[of 0 "invoke 0" os alive 0] wb that
    by (auto simp: keeps_setup_def well_behaved_def dest!: spec[of _ "worlds s 0"])
  then have "configured (ts s) 0 w" if "EventLoop_iteration os alive (invoke 0) 0 (worlds s 0) = Inr w" for w
    using configured_same[OF c(1)] that by blast
  then have "server_inv (s\<lparr>ts := (ts s)\<lparr>ts_threads := ts_threads (ts s)\<rparr>, worlds := (worlds s)(0 := w), main := M_run, worker := worker s\<rparr>)"
    if "EventLoop_iteration os alive (invoke 0) 0 (worlds s 0) = Inr w" for w
    using that c pc server_inv_parts[OF inv] server_inv_thread[OF inv]
    by (intro main_inv_update[OF inv]) (simp_all add: main_ok_def begun_def asked_def)
  then show ?thesis using inv by (auto simp: commit_def goto_main_def split: sum.splits)
qed

lemma server_step_inv:
  assumes "well_behaved init invoke" and "server_inv s" and "server_step os fresh init alive invoke s t"
  shows "server_inv t"
  using assms(3,2)
proof cases
  case destroy
  then show ?thesis
    using assms(2) unfolding goto_main_def by (auto intro!: main_inv_pc simp: main_ok_def begun_def asked_def)
qed (simp_all add: assms start_step_inv[OF _ assms(1)] for_step_inv wait_step_inv quit_step_inv call_step_inv join_step_inv
  base_loop_inv[OF _ _ assms(1)] worker_act_inv[OF _ assms(1)])

interpretation server_threads: inductive_invariant system_start "server_step os fresh init alive invoke"
    "\<lambda>s. well_behaved init invoke \<longrightarrow> server_inv s" for os fresh init alive invoke
  by unfold_locales (auto intro: system_start_inv server_step_inv)

lemma in_order_eq: "in_order ks \<Longrightarrow> ks = [1..<Suc (length ks)]"
  by (simp add: in_order_def)

lemma server_inv_running:
  assumes inv: "server_inv s" and "main s = M_run" and i: "0 < i" "i < numThreads (ts s)"
  shows "eventLoops (ts s) ! i = Some i \<and> worker s i \<in> {W_init, W_enter, W_while} \<and> configured (ts s) i (worlds s i)"
proof -
  have len: "Suc (length (ts_threads (ts s))) = numThreads (ts s)" using server_inv_parts(3)[OF inv] assms(2) by (simp add: main_ok_def Let_def)
  then have "worker_ok (ts s) True True False i (worker s i) (worlds s i)"
    using server_inv_thread[OF inv i(1)] i assms(2) by (simp add: begun_def asked_def)
  moreover have "i < length (eventLoops (ts s))" using server_inv_parts(4)[OF inv] i by auto
  ultimately show ?thesis by (cases "worker s i") (simp_all add: worker_ok_def)
qed

lemma worker_ok_none: "worker_ok t a b c i pc w \<Longrightarrow> pc = W_none \<longleftrightarrow> \<not> a"
  by (simp add: worker_ok_def)

lemma server_inv_call:
  assumes inv: "server_inv s" and "main s = M_call i j"
  shows "j = i \<and> 0 < i \<and> worker s j \<in> {W_init, W_enter, W_while} \<and> \<not> quit (worlds s j)"
proof -
  have m: "j = i" "0 < i" "worker s i \<noteq> W_none" using server_inv_parts(3)[OF inv] assms(2) by (simp_all add: main_ok_def Let_def)
  then have "worker_ok (ts s) (i \<le> length (ts_threads (ts s))) (i \<le> length (ts_threads (ts s))) False i (worker s i) (worlds s i)"
    using server_inv_thread[OF inv, of i] assms(2) by (simp add: begun_def asked_def less_Suc_eq_le)
  with m show ?thesis using worker_ok_none by (cases "worker s i") (auto simp: worker_ok_def)
qed

lemma server_inv_done:
  assumes inv: "server_inv s" and "main s = M_done"
  shows "worker s i \<in> {W_none, W_exit}"
proof -
  have "worker s i = W_exit" if "0 < i" "i \<le> length (ts_threads (ts s))"
    using server_inv_parts(3)[OF inv] assms(2) that by (simp add: main_ok_def Let_def)
  moreover have "worker s i = W_none" if "\<not> (0 < i \<and> i \<le> length (ts_threads (ts s)))"
    using assms(2) that worker_ok_none[OF server_inv_worker[OF inv, of i]] by (auto simp: begun_def)
  ultimately show ?thesis by blast
qed


section \<open>Stopping\<close>

text \<open>A thread that finds the flag set leaves in two steps.\<close>

lemma server_worker_leaves:
  assumes "halted s = None" "0 < i" "worker s i = W_while" "quit (worlds s i)" "i < length (eventLoops (ts s))"
  shows "(server_step os fresh init alive invoke)\<^sup>*\<^sup>* s
    (s\<lparr>ts := (ts s)\<lparr>eventLoops := (eventLoops (ts s))[i := None]\<rparr>, worker := (worker s)(i := W_exit)\<rparr>)"
proof -
  let ?step = "server_step os fresh init alive invoke"
  let ?s1 = "goto_worker i W_leave s"
  have "?step s (worker_act os fresh init alive invoke i s)" using assms by (intro thread_step)
  moreover have "worker_act os fresh init alive invoke i s = ?s1" using assms by (simp add: worker_act_def)
  moreover have "?step ?s1 (worker_act os fresh init alive invoke i ?s1)"
    using assms by (intro thread_step) (simp_all add: goto_worker_def)
  moreover have "worker_act os fresh init alive invoke i ?s1 =
      s\<lparr>ts := (ts s)\<lparr>eventLoops := (eventLoops (ts s))[i := None]\<rparr>, worker := (worker s)(i := W_exit)\<rparr>"
    using assms by (simp add: worker_act_def goto_worker_def set_loop_at_def)
  ultimately show ?thesis by (simp add: converse_rtranclp_into_rtranclp)
qed

definition stopping :: "nat \<Rightarrow> 'k server_system \<Rightarrow> bool" where
  "stopping i s \<longleftrightarrow> server_inv s \<and> halted s = None \<and> main s = M_quit i \<and>
     length (ts_threads (ts s)) = numThreads (ts s) - 1 \<and>
     (\<forall>j. 0 < j \<and> j < i \<and> j < numThreads (ts s) \<longrightarrow> worker s j = W_exit) \<and>
     (\<forall>j. 0 < j \<and> i \<le> j \<and> j < numThreads (ts s) \<longrightarrow> worker s j = W_while)"

lemma stopping_next:
  assumes st: "stopping i s" and wb: "well_behaved init invoke" and i: "i < length (eventLoops (ts s))"
  shows "\<exists>s'. (server_step os fresh init alive invoke)\<^sup>*\<^sup>* s s' \<and> stopping (Suc i) s' \<and>
    length (eventLoops (ts s')) = length (eventLoops (ts s))"
proof (cases "i = 0")
  case True
  have "eventLoops (ts s) ! 0 = None"
    using st True i server_inv_worker[of s 0] by (simp add: stopping_def worker_ok_def)
  then have "server_step os fresh init alive invoke s (goto_main (M_quit 1) s)"
    using st True i destroy_quit[of s 0] by (simp add: stopping_def quit_step_def)
  moreover from this have "server_inv (goto_main (M_quit 1) s)"
    using st server_step_inv[OF wb] by (auto simp: stopping_def)
  ultimately show ?thesis
    using st True by (intro exI[of _ "goto_main (M_quit 1) s"]) (auto simp: stopping_def goto_main_def)
next
  case False
  let ?step = "server_step os fresh init alive invoke"
  have inv: "server_inv s" and h: "halted s = None" and pc: "main s = M_quit i" using st by (simp_all add: stopping_def)
  have n: "i < numThreads (ts s)" using i False server_inv_parts(4)[OF inv] by auto
  then have w: "worker s i = W_while" using st False by (simp add: stopping_def)
  have ok: "eventLoops (ts s) ! i = Some i" "\<not> quit (worlds s i)"
    using server_inv_worker[OF inv, of i] w i pc by (simp_all add: worker_ok_def asked_def)
  obtain w' where w': "EventLoop_quit os 0 (worlds s i) = Inr w'" "quit w'"
    using ok(2) by (auto simp: EventLoop_quit_def Let_def)
  let ?s1 = "s\<lparr>main := M_call i i\<rparr>" and ?s2 = "s\<lparr>worlds := (worlds s)(i := w'), main := M_quit (Suc i)\<rparr>"
  let ?s3 = "?s2\<lparr>ts := (ts s)\<lparr>eventLoops := (eventLoops (ts s))[i := None]\<rparr>, worker := (worker s)(i := W_exit)\<rparr>"
  have "?step s ?s1" using destroy_quit[OF h pc] i ok by (simp add: quit_step_def goto_main_def)
  moreover have "?step ?s1 ?s2"
  proof -
    have "call_step os i i ?s1 = ?s2" using w w' by (simp add: call_step_def commit_def goto_main_def)
    then show ?thesis using destroy_call[of ?s1 i i os fresh init alive invoke] h by simp
  qed
  moreover have "?step\<^sup>*\<^sup>* ?s2 ?s3"
    using server_worker_leaves[of ?s2 i] h w w' i False by simp
  ultimately have steps: "?step\<^sup>*\<^sup>* s ?s3" by (meson converse_rtranclp_into_rtranclp)
  have "server_inv ?s3"
    using server_threads.invariant_rtranclp[OF _ steps] inv wb by blast
  then have "stopping (Suc i) ?s3"
    using st h by (auto simp: stopping_def less_Suc_eq)
  with steps show ?thesis by (intro exI[of _ ?s3]) simp
qed

lemma stopping_all:
  assumes wb: "well_behaved init invoke"
  shows "stopping i s \<Longrightarrow> i + d = length (eventLoops (ts s)) \<Longrightarrow>
    \<exists>s'. (server_step os fresh init alive invoke)\<^sup>*\<^sup>* s s' \<and> stopping (length (eventLoops (ts s'))) s'"
proof (induction d arbitrary: i s)
  case (Suc d)
  then obtain s1 where s1: "(server_step os fresh init alive invoke)\<^sup>*\<^sup>* s s1" "stopping (Suc i) s1"
    "length (eventLoops (ts s1)) = length (eventLoops (ts s))"
    using stopping_next[OF Suc.prems(1) wb, of os fresh alive] by auto
  then obtain s2 where "(server_step os fresh init alive invoke)\<^sup>*\<^sup>* s1 s2" "stopping (length (eventLoops (ts s2))) s2"
    using Suc.IH[OF s1(2)] Suc.prems(2) by auto
  with s1(1) show ?case by (meson rtranclp_trans)
qed auto

lemma joining_all:
  assumes wb: "well_behaved init invoke"
  shows "server_inv s \<Longrightarrow> halted s = None \<Longrightarrow> main s = M_join k \<Longrightarrow> k + d = length (ts_threads (ts s)) \<Longrightarrow>
    \<forall>j. 0 < j \<and> j \<le> length (ts_threads (ts s)) \<longrightarrow> worker s j = W_exit \<Longrightarrow>
    \<exists>s'. (server_step os fresh init alive invoke)\<^sup>*\<^sup>* s s' \<and> main s' = M_done \<and> halted s' = None"
proof (induction d arbitrary: k s)
  case 0
  then have "server_step os fresh init alive invoke s (goto_main M_done s)"
    using destroy_join[of s k] by (simp add: join_step_def)
  then show ?case using 0 by (intro exI[of _ "goto_main M_done s"]) (auto simp: goto_main_def)
next
  case (Suc d)
  let ?s1 = "goto_main (M_join (Suc k)) s"
  have "ts_threads (ts s) ! k = Suc k"
    using in_order_eq[OF server_inv_parts(2)[OF Suc.prems(1)]] Suc.prems(4)
    by (metis One_nat_def Suc_less_eq add_Suc_right less_add_Suc1 nth_upt plus_1_eq_Suc)
  then have st: "server_step os fresh init alive invoke s ?s1"
    using destroy_join[OF Suc.prems(2,3)] Suc.prems(4,5) by (simp add: join_step_def)
  moreover have "server_inv ?s1" using server_step_inv[OF wb Suc.prems(1) st] .
  ultimately show ?case
    using Suc.IH[of ?s1 "Suc k"] Suc.prems by (auto simp: goto_main_def intro: converse_rtranclp_into_rtranclp)
qed


section \<open>Properties\<close>

text \<open>Witnesses: a server with two threads on the sample kernel, started up to the loops.\<close>

definition sample_fresh :: "nat \<Rightarrow> fresh_loop" where
  "sample_fresh i = \<lparr>f_epfd = 3, f_evfd = 4, f_tfd = 6, f_wakeup = 2, f_timer = 3, f_accept = 10\<rparr>"

definition two_threads :: TcpServer where
  "two_threads = (TcpServer_new (InetAddress_new 80 True))\<lparr>numThreads := 2, eventLoops := [None, None]\<rparr>"

definition sample_system :: "sample_kernel server_system" where
  "sample_system = \<lparr>ts = two_threads, worlds = (\<lambda>i. sample_server\<lparr>tid := 0\<rparr>), main = M_idle, worker = (\<lambda>_. W_none), halted = None\<rparr>"

abbreviation sample_step :: "sample_kernel server_system \<Rightarrow> sample_kernel server_system \<Rightarrow> bool" where
  "sample_step \<equiv> server_step sample_os sample_fresh (\<lambda>n i w. Inr w) (\<lambda>_ _. True) (\<lambda>i f w. Inr w)"

lemma two_threads_setNumThread:
  "setNumThread 0 2 (sample_server\<lparr>tid := 0\<rparr>) (TcpServer_new (InetAddress_new 80 True)) = Inr two_threads"
proof -
  have "8 * 2 \<le> max_size" by (simp add: max_size_def)
  moreover have "vector_resize 2 None [] = [None, None]" by (simp add: vector_resize_def numeral_2_eq_2)
  ultimately show ?thesis
    by (simp add: setNumThread_def two_threads_def TcpServer_new_def assertInLoopThread_def isInLoopThread_def)
qed

lemma sample_well_behaved: "well_behaved (\<lambda>n i w. Inr w) (\<lambda>i f w. Inr w)"
  by (simp add: well_behaved_def keeps_setup_def)

lemma sample_make_server:
  "\<exists>w'. make_server sample_os c t w = Inr w' \<and> tid w' = tid w \<and> acceptChannel (acceptor w') = c \<and> channels w' c = Some (Channel_new 5)"
  by (simp add: make_server_def TcpServerSingle_new_def Acceptor_new_def createSocket_def sys_or_fatal_def sys_def sample_os_def
      set_acceptor_def acceptor_def setNewConnectionCallback_def put_channel_def server_setConnectionCallback_def
      server_setMessageCallback_def server_setWriteCompleteCallback_def)

lemma sample_listen: "sys_listen sample_os fd k = (True, k)"
  by (simp add: sample_os_def)

lemma sample_start:
  assumes "tid w = i" "channels w (acceptChannel (acceptor w)) = Some ch" "acceptChannel (acceptor w) \<noteq> 0"
  shows "\<exists>w'. TcpServerSingle_start sample_os i w = Inr w'"
  using assms
  by (simp add: enableRead.interest_ok TcpServerSingle_start_def Acceptor_listen_def sys_or_fatal_def sys_def sample_listen acceptor_def)

lemma sample_EventLoop_new: "\<exists>l. EventLoop_new sample_os i False 3 4 6 2 3 k = Inr l \<and> tid l = i"
  by (simp add: enableRead.interest_ok EventLoop_new_def EPollPoller_new_def TimerQueue_new_def)

lemma sample_base:
  "\<exists>w. rbind (make_server sample_os 10 two_threads (sample_server\<lparr>tid := 0\<rparr>)) (begin_service sample_os (\<lambda>n i w. Inr w) two_threads 0) = Inr w"
proof -
  obtain w where w: "make_server sample_os 10 two_threads (sample_server\<lparr>tid := 0\<rparr>) = Inr w" "tid w = 0"
    "acceptChannel (acceptor w) = 10" "channels w 10 = Some (Channel_new 5)"
    using sample_make_server[of 10 two_threads "sample_server\<lparr>tid := 0\<rparr>"] by auto
  then show ?thesis using sample_start[of w 0]
    by (simp add: begin_service_def two_threads_def TcpServer_new_def)
qed

lemma sample_thread:
  "\<exists>w w'. thread_world sample_os (sample_fresh i) t j k = Inr w \<and> (ts_threadInitCallback t = None \<longrightarrow>
     begin_service sample_os init t j w = Inr w' \<and> tid w' = j)"
proof -
  obtain l where l: "EventLoop_new sample_os j False 3 4 6 2 3 k = Inr l" "tid l = j" using sample_EventLoop_new by blast
  then obtain w where w: "thread_world sample_os (sample_fresh i) t j k = Inr w" "tid w = j"
    "acceptChannel (acceptor w) = 10" "channels w 10 = Some (Channel_new 5)"
    using sample_make_server[of 10 t "conn_world.extend (EventLoop.extend l (conn_world.fields Map.empty))
         (server_world.fields
           \<lparr>server_acceptor = \<lparr>listening = False, acceptfd = -1, acceptChannel = 0, acceptor_local = ts_local t,
                newConnectionCallback = None\<rparr>,
            connections = {}, server_connectionCallback = None, server_messageCallback = None,
            server_writeCompleteCallback = None\<rparr>)"]
    by (auto simp: thread_world_def sample_fresh_def conn_world.defs server_world.defs EventLoop.defs)
  then obtain w' where w': "TcpServerSingle_start sample_os j w = Inr w'" using sample_start[of w j] by auto
  moreover have "tid w' = j"
    using keeps_setup_start[of j sample_os j] w' w(2) by (auto simp: keeps_setup_def same_setup_def dest!: spec[of _ w])
  ultimately show ?thesis using w by (auto simp: begin_service_def)
qed

lemma sample_running:
  "\<exists>s. reach system_start sample_step s \<and> halted s = None \<and> main s = M_run \<and> numThreads (ts s) = 2 \<and> worker s 1 = W_while"
proof -
  note One_nat_def [simp del]
  let ?act = "worker_act sample_os sample_fresh (\<lambda>n i w. Inr w) (\<lambda>_ _. True) (\<lambda>i f w. Inr w) 1"
  let ?w = "sample_server\<lparr>tid := 0\<rparr>" and ?init = "\<lambda>n i w. Inr w"
  obtain wa where wa: "rbind (make_server sample_os 10 two_threads ?w) (begin_service sample_os ?init two_threads 0) = Inr wa"
    using sample_base by blast
  obtain wb wc where wb: "thread_world sample_os (sample_fresh 1) two_threads 1 (kernel ?w) = Inr wb"
    and wc: "begin_service sample_os ?init two_threads 1 wb = Inr wc" "tid wc = 1"
    using sample_thread[of 1 two_threads 1 "kernel ?w" ?init] by (auto simp: two_threads_def TcpServer_new_def)
  have init_eq: "ts_threadInitCallback t = None \<Longrightarrow> begin_service sample_os ?init t i = TcpServerSingle_start sample_os i" for t i
    by (simp add: begin_service_def fun_eq_iff)
  have t: "numThreads two_threads = 2" "eventLoops two_threads = [None, None]" "ts_threadInitCallback two_threads = None"
    "ts_threads two_threads = []"
    by (simp_all add: two_threads_def TcpServer_new_def)
  have one: "[None, None][1 := Some 1] = [None, Some (1 :: nat)]" "[None, Some 1] ! 1 = Some (1 :: nat)" by (simp_all add: One_nat_def)
  define s1 where "s1 = start_step sample_os sample_fresh ?init sample_system"
  have f1: "s1 = sample_system\<lparr>worlds := (\<lambda>i. ?w)(0 := wa), main := M_for 1\<rparr>"
    using wa by (simp add: s1_def sample_system_def start_step_def commit_def goto_main_def sample_fresh_def)
  define s2 where "s2 = for_step 1 s1"
  have f2: "ts s2 = two_threads" "worlds s2 1 = ?w" "main s2 = M_wait 1" "worker s2 1 = W_new" "halted s2 = None"
    by (simp_all add: s2_def f1 for_step_def goto_main_def goto_worker_def sample_system_def t)
  define s3 where "s3 = ?act s2"
  have f3: "ts s3 = two_threads" "worlds s3 1 = wb" "main s3 = M_wait 1" "worker s3 1 = W_publish" "halted s3 = None"
    using wb by (simp_all add: s3_def f2 worker_act_def commit_def goto_worker_def)
  define s4 where "s4 = ?act s3"
  have f4: "ts s4 = two_threads\<lparr>eventLoops := [None, Some 1]\<rparr>" "worlds s4 1 = wb" "main s4 = M_wait 1" "worker s4 1 = W_init"
    "halted s4 = None"
    by (simp_all add: s4_def f3 worker_act_def set_loop_at_def goto_worker_def t, simp_all add: One_nat_def)
  define s5 where "s5 = wait_step 1 s4"
  have f5: "ts s5 = two_threads\<lparr>eventLoops := [None, Some 1], ts_threads := [1]\<rparr>" "worlds s5 1 = wb" "main s5 = M_for 2"
    "worker s5 1 = W_init" "halted s5 = None"
    by (simp_all add: s5_def f4 wait_step_def loop_at_def goto_main_def t one)
  define s6 where "s6 = for_step 2 s5"
  have f6: "ts s6 = two_threads\<lparr>eventLoops := [None, Some 1], ts_threads := [1]\<rparr>" "worlds s6 1 = wb" "main s6 = M_run"
    "worker s6 1 = W_init" "halted s6 = None"
    by (simp_all add: s6_def f5 for_step_def goto_main_def t)
  define s7 where "s7 = ?act s6"
  have f7: "ts s7 = ts s6" "worlds s7 1 = wc" "main s7 = M_run" "worker s7 1 = W_enter" "halted s7 = None"
    using wc(1) by (simp_all add: s7_def f6 worker_act_def commit_def goto_worker_def init_eq t)
  define s8 where "s8 = ?act s7"
  have f8: "ts s8 = ts s6" "main s8 = M_run" "worker s8 1 = W_while" "halted s8 = None"
    using wc(2) by (simp_all add: s8_def f7 worker_act_def commit_def goto_worker_def assertInLoopThread_def isInLoopThread_def)
  have "reach system_start sample_step sample_system"
    by (rule reach_start) (simp add: system_start_def sample_system_def prepared_def t numeral_2_eq_2)
  then have "reach system_start sample_step s1"
    unfolding s1_def by (rule reach_step) (rule startInLoop_step; simp add: sample_system_def)
  then have "reach system_start sample_step s2"
    unfolding s2_def by (rule reach_step) (rule startInLoop_for; simp add: f1 sample_system_def)
  then have "reach system_start sample_step s3"
    unfolding s3_def by (rule reach_step) (rule thread_step; simp add: f2)
  then have "reach system_start sample_step s4"
    unfolding s4_def by (rule reach_step) (rule thread_step; simp add: f3)
  then have "reach system_start sample_step s5"
    unfolding s5_def by (rule reach_step) (rule startInLoop_wait; simp add: f4)
  then have "reach system_start sample_step s6"
    unfolding s6_def by (rule reach_step) (rule startInLoop_for; simp add: f5)
  then have "reach system_start sample_step s7"
    unfolding s7_def by (rule reach_step) (rule thread_step; simp add: f6)
  then have "reach system_start sample_step s8"
    unfolding s8_def by (rule reach_step) (rule thread_step; simp add: f7)
  then show ?thesis using f8 f6(1) t by (intro exI[of _ s8]) simp
qed

text \<open>
  C13. In every interleaving of the base thread and the threads of the server, for an application
  that does not reconfigure the servers or quit the loops of the threads: when \<open>startInLoop\<close> has
  returned, \<open>threads_\<close> holds the threads 1 to n - 1 in order, each has published the loop on its
  stack, and every server, the base one included, has the address and the callbacks of the
  \<open>TcpServer\<close>; \<open>startInLoop\<close> reads \<open>eventLoops_\<close> within its bounds; the destructor calls \<open>quit\<close> only on
  loops that exist and were not asked before (its assertion holds); when it has returned, every
  thread has ended.
\<close>

theorem server_threads_correct:
  assumes "well_behaved init invoke" and "reach system_start (server_step os fresh init alive invoke) s"
  shows "(main s = M_run \<longrightarrow>
      ts_threads (ts s) = [1..<numThreads (ts s)] \<and> configured (ts s) 0 (worlds s 0) \<and>
      (\<forall>i. 0 < i \<and> i < numThreads (ts s) \<longrightarrow>
        eventLoops (ts s) ! i = Some i \<and> worker s i \<in> {W_init, W_enter, W_while} \<and> configured (ts s) i (worlds s i))) \<and>
    (\<forall>i. main s = M_wait i \<longrightarrow> i < length (eventLoops (ts s))) \<and>
    (\<forall>i j. main s = M_call i j \<longrightarrow> worker s j \<in> {W_init, W_enter, W_while} \<and> \<not> quit (worlds s j)) \<and>
    (main s = M_done \<longrightarrow> (\<forall>i. worker s i \<in> {W_none, W_exit}))"
proof -
  have inv: "server_inv s" using server_threads.invariant_reach[OF assms(2)] assms(1) by blast
  have "ts_threads (ts s) = [1..<numThreads (ts s)] \<and> configured (ts s) 0 (worlds s 0)" if "main s = M_run"
  proof -
    have "Suc (length (ts_threads (ts s))) = numThreads (ts s)" "configured (ts s) 0 (worlds s 0)"
      using server_inv_parts(3)[OF inv] that by (simp_all add: main_ok_def Let_def)
    then show ?thesis using in_order_eq[OF server_inv_parts(2)[OF inv]] by simp
  qed
  moreover have "i < length (eventLoops (ts s))" if "main s = M_wait i" for i
    using server_inv_parts(3,4)[OF inv] that by (auto simp: main_ok_def Let_def)
  ultimately show ?thesis
    using server_inv_running[OF inv] server_inv_call[OF inv] server_inv_done[OF inv] by blast
qed

theorem server_threads_correct_witness:
  "\<exists>s. reach system_start sample_step s \<and> main s = M_run \<and> ts_threads (ts s) = [1] \<and>
    eventLoops (ts s) ! 1 = Some 1 \<and> configured (ts s) 1 (worlds s 1)"
proof -
  obtain s where s: "reach system_start sample_step s" "main s = M_run" "numThreads (ts s) = 2"
    using sample_running by blast
  have "ts_threads (ts s) = [1..<2] \<and> eventLoops (ts s) ! 1 = Some 1 \<and> configured (ts s) 1 (worlds s 1)"
    using server_threads_correct[OF sample_well_behaved s(1)] s(2,3) by simp
  then show ?thesis using s(1,2) by (auto simp: numeral_2_eq_2)
qed



end
