(* ===== verification/EventLoopThread.thy ===== *)
theory EventLoopThread
  imports Prelude
begin

text \<open>
  \<open>EventLoopThread\<close> (\<open>EventLoopThread.cc\<close>) and \<open>CountDownLatch\<close> (\<open>CountDownLatch.hpp\<close>): a thread
  that runs a loop of its own, started and destroyed by another. The two threads interleave;
  the statements of \<open>EventLoop\<close> that matter here are the store of \<open>quit_\<close> at the start of \<open>loop\<close>,
  the test of the while loop, and \<open>quit\<close>.
\<close>

section \<open>CountDownLatch\<close>

definition CountDownLatch_new :: "int \<Rightarrow> int" where
  "CountDownLatch_new n = n"

text \<open>\<open>count\<close>: the new counter, and whether the waiting threads are notified.\<close>

definition latch_count :: "int \<Rightarrow> int \<times> bool" where
  "latch_count n = (n - 1, n - 1 \<le> 0)"

text \<open>\<open>wait\<close> returns when its test, made under the mutex, finds the counter not positive.\<close>

definition latch_passes :: "int \<Rightarrow> bool" where
  "latch_passes n \<longleftrightarrow> \<not> n > 0"

section \<open>The two threads\<close>

datatype owner_pc = M_start | M_wait | M_running | M_join | M_done
datatype thread_pc = T_none | T_new | T_count | T_enter | T_while | T_leave | T_exit

record loop_thread =
  started :: bool
  loop_set :: bool
  latch :: int
  loop_quit :: bool
  owner :: owner_pc
  thread :: thread_pc

definition EventLoopThread_new :: loop_thread where
  "EventLoopThread_new = \<lparr>started = False, loop_set = False, latch = CountDownLatch_new 1, loop_quit = False,
     owner = M_start, thread = T_none\<rparr>"

text \<open>
  The owner: \<open>startLoop\<close> starts the thread and waits for the latch; the destructor quits the
  loop if there is one and joins. The thread: \<open>runInThread\<close> publishes its loop, counts down,
  and runs \<open>loop()\<close>, which stores \<open>quit_ = false\<close> and goes on until it reads true.
\<close>

inductive lt_step :: "loop_thread \<Rightarrow> loop_thread \<Rightarrow> bool" where
  owner_start: "owner s = M_start \<Longrightarrow> \<not> started s \<Longrightarrow> \<not> loop_set s \<Longrightarrow>
     lt_step s (s\<lparr>started := True, owner := M_wait, thread := T_new\<rparr>)"
| thread_new: "thread s = T_new \<Longrightarrow> lt_step s (s\<lparr>loop_set := True, loop_quit := False, thread := T_count\<rparr>)"
| thread_count: "thread s = T_count \<Longrightarrow> lt_step s (s\<lparr>latch := fst (latch_count (latch s)), thread := T_enter\<rparr>)"
| owner_wait: "owner s = M_wait \<Longrightarrow> latch_passes (latch s) \<Longrightarrow> lt_step s (s\<lparr>owner := M_running\<rparr>)"
| thread_enter: "thread s = T_enter \<Longrightarrow> lt_step s (s\<lparr>loop_quit := False, thread := T_while\<rparr>)"
| thread_poll: "thread s = T_while \<Longrightarrow> \<not> loop_quit s \<Longrightarrow> lt_step s s"
| thread_quit: "thread s = T_while \<Longrightarrow> loop_quit s \<Longrightarrow> lt_step s (s\<lparr>thread := T_leave\<rparr>)"
| thread_leave: "thread s = T_leave \<Longrightarrow> lt_step s (s\<lparr>loop_set := False, thread := T_exit\<rparr>)"
| owner_quit: "owner s = M_running \<Longrightarrow> loop_set s \<Longrightarrow> \<not> loop_quit s \<Longrightarrow>
     lt_step s (s\<lparr>loop_quit := True, owner := M_join\<rparr>)"
| owner_noloop: "owner s = M_running \<Longrightarrow> \<not> loop_set s \<Longrightarrow> lt_step s (s\<lparr>owner := M_join\<rparr>)"
| owner_join: "owner s = M_join \<Longrightarrow> thread s = T_exit \<Longrightarrow> lt_step s (s\<lparr>owner := M_done\<rparr>)"

definition lt_start :: "loop_thread \<Rightarrow> bool" where
  "lt_start s \<longleftrightarrow> s = EventLoopThread_new"

definition lt_inv :: "loop_thread \<Rightarrow> bool" where
  "lt_inv s \<longleftrightarrow>
     (case owner s of
        M_start \<Rightarrow> thread s = T_none \<and> \<not> started s \<and> \<not> loop_set s \<and> \<not> loop_quit s \<and> latch s = 1
      | M_wait \<Rightarrow> thread s \<in> {T_new, T_count, T_enter, T_while} \<and> \<not> loop_quit s
      | M_running \<Rightarrow> thread s \<in> {T_enter, T_while} \<and> \<not> loop_quit s
      | M_join \<Rightarrow> thread s \<in> {T_enter, T_while, T_leave, T_exit} \<and> (thread s = T_enter \<longrightarrow> loop_quit s)
      | M_done \<Rightarrow> thread s = T_exit) \<and>
     (thread s \<in> {T_new, T_count} \<longrightarrow> latch s = 1) \<and>
     (thread s \<in> {T_count, T_enter, T_while, T_leave} \<longrightarrow> loop_set s)"

interpretation loop_thread: inductive_invariant lt_start lt_step lt_inv
proof unfold_locales
  show "lt_start s \<Longrightarrow> lt_inv s" for s
    by (simp add: lt_start_def EventLoopThread_new_def CountDownLatch_new_def lt_inv_def)
  show "lt_inv s \<Longrightarrow> lt_step s t \<Longrightarrow> lt_inv t" for s t
    by (erule lt_step.cases)
      (auto simp: lt_inv_def latch_count_def latch_passes_def split: owner_pc.splits)
qed

section \<open>Properties\<close>

text \<open>
  C28. \<open>startLoop\<close> returns a loop that exists: whatever the interleaving, when \<open>startLoop\<close> has
  returned and the destructor has not run, \<open>loop_\<close> points to the loop of the thread, which
  has not left \<open>runInThread\<close>; the assertion \<open>loop_ != nullptr\<close> holds and \<open>quit\<close> finds the flag down.
\<close>

theorem startLoop_returns_loop:
  assumes "reach lt_start lt_step s" and "owner s = M_running"
  shows "loop_set s \<and> thread s \<in> {T_enter, T_while} \<and> \<not> loop_quit s"
  using loop_thread.invariant_reach[OF assms(1)] assms(2) by (auto simp: lt_inv_def)

definition lt_running :: loop_thread where
  "lt_running = \<lparr>started = True, loop_set = True, latch = 0, loop_quit = False, owner = M_running, thread = T_enter\<rparr>"

lemma lt_running_reach: "reach lt_start lt_step lt_running"
proof -
  let ?s0 = "EventLoopThread_new"
  let ?s1 = "?s0\<lparr>started := True, owner := M_wait, thread := T_new\<rparr>"
  let ?s2 = "?s1\<lparr>loop_set := True, loop_quit := False, thread := T_count\<rparr>"
  let ?s3 = "?s2\<lparr>latch := fst (latch_count (latch ?s2)), thread := T_enter\<rparr>"
  have "reach lt_start lt_step ?s0" by (rule reach_start) (simp add: lt_start_def)
  moreover have "lt_step ?s0 ?s1" by (rule owner_start) (simp_all add: EventLoopThread_new_def)
  moreover have "lt_step ?s1 ?s2" by (rule thread_new) simp
  moreover have "lt_step ?s2 ?s3" by (rule thread_count) simp
  moreover have "lt_step ?s3 (?s3\<lparr>owner := M_running\<rparr>)"
    by (rule owner_wait) (simp_all add: EventLoopThread_new_def CountDownLatch_new_def latch_count_def latch_passes_def)
  moreover have "?s3\<lparr>owner := M_running\<rparr> = lt_running"
    by (simp add: EventLoopThread_new_def CountDownLatch_new_def latch_count_def lt_running_def)
  ultimately show ?thesis by (metis reach_step)
qed

theorem startLoop_returns_loop_witness:
  "\<exists>s. reach lt_start lt_step s \<and> owner s = M_running \<and> loop_set s"
  using startLoop_returns_loop[OF lt_running_reach] lt_running_reach by (auto simp: lt_running_def)



end
