(* ===== verification/Log_Time.thy ===== *)
theory Log_Time
  imports Decimal "HOL-Library.Signed_Division"
begin

text \<open>
  The time stamp of a log line (\<open>timestamp\<close> of \<open>Logger.hpp\<close>): \<open>gmtime\<close> on the seconds of the clock, printed by
  \<open>put_time\<close>, and the milliseconds. The clock counts nanoseconds in 64 bits, so the years are 1677 to 2262.
\<close>

section \<open>The calendar\<close>

definition leap :: "nat \<Rightarrow> bool" where
  "leap y \<longleftrightarrow> 4 dvd y \<and> (\<not> 100 dvd y \<or> 400 dvd y)"

definition month_lengths :: "nat \<Rightarrow> nat list" where
  "month_lengths y = [31, if leap y then 29 else 28, 31, 30, 31, 30, 31, 31, 30, 31, 30, 31]"

definition year_days :: "nat \<Rightarrow> nat" where
  "year_days y = sum_list (month_lengths y)"

text \<open>From day \<open>d\<close> after the first of January of \<open>y\<close> to the year and the day in it; then to the month.\<close>

function civil_year :: "nat \<Rightarrow> nat \<Rightarrow> nat \<times> nat" where
  "civil_year d y = (if d < year_days y then (y, d) else civil_year (d - year_days y) (Suc y))"
  by pat_completeness auto

lemma year_days_eq: "year_days y = (if leap y then 366 else 365)"
  by (simp add: year_days_def month_lengths_def)

termination civil_year
  by (relation "measure fst") (auto simp: year_days_eq split: if_splits)

declare civil_year.simps [simp del]

fun civil_month :: "nat list \<Rightarrow> nat \<Rightarrow> nat \<times> nat" where
  "civil_month [] d = (0, d)"
| "civil_month (n # ns) d = (if d < n then (0, d) else case civil_month ns (d - n) of (m, r) \<Rightarrow> (Suc m, r))"

text \<open>\<open>std::tm\<close>; the year is the full one, the month counts from 0, the day from 1.\<close>

record tm =
  tm_year :: nat
  tm_mon :: nat
  tm_mday :: nat
  tm_hour :: nat
  tm_min :: nat
  tm_sec :: nat

text \<open>
  \<open>gmtime\<close>. The calendar repeats after 400 years, which have 146097 days; counting from 1570 reaches every time the
  clock can have.
\<close>

definition gmtime :: "int \<Rightarrow> tm" where
  "gmtime t =
     (let (y, r) = civil_year (nat (t div 86400 + 146097)) 1570; (m, d) = civil_month (month_lengths y) r; s = nat (t mod 86400)
      in \<lparr>tm_year = y, tm_mon = m, tm_mday = Suc d, tm_hour = s div 3600, tm_min = s div 60 mod 60, tm_sec = s mod 60\<rparr>)"

section \<open>The text\<close>

definition field2 :: "nat \<Rightarrow> string" where
  "field2 n = padded CHR ''0'' 2 (to_string n)"

text \<open>\<open>put_time\<close> with the format \<open>%Y%m%d %H:%M:%S\<close>.\<close>

definition put_time :: "tm \<Rightarrow> string" where
  "put_time t =
     to_string (tm_year t) @ field2 (Suc (tm_mon t)) @ field2 (tm_mday t) @ '' '' @
     field2 (tm_hour t) @ '':'' @ field2 (tm_min t) @ '':'' @ field2 (tm_sec t)"

text \<open>\<open>to_time_t\<close> and \<open>duration_cast\<close> cut towards zero; \<open>now\<close> is the clock in nanoseconds.\<close>

definition timestamp :: "int \<Rightarrow> string" where
  "timestamp now =
     (let time = now sdiv 1000000000; ms = (now sdiv 1000000) smod 1000
      in put_time (gmtime time) @ ''.'' @ padded CHR ''0'' 3 (long_string ms))"

section \<open>The calendar is exact\<close>

definition days_to_year :: "nat \<Rightarrow> nat" where
  "days_to_year y = sum_list (map year_days [1570 ..< y])"

lemma civil_year_correct:
  assumes "civil_year d a = (y, r)"
  shows "a \<le> y \<and> r < year_days y \<and> d = sum_list (map year_days [a ..< y]) + r"
  using assms
proof (induction d a rule: civil_year.induct)
  case (1 d a)
  show ?case
  proof (cases "d < year_days a")
    case True
    then show ?thesis using "1.prems" by (simp add: civil_year.simps)
  next
    case False
    then have "Suc a \<le> y \<and> r < year_days y \<and> d - year_days a = sum_list (map year_days [Suc a ..< y]) + r"
      using "1.IH" "1.prems" by (simp add: civil_year.simps[of d a])
    then show ?thesis using False by (auto simp: upt_conv_Cons)
  qed
qed

lemma civil_month_correct:
  assumes "civil_month ns d = (m, r)" "d < sum_list ns"
  shows "m < length ns \<and> r < ns ! m \<and> d = sum_list (take m ns) + r"
  using assms
proof (induction ns arbitrary: d m r)
  case (Cons n ns)
  show ?case
  proof (cases "d < n")
    case False
    then obtain k where k: "m = Suc k" "civil_month ns (d - n) = (k, r)" using Cons.prems(1) by (auto split: prod.splits)
    then have "k < length ns \<and> r < ns ! k \<and> d - n = sum_list (take k ns) + r" using Cons.IH[OF k(2)] Cons.prems(2) False by simp
    then show ?thesis using k(1) False by auto
  qed (use Cons.prems in simp)
qed simp

lemma month_length_bound: "m < 12 \<Longrightarrow> month_lengths y ! m \<le> 31"
  by (auto simp: month_lengths_def less_Suc_eq numeral_eq_Suc)

lemma days_to_year_ge: "365 * (y - 1570) \<le> days_to_year y"
proof (induction y)
  case (Suc y)
  show ?case
  proof (cases "1570 \<le> y")
    case True
    then have "days_to_year (Suc y) = days_to_year y + year_days y" by (simp add: days_to_year_def)
    moreover have "365 \<le> year_days y" by (simp add: year_days_eq)
    ultimately show ?thesis using Suc True by (simp add: Suc_diff_le)
  qed simp
qed (simp add: days_to_year_def)

text \<open>
  The reference: the Gregorian calendar in closed form. Days before the first of January of year \<open>y\<close>, from the year 1 on,
  and before the month \<open>m\<close> in the year.
\<close>

definition days_before :: "nat \<Rightarrow> nat" where
  "days_before y = 365 * (y - 1) + (y - 1) div 4 + (y - 1) div 400 - (y - 1) div 100"

definition days_before_month :: "nat \<Rightarrow> nat \<Rightarrow> nat" where
  "days_before_month y m = [0, 31, 59, 90, 120, 151, 181, 212, 243, 273, 304, 334] ! m +
     (if 2 \<le> m \<and> y mod 4 = 0 \<and> (y mod 100 \<noteq> 0 \<or> y mod 400 = 0) then 1 else 0)"

lemma leap_arith:
  "b \<le> a \<Longrightarrow> (q \<Longrightarrow> p) \<Longrightarrow> (r \<Longrightarrow> q) \<Longrightarrow>
    365 * Suc n + (if p then Suc a else a) + (if r then Suc c else c) - (if q then Suc b else b) =
    365 * n + a + c - b + (if p \<and> (\<not> q \<or> r) then 366 else 365)" for a b c n :: nat
  by (cases p; cases q; cases r) simp_all

lemma days_before_Suc:
  assumes "0 < y"
  shows "days_before (Suc y) = days_before y + year_days y"
proof -
  obtain n where y: "y = Suc n" using assms by (cases y) auto
  have step: "Suc n div k = (if k dvd Suc n then Suc (n div k) else n div k)" for k by (simp add: div_Suc dvd_eq_mod_eq_0)
  have le: "n div 100 \<le> n div 4" by (rule div_le_mono2) simp_all
  have dvds: "100 dvd Suc n \<Longrightarrow> 4 dvd Suc n" "400 dvd Suc n \<Longrightarrow> 100 dvd Suc n"
    using dvd_trans[of 4 100 "Suc n"] dvd_trans[of 100 400 "Suc n"] by auto
  have "days_before (Suc y) = 365 * Suc n + Suc n div 4 + Suc n div 400 - Suc n div 100" by (simp only: days_before_def y diff_Suc_1)
  also have "\<dots> = 365 * n + n div 4 + n div 400 - n div 100 + year_days y"
    unfolding step[of 4] step[of 100] step[of 400] year_days_eq leap_def y by (rule leap_arith[OF le dvds])
  finally show ?thesis by (simp only: days_before_def y diff_Suc_1)
qed

lemma days_to_year_before:
  assumes "1570 \<le> y"
  shows "days_to_year y + 573065 = days_before y"
  using assms
proof (induction rule: nat_induct_at_least)
  case base
  show ?case by (simp add: days_to_year_def days_before_def)
next
  case (Suc y)
  then show ?case by (simp add: days_to_year_def days_before_Suc)
qed

lemma days_before_month_eq:
  assumes "m < 12"
  shows "sum_list (take m (month_lengths y)) = days_before_month y m"
proof -
  have "m = 0 \<or> m = 1 \<or> m = 2 \<or> m = 3 \<or> m = 4 \<or> m = 5 \<or> m = 6 \<or> m = 7 \<or> m = 8 \<or> m = 9 \<or> m = 10 \<or> m = 11" using assms by arith
  then show ?thesis by (elim disjE) (simp_all add: days_before_month_def month_lengths_def leap_def dvd_eq_mod_eq_0)
qed

text \<open>The seconds since 1970 of a broken-down time.\<close>

definition timegm :: "tm \<Rightarrow> int" where
  "timegm t = 86400 * (int (days_before (tm_year t) + days_before_month (tm_year t) (tm_mon t) + (tm_mday t - 1)) - 719162) +
     int (3600 * tm_hour t + 60 * tm_min t + tm_sec t)"

definition tm_ok :: "tm \<Rightarrow> bool" where
  "tm_ok t \<longleftrightarrow> 1570 \<le> tm_year t \<and> tm_year t < 10000 \<and> tm_mon t < 12 \<and> 1 \<le> tm_mday t \<and>
     tm_mday t \<le> month_lengths (tm_year t) ! tm_mon t \<and> tm_hour t < 24 \<and> tm_min t < 60 \<and> tm_sec t < 60"

lemma gmtime_correct:
  assumes "- 9300000000 \<le> t" "t \<le> 9300000000"
  shows "timegm (gmtime t) = t \<and> tm_ok (gmtime t)"
proof -
  define d where "d = nat (t div 86400 + 146097)"
  define s where "s = nat (t mod 86400)"
  obtain y r where yr: "civil_year d 1570 = (y, r)" by fastforce
  obtain m e where me: "civil_month (month_lengths y) r = (m, e)" by fastforce
  have d: "int d = t div 86400 + 146097" "d < 260000" using assms by (auto simp: d_def)
  have s: "int s = t mod 86400" "s < 86400" by (auto simp: s_def nat_less_iff)
  have y: "1570 \<le> y" "r < year_days y" "d = days_to_year y + r" using civil_year_correct[OF yr] by (auto simp: days_to_year_def)
  have "y < 10000" using days_to_year_ge[of y] y(1,3) d(2) by simp
  have "length (month_lengths y) = 12" by (simp add: month_lengths_def)
  then have m: "m < 12" "e < month_lengths y ! m" "r = sum_list (take m (month_lengths y)) + e"
    using civil_month_correct[OF me] y(2) by (auto simp: year_days_def)
  have g: "gmtime t = \<lparr>tm_year = y, tm_mon = m, tm_mday = Suc e, tm_hour = s div 3600, tm_min = s div 60 mod 60, tm_sec = s mod 60\<rparr>"
    using yr me by (simp add: gmtime_def d_def s_def Let_def)
  have "s div 3600 = s div 60 div 60" by (simp add: div_mult2_eq[symmetric])
  then have hms: "3600 * (s div 3600) + 60 * (s div 60 mod 60) + s mod 60 = s"
    using mult_div_mod_eq[of 60 "s div 60"] mult_div_mod_eq[of 60 s] by linarith
  have days: "days_before y + days_before_month y m + e = d + 573065"
    using y(3) m(3) days_to_year_before[OF y(1)] days_before_month_eq[OF m(1), of y] by simp
  have "timegm (gmtime t) = 86400 * (int d - 146097) + int s"
    unfolding timegm_def g using hms by (simp add: days flip: of_nat_add) (simp add: algebra_simps)
  also have "\<dots> = t" using d(1) s(1) by simp
  finally have "timegm (gmtime t) = t" .
  moreover have "tm_ok (gmtime t)" using y(1) \<open>y < 10000\<close> m s(2) by (auto simp: g tm_ok_def)
  ultimately show ?thesis by simp
qed

section \<open>Reading a time stamp\<close>

text \<open>What a reader of the log makes of a time stamp, by the columns of the text: milliseconds since 1970.\<close>

definition column :: "nat \<Rightarrow> nat \<Rightarrow> string \<Rightarrow> nat" where
  "column i n s = digits_value (take n (drop i s))"

definition read_timestamp :: "string \<Rightarrow> int" where
  "read_timestamp s =
     1000 * timegm \<lparr>tm_year = column 0 4 s, tm_mon = column 4 2 s - 1, tm_mday = column 6 2 s,
       tm_hour = column 9 2 s, tm_min = column 12 2 s, tm_sec = column 15 2 s\<rparr> + int (column 18 3 s)"

lemma field2_facts: "n < 100 \<Longrightarrow> length (field2 n) = 2 \<and> digits_value (field2 n) = n"
  using length_padded[of n 1 "CHR ''0''"] by (simp add: field2_def digits_value_padded numeral_2_eq_2)

lemma to_string_length_eq: "10 ^ k \<le> n \<Longrightarrow> n < 10 ^ Suc k \<Longrightarrow> length (to_string n) = Suc k"
proof (induction k arbitrary: n)
  case (Suc k)
  have "10 ^ k \<le> n div 10" "n div 10 < 10 ^ Suc k" "\<not> n < 10"
    using Suc.prems by (simp_all add: less_mult_imp_div_less mult.commute div_le_mono[of "10 * 10 ^ k" n 10, simplified])
      (metis Suc.prems(1) le_trans less_le_not_le mult.right_neutral mult_le_mono2 one_le_numeral one_le_power power_Suc)
  from Suc.IH[OF this(1,2)] \<open>\<not> n < 10\<close> show ?case by (subst to_string.simps) simp
qed (simp add: to_string.simps)

lemma read_columns:
  assumes "length ys = 4" "length ms = 2" "length ds = 2" "length hs = 2" "length ns = 2" "length ss = 2" "length zs = 3"
  shows "read_timestamp (ys @ ms @ ds @ '' '' @ hs @ '':'' @ ns @ '':'' @ ss @ ''.'' @ zs) =
    1000 * timegm \<lparr>tm_year = digits_value ys, tm_mon = digits_value ms - 1, tm_mday = digits_value ds, tm_hour = digits_value hs,
      tm_min = digits_value ns, tm_sec = digits_value ss\<rparr> + int (digits_value zs)"
  using assms by (simp add: read_timestamp_def column_def)

lemma signed_nonneg: "0 \<le> a \<Longrightarrow> 0 < b \<Longrightarrow> a sdiv b = a div b \<and> a smod b = a mod b" for a b :: int
  by (cases "a = 0") (simp_all add: signed_divide_int_def signed_modulo_int_def minus_div_mult_eq_mod)

text \<open>
  C30. The time stamps of the log are exact: the text has always 21 characters in fixed columns, and reading it back as a
  date and time of the Gregorian calendar in UTC gives the clock's time to the millisecond, for every time
  from 1970 to the end of the clock's range. So time stamps are unambiguous.
\<close>

theorem timestamp_roundtrip:
  assumes "0 \<le> now" and "now < 2 ^ 63"
  shows "length (timestamp now) = 21 \<and> read_timestamp (timestamp now) = now div 1000000"
proof -
  define t where "t = gmtime (now div 1000000000)"
  define z where "z = nat (now div 1000000 mod 1000)"
  have g: "timegm t = now div 1000000000" "tm_ok t" using gmtime_correct[of "now div 1000000000"] assms by (auto simp: t_def)
  have z: "z < 1000" "int z = now div 1000000 mod 1000" by (auto simp: z_def nat_less_iff)
  have "long_string (now div 1000000 mod 1000) = to_string z" by (auto simp: long_string_def z_def not_less)
  then have text_eq: "timestamp now = put_time t @ ''.'' @ padded CHR ''0'' 3 (to_string z)"
    using assms(1) by (simp add: timestamp_def t_def signed_nonneg pos_imp_zdiv_nonneg_iff)
  have "tm_mday t < 100" using g(2) month_length_bound[of "tm_mon t" "tm_year t"] by (auto simp: tm_ok_def)
  then have small: "Suc (tm_mon t) < 100" "tm_mday t < 100" "tm_hour t < 100" "tm_min t < 100" "tm_sec t < 100" using g(2) by (auto simp: tm_ok_def)
  have y: "length (to_string (tm_year t)) = 4" using to_string_length_eq[of 3 "tm_year t"] g(2) by (simp add: tm_ok_def)
  have zs: "length (padded CHR ''0'' 3 (to_string z)) = 3" using length_padded[of z 2 "CHR ''0''"] z(1) by (simp add: numeral_3_eq_3)
  note f = small[THEN field2_facts]
  have "timegm \<lparr>tm_year = tm_year t, tm_mon = tm_mon t, tm_mday = tm_mday t, tm_hour = tm_hour t, tm_min = tm_min t, tm_sec = tm_sec t\<rparr> = timegm t"
    by (simp add: timegm_def)
  then have "read_timestamp (timestamp now) = 1000 * timegm t + int z"
    using read_columns[of "to_string (tm_year t)" "field2 (Suc (tm_mon t))" "field2 (tm_mday t)" "field2 (tm_hour t)" "field2 (tm_min t)"
        "field2 (tm_sec t)" "padded CHR ''0'' 3 (to_string z)"] y zs f
    by (simp add: text_eq put_time_def digits_value_to_string digits_value_padded)
  also have "\<dots> = now div 1000000"
  proof -
    have "now div 1000000000 = now div 1000000 div 1000" by (simp add: zdiv_zmult2_eq[symmetric])
    then show ?thesis using g(1) z(2) mult_div_mod_eq[of 1000 "now div 1000000"] by simp
  qed
  finally show ?thesis using y zs f by (simp add: text_eq put_time_def)
qed

theorem timestamp_roundtrip_witness:
  "timestamp 1696686071610000000 = ''20231007 13:41:11.610'' \<and> read_timestamp (timestamp 1696686071610000000) = 1696686071610"
proof
  have "civil_year 165734 1570 = (2023, 279)" by (simp add: civil_year.simps year_days_eq leap_def)
  then have "gmtime 1696686071 = \<lparr>tm_year = 2023, tm_mon = 9, tm_mday = 7, tm_hour = 13, tm_min = 41, tm_sec = 11\<rparr>"
    by (simp add: gmtime_def month_lengths_def leap_def)
  then show "timestamp 1696686071610000000 = ''20231007 13:41:11.610''"
    by (simp add: timestamp_def signed_nonneg put_time_def field2_def padded_def long_string_def to_string.simps digit_char_def char_of_def bit_0)
  show "read_timestamp (timestamp 1696686071610000000) = 1696686071610" using timestamp_roundtrip[of 1696686071610000000] by simp
qed

end
