(* ===== verification/Logger.thy ===== *)
theory Logger
  imports Log_Time
begin

text \<open>
  The logger (\<open>Logger.hpp\<close>): levels, the filter of the macros, the line format, and where lines
  go. A line is written as one unit (\<open>osyncstream\<close>), so the streams are lists of lines. The
  clock \<open>now\<close> (nanoseconds since 1970), the process number and the text of \<open>strerror\<close> are parameters. The
  arguments of a log call are given as they print. At the end the program \<open>test_Logger.cc\<close>.
\<close>

section \<open>Levels\<close>

datatype LOG_LEVEL = LOG_TRACE | LOG_DEBUG | LOG_INFO | LOG_WARN | LOG_ERROR | LOG_FATAL

fun level_value :: "LOG_LEVEL \<Rightarrow> nat" where
  "level_value LOG_TRACE = 0"
| "level_value LOG_DEBUG = 1"
| "level_value LOG_INFO = 2"
| "level_value LOG_WARN = 3"
| "level_value LOG_ERROR = 4"
| "level_value LOG_FATAL = 5"

lemma level_value_inj: "level_value a = level_value b \<Longrightarrow> a = b"
  by (cases a; cases b) simp_all

instantiation LOG_LEVEL :: linorder
begin

definition less_eq_LOG_LEVEL :: "LOG_LEVEL \<Rightarrow> LOG_LEVEL \<Rightarrow> bool" where
  "less_eq_LOG_LEVEL a b \<longleftrightarrow> level_value a \<le> level_value b"

definition less_LOG_LEVEL :: "LOG_LEVEL \<Rightarrow> LOG_LEVEL \<Rightarrow> bool" where
  "less_LOG_LEVEL a b \<longleftrightarrow> level_value a < level_value b"

instance
  by intro_classes (auto simp: less_eq_LOG_LEVEL_def less_LOG_LEVEL_def dest: level_value_inj)

end

lemma LOG_FATAL_greatest: "l \<le> LOG_FATAL"
  by (cases l) (simp_all add: less_eq_LOG_LEVEL_def)

definition logLevelStr :: "string list" where
  "logLevelStr = [''[ TRACE]'', ''[ DEBUG]'', ''[  INFO]'', ''[  WARN]'', ''[ ERROR]'', ''[ FATAL]'']"

section \<open>State\<close>

text \<open>\<open>ofs\<close> is the file the stream has open; \<open>files\<close> maps names to the lines they hold.\<close>

record logger =
  logLevel :: LOG_LEVEL
  logFileName :: string
  ofs :: "string option"
  files :: "string \<Rightarrow> string list"
  stdout :: "string list"

section \<open>Formatting\<close>

text \<open>
  \<open>std::vformat\<close> with replacement fields \<open>{}\<close> and the escapes for braces; a missing argument or a
  brace that is none of these throws \<open>std::format_error\<close>. Arguments that are left over are ignored.
\<close>

fun vformat :: "string \<Rightarrow> string list \<Rightarrow> string result" where
  "vformat [] args = Inr []"
| "vformat (c # cs) args =
     (if c = CHR 0x7B then
        (case cs of
           d # ds \<Rightarrow>
             if d = CHR 0x7B then rbind (vformat ds args) (\<lambda>s. Inr (c # s))
             else if d = CHR 0x7D then
               (case args of [] \<Rightarrow> Inl InvalidArgument | a # as \<Rightarrow> rbind (vformat ds as) (\<lambda>s. Inr (a @ s)))
             else Inl InvalidArgument
         | [] \<Rightarrow> Inl InvalidArgument)
      else if c = CHR 0x7D then
        (case cs of d # ds \<Rightarrow> if d = CHR 0x7D then rbind (vformat ds args) (\<lambda>s. Inr (c # s)) else Inl InvalidArgument
         | [] \<Rightarrow> Inl InvalidArgument)
      else rbind (vformat cs args) (\<lambda>s. Inr (c # s)))"

text \<open>\<open>strrchr(file, '/') + 1\<close>: behind the last slash; without a slash the null pointer plus one.\<close>

fun strrchr_next :: "string \<Rightarrow> string result" where
  "strrchr_next [] = Inl NullDeref"
| "strrchr_next (c # cs) =
     (case strrchr_next cs of
        Inr s \<Rightarrow> Inr s
      | Inl e \<Rightarrow> if c = CHR ''/'' then Inr cs else Inl e)"

definition emit :: "string \<Rightarrow> logger \<Rightarrow> logger" where
  "emit line l =
     (if logFileName l = [] \<or> logFileName l = ''stdout'' then l\<lparr>stdout := stdout l @ [line]\<rparr>
      else case ofs l of
             None \<Rightarrow> l
           | Some f \<Rightarrow> l\<lparr>files := (files l)(f := files l f @ [line])\<rparr>)"

section \<open>Logging\<close>

definition logSys ::
  "int \<Rightarrow> nat \<Rightarrow> string \<Rightarrow> string \<Rightarrow> nat \<Rightarrow> bool \<Rightarrow> string \<Rightarrow> string list \<Rightarrow> logger \<Rightarrow> logger result"
where
  "logSys now pid errtext file line to_abort fmt args l =
     rbind (vformat fmt args) (\<lambda>msg.
     rbind (strrchr_next file) (\<lambda>base.
     let ss = timestamp now @ '' ['' @ padded CHR '' '' 5 (to_string pid) @ ''] '' @ (if to_abort then ''[ SYSFA] '' else ''[SYSERR] '') @ msg;
         l1 = emit (ss @ '': '' @ errtext @ '' - '' @ base @ '':'' @ to_string line @ [CHR 0x0A]) l
     in if to_abort then Inl Aborted else Inr l1))"

definition logBase ::
  "int \<Rightarrow> nat \<Rightarrow> string \<Rightarrow> nat \<Rightarrow> LOG_LEVEL \<Rightarrow> bool \<Rightarrow> string \<Rightarrow> string list \<Rightarrow> logger \<Rightarrow> logger result"
where
  "logBase now pid file line level to_abort fmt args l =
     rbind (vformat fmt args) (\<lambda>msg.
     rbind (strrchr_next file) (\<lambda>base.
     let ss = timestamp now @ '' ['' @ padded CHR '' '' 5 (to_string pid) @ '']'' @ '' '' @ logLevelStr ! level_value level @ '' '' @ msg;
         l1 = emit (ss @ '' - '' @ base @ '':'' @ to_string line @ [CHR 0x0A]) l
     in if to_abort then Inl Aborted else Inr l1))"

text \<open>The macros \<open>TRACE\<close> to \<open>FATAL\<close>: nothing happens below the current level; \<open>FATAL\<close> aborts.\<close>

definition LOG ::
  "int \<Rightarrow> nat \<Rightarrow> string \<Rightarrow> nat \<Rightarrow> LOG_LEVEL \<Rightarrow> string \<Rightarrow> string list \<Rightarrow> logger \<Rightarrow> logger result"
where
  "LOG now pid file line level fmt args l =
     (if logLevel l \<le> level then logBase now pid file line level (level = LOG_FATAL) fmt args l else Inr l)"

definition setLogLevel :: "LOG_LEVEL \<Rightarrow> logger \<Rightarrow> logger" where
  "setLogLevel rhs l = l\<lparr>logLevel := rhs\<rparr>"

text \<open>
  \<open>open\<close> on a stream that is open fails and leaves it as it is (it sets the failbit); here the
  old file is closed first. \<open>std::ios_base::app\<close> keeps what the file holds. Opening a file with
  an empty name fails; that other names can be opened is assumed.
\<close>

definition setLogFile :: "string \<Rightarrow> logger \<Rightarrow> logger" where
  "setLogFile fileName l =
     (let l1 = (if logFileName l \<noteq> [] \<and> logFileName l \<noteq> ''stdout'' then l\<lparr>ofs := None\<rparr> else l);
          l2 = (if fileName \<noteq> ''stdout'' \<and> fileName \<noteq> [] \<and> ofs l1 = None then l1\<lparr>ofs := Some fileName\<rparr> else l1)
      in l2\<lparr>logFileName := fileName\<rparr>)"

section \<open>Lemmas\<close>

text \<open>The stream is open exactly when lines go to a file, and then it is the file that was named.\<close>

definition logger_ok :: "logger \<Rightarrow> bool" where
  "logger_ok l \<longleftrightarrow> (if logFileName l = [] \<or> logFileName l = ''stdout'' then ofs l = None else ofs l = Some (logFileName l))"

lemma strrchr_next_slash:
  "CHR ''/'' \<notin> set base \<Longrightarrow> strrchr_next (dir @ CHR ''/'' # base) = Inr base"
proof (induction dir)
  case Nil
  have "\<exists>e. strrchr_next base = Inl e" using Nil by (induction base) auto
  then show ?case by auto
qed simp

lemma strrchr_next_no_slash: "CHR ''/'' \<notin> set path \<Longrightarrow> strrchr_next path = Inl NullDeref"
  by (induction path) auto

section \<open>Properties\<close>


definition sample_logger :: logger where
  "sample_logger = \<lparr>logLevel = LOG_INFO, logFileName = [], ofs = None, files = (\<lambda>_. []), stdout = []\<rparr>"


text \<open>
  The name of the source file is printed from \<open>strrchr(file, '/') + 1\<close> without a test: a call from
  a file whose path has no slash reads behind a null pointer.
\<close>

lemma log_without_slash:
  assumes "CHR ''/'' \<notin> set path" and "logLevel l \<le> level" and "vformat fmt args = Inr msg"
  shows "LOG now pid path line level fmt args l = Inl NullDeref"
  using assms strrchr_next_no_slash[OF assms(1)] by (simp add: LOG_def logBase_def)

section \<open>The program test\_Logger\<close>

text \<open>
  \<open>main\<close> of \<open>test_Logger.cc\<close>. \<open>now\<close> gives the readings of the clock, \<open>file\<close> is \<open>__FILE__\<close>. The pauses change nothing the
  program can see. \<open>body\<close> is all of it but the last call.
\<close>

definition print_line :: "string \<Rightarrow> logger \<Rightarrow> logger" where
  "print_line s l = l\<lparr>stdout := stdout l @ [s @ [CHR 0x0A]]\<rparr>"

definition test_Logger_body :: "(nat \<Rightarrow> int) \<Rightarrow> nat \<Rightarrow> string \<Rightarrow> string \<Rightarrow> logger \<Rightarrow> logger result" where
  "test_Logger_body now pid errtext file l =
     rbind (LOG (now 0) pid file 11 LOG_INFO ''server quit after {} second...'' [''10''] (setLogLevel LOG_DEBUG l)) (\<lambda>l.
     rbind (LOG (now 1) pid file 12 LOG_DEBUG ''DEBUG log'' [] l) (\<lambda>l.
     rbind (LOG (now 2) pid file 15 LOG_ERROR ''something wrong test {} {} {}'' [''1'', ''2'', ''3''] (setLogFile ''./test_Logger.log'' l)) (\<lambda>l.
     rbind (logSys (now 3) pid errtext file 18 False ''someting sys wrong test {} {} {}'' [''1'', ''2'', ''3''] (setLogFile ''stdout'' l)) (\<lambda>l.
     Inr (print_line ''1'' (print_line ''2'' (print_line ''3'' (print_line ''ready to abort'' l))))))))"

definition test_Logger_main :: "(nat \<Rightarrow> int) \<Rightarrow> nat \<Rightarrow> string \<Rightarrow> string \<Rightarrow> logger \<Rightarrow> logger result" where
  "test_Logger_main now pid errtext file l =
     rbind (test_Logger_body now pid errtext file l) (\<lambda>l.
     logSys (now 4) pid errtext file 29 True ''ready to abort{} {} {} {}'' ['':'', ''3'', ''2'', ''1''] l)"

text \<open>The program ends in \<open>abort\<close>; before, it has written one line to the file and seven to the standard output.\<close>

lemma test_Logger_output:
  assumes "logger_ok l" and "logFileName l = []" and "CHR ''/'' \<notin> set base"
  shows "returns (test_Logger_body now pid errtext (dir @ CHR ''/'' # base) l) (\<lambda>l'. logger_ok l' \<and>
      length (stdout l') = length (stdout l) + 7 \<and>
      (\<exists>line. files l' = (files l)(''./test_Logger.log'' := files l ''./test_Logger.log'' @ [line])))"
    and "test_Logger_main now pid errtext (dir @ CHR ''/'' # base) l = Inl Aborted"
proof -
  note facts = assms(1,2) strrchr_next_slash[OF assms(3), of dir]
  show out: "returns (test_Logger_body now pid errtext (dir @ CHR ''/'' # base) l) (\<lambda>l'. logger_ok l' \<and>
      length (stdout l') = length (stdout l) + 7 \<and>
      (\<exists>line. files l' = (files l)(''./test_Logger.log'' := files l ''./test_Logger.log'' @ [line])))"
    using facts by (simp add: test_Logger_body_def LOG_def logBase_def logSys_def setLogLevel_def setLogFile_def emit_def logger_ok_def
        less_eq_LOG_LEVEL_def print_line_def Let_def returns_def) (rule exI, rule refl)
  show "test_Logger_main now pid errtext (dir @ CHR ''/'' # base) l = Inl Aborted"
    using out facts(3) by (auto simp: test_Logger_main_def logSys_def Let_def returns_iff)
qed

end
